(* ===== verification/Prelude.thy ===== *)
theory Prelude
  imports Main "HOL-Library.AList" "HOL-Library.Code_Target_Nat"
begin

text \<open>
  What the components share: machine integers, hash maps, ordered sequences, strings.

  \<^item> Integers. \<open>u64\<close>, \<open>u32\<close>, \<open>usize\<close> values are \<open>nat\<close>; \<open>saturating_sub\<close> is the subtraction
    of \<open>nat\<close>. Where the code adds or multiplies values that can leave the width, the
    wrap-around of a release build is written out (\<open>add64\<close>, \<open>mul64\<close>).
  \<^item> Hash maps. A \<open>HashMap\<close> is a list of entries with distinct keys. Its iteration order is
    the list's order; since every theorem is about any list, it is about any order.
  \<^item> Sorted sequences. \<open>partition_point\<close> and positional insertion of a \<open>VecDeque\<close>.
\<close>

named_theorems hmap_simps \<open>rewriting of lookups after map operations\<close>
named_theorems model_inv \<open>invariants kept by the operations\<close>

section \<open>Machine integers\<close>

abbreviation (input) saturating_sub :: "nat \<Rightarrow> nat \<Rightarrow> nat" where
  "saturating_sub a b \<equiv> a - b"

definition u64_max :: nat where "u64_max = 2 ^ 64 - 1"
definition u32_max :: nat where "u32_max = 2 ^ 32 - 1"

definition add64 :: "nat \<Rightarrow> nat \<Rightarrow> nat" where "add64 a b = (a + b) mod 2 ^ 64"
definition mul64 :: "nat \<Rightarrow> nat \<Rightarrow> nat" where "mul64 a b = (a * b) mod 2 ^ 64"
definition add32 :: "nat \<Rightarrow> nat \<Rightarrow> nat" where "add32 a b = (a + b) mod 2 ^ 32"

definition saturating_add32 :: "nat \<Rightarrow> nat \<Rightarrow> nat" where
  "saturating_add32 a b = min (a + b) u32_max"

lemma add64_small: "a + b < 2 ^ 64 \<Longrightarrow> add64 a b = a + b"
  by (simp add: add64_def)

lemma mul64_small: "a * b < 2 ^ 64 \<Longrightarrow> mul64 a b = a * b"
  by (simp add: mul64_def)

lemma add32_small: "a + b < 2 ^ 32 \<Longrightarrow> add32 a b = a + b"
  by (simp add: add32_def)

section \<open>Options\<close>

definition opt_or :: "'a option \<Rightarrow> 'a option \<Rightarrow> 'a option" where
  "opt_or a b = (case a of Some x \<Rightarrow> Some x | None \<Rightarrow> b)"

lemma opt_or_simps [simp]:
  "opt_or (Some x) b = Some x" "opt_or None b = b" "opt_or a None = a" "opt_or a a = a"
  by (auto simp: opt_or_def split: option.splits)

lemma opt_or_assoc: "opt_or a (opt_or b c) = opt_or (opt_or a b) c"
  by (cases a) auto

lemma opt_or_eq_None [simp]: "opt_or a b = None \<longleftrightarrow> a = None \<and> b = None"
  by (cases a) auto

definition opt_all :: "('a \<Rightarrow> bool) \<Rightarrow> 'a option \<Rightarrow> bool" where
  "opt_all P a = (case a of None \<Rightarrow> True | Some x \<Rightarrow> P x)"

definition opt_any :: "('a \<Rightarrow> bool) \<Rightarrow> 'a option \<Rightarrow> bool" where
  "opt_any P a = (case a of None \<Rightarrow> False | Some x \<Rightarrow> P x)"

lemma opt_all_simps [simp]: "opt_all P None" "opt_all P (Some x) = P x"
  by (auto simp: opt_all_def)

lemma opt_any_simps [simp]: "\<not> opt_any P None" "opt_any P (Some x) = P x"
  by (auto simp: opt_any_def)

section \<open>Hash maps\<close>

type_synonym ('k, 'v) hmap = "('k \<times> 'v) list"

definition hm_ok :: "('k, 'v) hmap \<Rightarrow> bool" where
  "hm_ok m \<longleftrightarrow> distinct (map fst m)"

abbreviation hm_get :: "('k, 'v) hmap \<Rightarrow> 'k \<Rightarrow> 'v option" where
  "hm_get \<equiv> map_of"

definition hm_insert :: "'k \<Rightarrow> 'v \<Rightarrow> ('k, 'v) hmap \<Rightarrow> ('k, 'v) hmap" where
  "hm_insert k v m = AList.update k v m"

definition hm_remove :: "'k \<Rightarrow> ('k, 'v) hmap \<Rightarrow> ('k, 'v) hmap" where
  "hm_remove k m = AList.delete k m"

definition hm_retain :: "('k \<Rightarrow> 'v \<Rightarrow> bool) \<Rightarrow> ('k, 'v) hmap \<Rightarrow> ('k, 'v) hmap" where
  "hm_retain P m = filter (\<lambda>(k, v). P k v) m"

definition hm_has :: "('k, 'v) hmap \<Rightarrow> 'k \<Rightarrow> bool" where
  "hm_has m k \<longleftrightarrow> hm_get m k \<noteq> None"

definition hm_map_values :: "('v \<Rightarrow> 'w) \<Rightarrow> ('k, 'v) hmap \<Rightarrow> ('k, 'w) hmap" where
  "hm_map_values f m = map (\<lambda>(k, v). (k, f v)) m"

text \<open>\<open>get_mut\<close> followed by an update in place.\<close>

definition hm_modify :: "'k \<Rightarrow> ('v \<Rightarrow> 'v) \<Rightarrow> ('k, 'v) hmap \<Rightarrow> ('k, 'v) hmap" where
  "hm_modify k f m = (case hm_get m k of None \<Rightarrow> m | Some v \<Rightarrow> hm_insert k (f v) m)"

lemma hm_ok_Nil [simp]: "hm_ok []"
  by (simp add: hm_ok_def)

lemma hm_get_insert [hmap_simps, simp]:
  "hm_get (hm_insert k v m) k' = (if k' = k then Some v else hm_get m k')"
  by (simp add: hm_insert_def update_conv)

lemma hm_ok_insert [simp, model_inv]: "hm_ok m \<Longrightarrow> hm_ok (hm_insert k v m)"
  by (simp add: hm_ok_def hm_insert_def distinct_update)

lemma hm_get_remove [hmap_simps, simp]:
  "hm_get (hm_remove k m) k' = (if k' = k then None else hm_get m k')"
  by (simp add: hm_remove_def delete_conv)

lemma hm_ok_remove [simp, model_inv]: "hm_ok m \<Longrightarrow> hm_ok (hm_remove k m)"
  by (simp add: hm_ok_def hm_remove_def distinct_delete)

lemma hm_ok_retain [simp, model_inv]: "hm_ok m \<Longrightarrow> hm_ok (hm_retain P m)"
  by (auto simp: hm_ok_def hm_retain_def intro: distinct_map_filter)

lemma hm_get_modify [hmap_simps, simp]:
  "hm_get (hm_modify k f m) k' = (if k' = k then map_option f (hm_get m k) else hm_get m k')"
  by (simp add: hm_modify_def split: option.splits)

lemma hm_ok_modify [simp, model_inv]: "hm_ok m \<Longrightarrow> hm_ok (hm_modify k f m)"
  by (simp add: hm_modify_def split: option.splits)

lemma hm_in_set: "hm_ok m \<Longrightarrow> (k, v) \<in> set m \<longleftrightarrow> hm_get m k = Some v"
  by (simp add: hm_ok_def)

lemma hm_get_retain [hmap_simps]:
  assumes "hm_ok m"
  shows "hm_get (hm_retain P m) k
    = (case hm_get m k of None \<Rightarrow> None | Some v \<Rightarrow> if P k v then Some v else None)"
  using assms
  by (induction m) (auto simp: hm_ok_def hm_retain_def map_of_eq_None_iff split: option.splits)

lemma hm_in_set_insert:
  "hm_ok m \<Longrightarrow> (k', v') \<in> set (hm_insert k v m)
    \<longleftrightarrow> (k' = k \<and> v' = v) \<or> (k' \<noteq> k \<and> (k', v') \<in> set m)"
  by (auto simp: hm_in_set)

lemma hm_in_set_remove:
  "hm_ok m \<Longrightarrow> (k', v') \<in> set (hm_remove k m) \<longleftrightarrow> k' \<noteq> k \<and> (k', v') \<in> set m"
  by (auto simp: hm_in_set)

lemma hm_in_set_retain:
  "(k, v) \<in> set (hm_retain P m) \<longleftrightarrow> (k, v) \<in> set m \<and> P k v"
  by (auto simp: hm_retain_def)

lemma hm_get_map_values [hmap_simps, simp]:
  "hm_get (hm_map_values f m) k = map_option f (hm_get m k)"
  by (induction m) (auto simp: hm_map_values_def)

lemma hm_ok_map_values [simp, model_inv]: "hm_ok (hm_map_values f m) = hm_ok m"
  by (simp add: hm_ok_def hm_map_values_def case_prod_unfold comp_def)

lemma hm_keys: "k \<in> fst ` set m \<longleftrightarrow> hm_get m k \<noteq> None"
  by (simp add: map_of_eq_None_iff)

lemma hm_insert_same: "hm_get m k = Some v \<Longrightarrow> hm_insert k v m = m"
  by (induction m) (auto simp: hm_insert_def split: if_splits)

lemma hm_has_insert [simp]: "hm_has (hm_insert k v m) k' \<longleftrightarrow> k' = k \<or> hm_has m k'"
  by (auto simp: hm_has_def)

section \<open>Ordered sequences\<close>

text \<open>\<open>partition_point\<close> of a sequence whose elements satisfying \<open>P\<close> come first.\<close>

definition partition_point :: "('a \<Rightarrow> bool) \<Rightarrow> 'a list \<Rightarrow> nat" where
  "partition_point P xs = length (takeWhile P xs)"

definition insert_at :: "nat \<Rightarrow> 'a \<Rightarrow> 'a list \<Rightarrow> 'a list" where
  "insert_at i x xs = take i xs @ x # drop i xs"

definition seq_get :: "'a list \<Rightarrow> nat \<Rightarrow> 'a option" where
  "seq_get xs i = (if i < length xs then Some (xs ! i) else None)"

lemma partition_point_le [simp]: "partition_point P xs \<le> length xs"
  by (simp add: partition_point_def length_takeWhile_le)

lemma length_insert_at [simp]: "i \<le> length xs \<Longrightarrow> length (insert_at i x xs) = Suc (length xs)"
  by (simp add: insert_at_def)

lemma set_insert_at: "set (insert_at i x xs) = insert x (set xs)"
proof -
  have "set (take i xs @ drop i xs) = set xs" by simp
  then show ?thesis unfolding insert_at_def by (simp only: set_append) auto
qed

lemma take_partition_point: "take (partition_point P xs) xs = takeWhile P xs"
  by (simp add: partition_point_def takeWhile_eq_take [symmetric])

lemma drop_partition_point: "drop (partition_point P xs) xs = dropWhile P xs"
  by (simp add: partition_point_def dropWhile_eq_drop [symmetric])

lemma insert_at_pp: "insert_at (partition_point P xs) x xs = takeWhile P xs @ x # dropWhile P xs"
  by (simp add: insert_at_def take_partition_point drop_partition_point)

lemma seq_get_pp:
  "seq_get xs (partition_point P xs) = (case dropWhile P xs of [] \<Rightarrow> None | y # _ \<Rightarrow> Some y)"
proof (cases "dropWhile P xs")
  case Nil
  then have "partition_point P xs = length xs"
    using arg_cong [OF takeWhile_dropWhile_id [of P xs], of length]
    by (simp add: partition_point_def del: takeWhile_dropWhile_id dropWhile_eq_Nil_conv)
  then show ?thesis unfolding Nil by (simp add: seq_get_def)
next
  case (Cons y ys)
  have l: "length (takeWhile P xs) < length xs"
    using arg_cong [OF takeWhile_dropWhile_id [of P xs], of length] Cons by simp
  have "xs ! length (takeWhile P xs) = (takeWhile P xs @ dropWhile P xs) ! length (takeWhile P xs)"
    by (simp only: takeWhile_dropWhile_id)
  then have "xs ! length (takeWhile P xs) = y" unfolding Cons by (simp only: nth_append_length)
  with Cons l show ?thesis by (simp add: seq_get_def partition_point_def)
qed

text \<open>Strictly increasing keys: the shape of every ring the store keeps.\<close>

definition sorted_by :: "('a \<Rightarrow> nat) \<Rightarrow> 'a list \<Rightarrow> bool" where
  "sorted_by f xs \<longleftrightarrow> sorted_wrt (<) (map f xs)"

lemma sorted_by_Nil [simp]: "sorted_by f []"
  by (simp add: sorted_by_def)

lemma sorted_by_Cons [simp]: "sorted_by f (x # xs) \<longleftrightarrow> (\<forall>y \<in> set xs. f x < f y) \<and> sorted_by f xs"
  by (simp add: sorted_by_def)

lemma sorted_by_append [simp]:
  "sorted_by f (xs @ ys)
    \<longleftrightarrow> sorted_by f xs \<and> sorted_by f ys \<and> (\<forall>x \<in> set xs. \<forall>y \<in> set ys. f x < f y)"
  by (auto simp: sorted_by_def sorted_wrt_append)

lemma sorted_by_inj:
  "sorted_by f xs \<Longrightarrow> x \<in> set xs \<Longrightarrow> y \<in> set xs \<Longrightarrow> f x = f y \<Longrightarrow> x = y"
  by (induction xs) auto

lemma sorted_by_distinct: "sorted_by f xs \<Longrightarrow> distinct xs"
  by (induction xs) auto

lemma sorted_by_filter: "sorted_by f xs \<Longrightarrow> sorted_by f (filter P xs)"
  by (induction xs) auto

lemma sorted_by_tl: "sorted_by f xs \<Longrightarrow> sorted_by f (tl xs)"
  by (cases xs) auto

lemma sorted_by_dropWhile: "sorted_by f xs \<Longrightarrow> sorted_by f (dropWhile P xs)"
  by (induction xs) auto

lemma sorted_by_dropWhile_less:
  "sorted_by f xs \<Longrightarrow> dropWhile (\<lambda>x. f x < c) xs = filter (\<lambda>x. c \<le> f x) xs"
  by (induction xs) (auto simp: filter_id_conv intro!: filter_True [symmetric])

lemma sorted_by_takeWhile_less:
  "sorted_by f xs \<Longrightarrow> takeWhile (\<lambda>x. f x < c) xs = filter (\<lambda>x. f x < c) xs"
  by (induction xs) (auto simp: filter_empty_conv intro!: filter_False [symmetric])

text \<open>Inserting a new key at its partition point keeps the order.\<close>

lemma sorted_by_insert_at:
  assumes s: "sorted_by f xs" and new: "\<forall>y \<in> set xs. f y \<noteq> f x"
  shows "sorted_by f (insert_at (partition_point (\<lambda>y. f y < f x) xs) x xs)"
  unfolding insert_at_pp using assms
proof (induction xs)
  case (Cons a xs)
  show ?case
  proof (cases "f a < f x")
    case True
    have s: "sorted_by f xs" and a: "\<forall>y \<in> set xs. f a < f y"
      and new: "\<forall>y \<in> set xs. f y \<noteq> f x"
      using Cons.prems by simp_all
    have "sorted_by f (takeWhile (\<lambda>y. f y < f x) xs @ x # dropWhile (\<lambda>y. f y < f x) xs)"
      using s new by (rule Cons.IH)
    moreover have "\<forall>y \<in> set (takeWhile (\<lambda>y. f y < f x) xs @ x # dropWhile (\<lambda>y. f y < f x) xs). f a < f y"
      using a True by (auto dest: set_takeWhileD set_dropWhileD)
    ultimately show ?thesis
      by (simp only: takeWhile.simps dropWhile.simps True if_True append_Cons sorted_by_Cons)
  next
    case False
    with Cons.prems have "f x < f a" by (simp add: neq_iff)
    with Cons.prems False show ?thesis by (auto intro: less_trans)
  qed
qed simp

text \<open>The element found at the partition point is the one with that key, if there is one.\<close>

lemma seq_get_pp_key:
  assumes s: "sorted_by f xs"
  shows "(case seq_get xs (partition_point (\<lambda>y. f y < c) xs) of
           Some y \<Rightarrow> if f y = c then Some y else None | None \<Rightarrow> None)
         = find (\<lambda>y. f y = c) xs"
  using s
proof (induction xs)
  case Nil
  then show ?case by (simp add: seq_get_def)
next
  case (Cons x xs)
  have tail: "find (\<lambda>y. f y = c) xs = None" if "c \<le> f x"
    using Cons.prems that by (fastforce simp: find_None_iff)
  from Cons show ?case
    by (cases "f x < c") (auto simp: seq_get_pp tail)
qed

text \<open>A one-element update keeps the keys.\<close>

lemma sorted_by_update:
  assumes "sorted_by f xs" "f y = f (xs ! i)" shows "sorted_by f (xs[i := y])"
proof -
  have "map f (xs[i := y]) = map f xs"
  proof (cases "i < length xs")
    case True
    then have "(map f xs)[i := map f xs ! i] = map f xs" by (intro list_update_id)
    with True assms(2) show ?thesis by (simp add: map_update)
  next
    case False
    then show ?thesis by (simp add: list_update_beyond)
  qed
  with assms(1) show ?thesis by (simp add: sorted_by_def)
qed

text \<open>Around the partition point of a strictly sorted sequence: smaller keys, then the element
  with the key if there is one, then larger keys.\<close>

lemma partition_cases:
  assumes s: "sorted_by f xs"
  obtains (twin) us a vs where "xs = us @ a # vs" "f a = c"
      "partition_point (\<lambda>x. f x < c) xs = length us"
      "seq_get xs (partition_point (\<lambda>x. f x < c) xs) = Some a"
  | (fresh) us vs where "xs = us @ vs" "\<forall>x \<in> set us. f x < c" "\<forall>x \<in> set vs. c < f x"
      "partition_point (\<lambda>x. f x < c) xs = length us"
      "opt_all (\<lambda>a. f a \<noteq> c) (seq_get xs (partition_point (\<lambda>x. f x < c) xs))"
proof -
  let ?us = "takeWhile (\<lambda>x. f x < c) xs" and ?vs = "dropWhile (\<lambda>x. f x < c) xs"
  have xs: "xs = ?us @ ?vs" by simp
  have us: "\<forall>x \<in> set ?us. f x < c" by (auto dest: set_takeWhileD)
  have vs: "\<forall>x \<in> set ?vs. c \<le> f x"
    unfolding sorted_by_dropWhile_less [OF s] by simp
  have g: "seq_get xs (partition_point (\<lambda>x. f x < c) xs) = (case ?vs of [] \<Rightarrow> None | y # _ \<Rightarrow> Some y)"
    by (rule seq_get_pp)
  have pp: "partition_point (\<lambda>x. f x < c) xs = length ?us" by (simp add: partition_point_def)
  show ?thesis
  proof (cases ?vs)
    case Nil
    show ?thesis by (rule fresh [of ?us "[]"]) (use xs us pp g Nil in simp_all)
  next
    case (Cons a ws)
    show ?thesis
    proof (cases "f a = c")
      case True
      show ?thesis by (rule twin [of ?us a ws]) (use xs pp g Cons True in simp_all)
    next
      case False
      have "sorted_by f (a # ws)" using sorted_by_dropWhile [OF s, of "\<lambda>x. f x < c"] Cons by simp
      moreover have "c < f a" using vs False Cons by (simp add: le_neq_trans)
      ultimately have "\<forall>x \<in> set ?vs. c < f x" unfolding Cons by auto
      then show ?thesis by (rule fresh [OF xs us]) (use pp g Cons False in simp_all)
    qed
  qed
qed

lemma insert_at_length [simp]: "insert_at (length us) x (us @ vs) = us @ x # vs"
  by (simp add: insert_at_def)

section \<open>Strings\<close>

text \<open>\<open>str::split_once\<close>, \<open>splitn(3, c)\<close> and ASCII case folding on byte strings.\<close>

fun split_once :: "char \<Rightarrow> string \<Rightarrow> (string \<times> string) option" where
  "split_once c [] = None"
| "split_once c (x # xs) = (if x = c then Some ([], xs)
     else map_option (\<lambda>(a, b). (x # a, b)) (split_once c xs))"

lemma split_once_append: "c \<notin> set a \<Longrightarrow> split_once c (a @ c # b) = Some (a, b)"
  by (induction a) auto

lemma split_once_SomeD: "split_once c s = Some (a, b) \<Longrightarrow> s = a @ c # b \<and> c \<notin> set a"
  by (induction s arbitrary: a) (auto split: if_splits)

lemma split_once_None: "split_once c s = None \<longleftrightarrow> c \<notin> set s"
  by (induction s) auto

definition ascii_lower :: "char \<Rightarrow> char" where
  "ascii_lower c = (let n = of_char c :: nat
     in if 65 \<le> n \<and> n \<le> 90 then char_of (n + 32) else c)"

definition to_ascii_lowercase :: "string \<Rightarrow> string" where
  "to_ascii_lowercase s = map ascii_lower s"

text \<open>Decimal digits, as integers are displayed.\<close>

fun show_nat :: "nat \<Rightarrow> string" where
  "show_nat n = (if n < 10 then [] else show_nat (n div 10)) @ [char_of (48 + n mod 10)]"

declare show_nat.simps [simp del]

section \<open>Runs\<close>

text \<open>What every operation keeps holds after any sequence of operations.\<close>

lemma run_invariant:
  "step\<^sup>*\<^sup>* s0 s \<Longrightarrow> P s0 \<Longrightarrow> (\<And>a b. P a \<Longrightarrow> step a b \<Longrightarrow> P b) \<Longrightarrow> P s"
  by (induction rule: rtranclp_induct) auto

end
