(* ===== verification/F64.thy ===== *)
theory F64
  imports Complex_Main "HOL-Library.Log_Nat"
begin

text \<open>
  The floating-point arithmetic the code relies on: Rust's \<open>f64\<close> (IEEE 754 binary64) and
  \<open>f32\<close> (binary32), round to nearest, ties to even, with subnormals, infinities and NaN.
  A finite value is its exact rational; every arithmetic operation computes the exact
  result and rounds it once with \<open>rnd\<close>, as the standard prescribes. The two zeros are one
  value here: nothing in the modelled code tells them apart (no sign bit is read, and every
  zero divisor of the code is excluded by a guard or is a non-negative count).

  Lemmas: \<open>rnd\<close> is monotone, odd, and exact on representable values (in particular on
  integers up to \<open>2 ^ p\<close>), which is what the bounds on loss percentages rest on.
\<close>

section \<open>Values\<close>

datatype flt = Fin rat | PInf | NInf | NaN

type_synonym f64 = flt
type_synonym f32 = flt

fun is_finite :: "flt \<Rightarrow> bool" where
  "is_finite (Fin _) = True"
| "is_finite _ = False"

section \<open>Comparisons\<close>

text \<open>The partial order of IEEE comparisons: every comparison with NaN is false.\<close>

fun f_lt :: "flt \<Rightarrow> flt \<Rightarrow> bool" where
  "f_lt (Fin x) (Fin y) = (x < y)"
| "f_lt (Fin _) PInf = True"
| "f_lt NInf (Fin _) = True"
| "f_lt NInf PInf = True"
| "f_lt _ _ = False"

fun f_eq :: "flt \<Rightarrow> flt \<Rightarrow> bool" where
  "f_eq (Fin x) (Fin y) = (x = y)"
| "f_eq PInf PInf = True"
| "f_eq NInf NInf = True"
| "f_eq _ _ = False"

definition f_le :: "flt \<Rightarrow> flt \<Rightarrow> bool" where
  "f_le x y \<longleftrightarrow> f_lt x y \<or> f_eq x y"

text \<open>\<open>f64::max\<close> and \<open>f64::min\<close>: a NaN argument is ignored.\<close>

definition f_max :: "flt \<Rightarrow> flt \<Rightarrow> flt" where
  "f_max x y = (if x = NaN then y else if y = NaN then x else if f_lt x y then y else x)"

definition f_min :: "flt \<Rightarrow> flt \<Rightarrow> flt" where
  "f_min x y = (if x = NaN then y else if y = NaN then x else if f_lt y x then y else x)"

section \<open>Rounding\<close>

text \<open>The exponent of the leading binary digit of a positive rational.\<close>

definition ilog2 :: "rat \<Rightarrow> int" where
  "ilog2 r = (let ab = quotient_of r; e = bitlen (fst ab) - bitlen (snd ab)
              in if 2 powi e \<le> r then e else e - 1)"

definition round_even :: "rat \<Rightarrow> int" where
  "round_even y = (let f = \<lfloor>y\<rfloor>; d = y - of_int f
     in if d < 1 / 2 then f else if 1 / 2 < d then f + 1 else if even f then f else f + 1)"

text \<open>The exponent of the unit in the last place of a value, for \<open>p\<close> digits and the least
  exponent \<open>m\<close> (that of the subnormals).\<close>

definition ulp_exp :: "nat \<Rightarrow> int \<Rightarrow> rat \<Rightarrow> int" where
  "ulp_exp p m x = max m (ilog2 x - int p + 1)"

definition rnd_pos :: "nat \<Rightarrow> int \<Rightarrow> rat \<Rightarrow> rat" where
  "rnd_pos p m x = (let e = ulp_exp p m x in of_int (round_even (x / 2 powi e)) * 2 powi e)"

definition rnd_rat :: "nat \<Rightarrow> int \<Rightarrow> rat \<Rightarrow> rat" where
  "rnd_rat p m x = (if x = 0 then 0 else if 0 < x then rnd_pos p m x else - rnd_pos p m (- x))"

definition fit :: "rat \<Rightarrow> rat \<Rightarrow> flt" where
  "fit b x = (if b \<le> x then PInf else if x \<le> - b then NInf else Fin x)"

definition lim64 :: rat where "lim64 = 2 ^ 1024"
definition lim32 :: rat where "lim32 = 2 ^ 128"

text \<open>Their values, for evaluation.\<close>

lemma lim64_code [code]: "lim64 = of_int 179769313486231590772930519078902473361797697894230657273430081157732675805500963132708477322407536021120113879871393357658789768814416622492847430639474124377767893424865485276302219601246094119453082952085005768838150682342462881473913110540827237163350510684586298239947245938479716304835356329624224137216"
  by (simp add: lim64_def)

lemma lim32_code [code]: "lim32 = of_int 340282366920938463463374607431768211456"
  by (simp add: lim32_def)

definition rnd64 :: "rat \<Rightarrow> rat" where "rnd64 = rnd_rat 53 (- 1074)"
definition rnd32 :: "rat \<Rightarrow> rat" where "rnd32 = rnd_rat 24 (- 149)"

definition r64 :: "rat \<Rightarrow> f64" where "r64 x = fit lim64 (rnd64 x)"
definition r32 :: "rat \<Rightarrow> f32" where "r32 x = fit lim32 (rnd32 x)"

section \<open>Arithmetic\<close>

fun f_neg :: "flt \<Rightarrow> flt" where
  "f_neg (Fin x) = Fin (- x)"
| "f_neg PInf = NInf"
| "f_neg NInf = PInf"
| "f_neg NaN = NaN"

fun f_add :: "f64 \<Rightarrow> f64 \<Rightarrow> f64" where
  "f_add (Fin x) (Fin y) = r64 (x + y)"
| "f_add NaN _ = NaN"
| "f_add _ NaN = NaN"
| "f_add PInf NInf = NaN"
| "f_add NInf PInf = NaN"
| "f_add PInf _ = PInf"
| "f_add _ PInf = PInf"
| "f_add NInf _ = NInf"
| "f_add _ NInf = NInf"

definition f_sub :: "f64 \<Rightarrow> f64 \<Rightarrow> f64" where
  "f_sub x y = f_add x (f_neg y)"

definition inf_of_sign :: "rat \<Rightarrow> flt" where
  "inf_of_sign s = (if 0 < s then PInf else if s < 0 then NInf else NaN)"

fun f_sgn :: "flt \<Rightarrow> rat" where
  "f_sgn (Fin x) = sgn x"
| "f_sgn PInf = 1"
| "f_sgn NInf = - 1"
| "f_sgn NaN = 0"

fun f_mul :: "f64 \<Rightarrow> f64 \<Rightarrow> f64" where
  "f_mul (Fin x) (Fin y) = r64 (x * y)"
| "f_mul NaN _ = NaN"
| "f_mul _ NaN = NaN"
| "f_mul x y = inf_of_sign (f_sgn x * f_sgn y)"

text \<open>A zero divisor is \<open>+0\<close>: a positive dividend gives \<open>+\<infinity>\<close>, zero gives NaN.\<close>

fun f_div :: "f64 \<Rightarrow> f64 \<Rightarrow> f64" where
  "f_div (Fin x) (Fin y) = (if y = 0 then inf_of_sign x else r64 (x / y))"
| "f_div NaN _ = NaN"
| "f_div _ NaN = NaN"
| "f_div (Fin _) _ = Fin 0"
| "f_div x (Fin y) = (if y = 0 then x else inf_of_sign (f_sgn x * sgn y))"
| "f_div _ _ = NaN"

fun f_floor :: "f64 \<Rightarrow> f64" where
  "f_floor (Fin x) = Fin (of_int \<lfloor>x\<rfloor>)"
| "f_floor x = x"

text \<open>The correctly rounded square root: the integer root of the scaled argument, rounded by
  comparing with the midpoint (a tie is impossible for a 53-digit argument).\<close>

function isqrt_from :: "nat \<Rightarrow> nat \<Rightarrow> nat \<Rightarrow> nat" where
  "isqrt_from lo hi n = (if hi \<le> Suc lo then lo
     else let mid = (lo + hi) div 2
          in if mid * mid \<le> n then isqrt_from mid hi n else isqrt_from lo mid n)"
  by pat_completeness auto
termination
  by (relation "measure (\<lambda>(lo, hi, n). hi - lo)") auto

declare isqrt_from.simps [simp del]

definition isqrt :: "nat \<Rightarrow> nat" where
  "isqrt n = isqrt_from 0 (Suc n) n"

definition sqrt_rat :: "rat \<Rightarrow> rat" where
  "sqrt_rat x = (if x \<le> 0 then 0
     else let e = ilog2 x div 2 - 52;
              y = x / 2 powi (2 * e);
              r = isqrt (nat \<lfloor>y\<rfloor>);
              r' = (if (of_nat r + 1 / 2) * (of_nat r + 1 / 2) < y then Suc r else r)
          in of_nat r' * 2 powi e)"

fun f_sqrt :: "f64 \<Rightarrow> f64" where
  "f_sqrt (Fin x) = (if x < 0 then NaN else Fin (sqrt_rat x))"
| "f_sqrt PInf = PInf"
| "f_sqrt _ = NaN"

text \<open>\<open>n as f64\<close> of an unsigned integer, \<open>x as f32\<close>, and \<open>x as f64\<close> of an \<open>f32\<close> (exact).\<close>

definition f_of_nat :: "nat \<Rightarrow> f64" where
  "f_of_nat n = r64 (of_nat n)"

fun to_f32 :: "f64 \<Rightarrow> f32" where
  "to_f32 (Fin x) = r32 x"
| "to_f32 x = x"

definition of_f32 :: "f32 \<Rightarrow> f64" where
  "of_f32 x = x"

text \<open>\<open>iter().sum::<f64>()\<close>: a left fold from zero.\<close>

definition f_sum :: "f64 list \<Rightarrow> f64" where
  "f_sum xs = foldl f_add (Fin 0) xs"

section \<open>Facts about the comparisons\<close>

lemma f_lt_irrefl [simp]: "\<not> f_lt x x"
  by (cases x) auto

lemma f_lt_NaN [simp]: "\<not> f_lt NaN x" "\<not> f_lt x NaN"
  by (cases x; simp)+

lemma f_lt_trans: "f_lt x y \<Longrightarrow> f_lt y z \<Longrightarrow> f_lt x z"
  by (cases x; cases y; cases z) auto

lemma f_lt_asym: "f_lt x y \<Longrightarrow> \<not> f_lt y x"
  by (cases x; cases y) auto

lemma f_lt_total: "x \<noteq> NaN \<Longrightarrow> y \<noteq> NaN \<Longrightarrow> \<not> f_lt x y \<Longrightarrow> x = y \<or> f_lt y x"
  by (cases x; cases y) auto

lemma f_le_iff: "x \<noteq> NaN \<Longrightarrow> y \<noteq> NaN \<Longrightarrow> f_le x y \<longleftrightarrow> \<not> f_lt y x"
  by (cases x; cases y) (auto simp: f_le_def)

lemma f_le_Fin [simp]: "f_le (Fin x) (Fin y) \<longleftrightarrow> x \<le> y"
  by (auto simp: f_le_def)

lemma f_max_Fin [simp]: "f_max (Fin x) (Fin y) = Fin (max x y)"
  by (auto simp: f_max_def max_def)

lemma f_min_Fin [simp]: "f_min (Fin x) (Fin y) = Fin (min x y)"
  by (auto simp: f_min_def min_def)

lemma f_max_NaN [simp]: "f_max NaN y = y" "f_max x NaN = x"
  by (auto simp: f_max_def)

lemma f_min_NaN [simp]: "f_min NaN y = y" "f_min x NaN = x"
  by (auto simp: f_min_def)

lemma f_max_commute: "f_max x y = f_max y x"
  by (cases x; cases y) (auto simp: f_max_def)

lemma f_min_commute: "f_min x y = f_min y x"
  by (cases x; cases y) (auto simp: f_min_def)

text \<open>What a threshold sees of the worse of two values.\<close>

lemma f_lt_f_max: "f_lt t (f_max x y) \<longleftrightarrow> f_lt t x \<or> f_lt t y"
  by (cases t; cases x; cases y) (auto simp: f_max_def)

lemma f_min_f_lt: "f_lt (f_min x y) t \<longleftrightarrow> f_lt x t \<or> f_lt y t"
  by (cases t; cases x; cases y) (auto simp: f_min_def)

section \<open>Facts about rounding\<close>

lemma bitlen_pos_bounds:
  assumes "0 < x"
  shows "(2::rat) powi (bitlen x - 1) \<le> of_int x" "of_int x < (2::rat) powi bitlen x" "0 < bitlen x"
proof -
  have b: "2 ^ nat (bitlen x - 1) \<le> x \<and> x < 2 ^ nat (bitlen x)"
    by (rule bitlen_bounds [OF assms])
  show pos: "0 < bitlen x"
    using assms by (simp add: bitlen_def floorlog_eq_zero_iff flip: neq0_conv)
  have "of_int (2 ^ nat (bitlen x - 1)) \<le> (of_int x :: rat)"
    using b by (simp only: of_int_le_iff)
  with pos show "(2::rat) powi (bitlen x - 1) \<le> of_int x"
    by (simp add: power_int_def)
  have "(of_int x :: rat) < of_int (2 ^ nat (bitlen x))"
    using b by (simp only: of_int_less_iff)
  with pos show "of_int x < (2::rat) powi bitlen x"
    by (simp add: power_int_def)
qed

lemma powi2_pos [simp]: "0 < (2::rat) powi e"
  by (simp add: zero_less_power_int)

lemma powi2_nz [simp]: "(2::rat) powi e \<noteq> 0"
  using powi2_pos [of e] by linarith

lemma powi2_mono: "a \<le> b \<Longrightarrow> (2::rat) powi a \<le> 2 powi b"
  by (simp add: power_int_increasing)

lemma powi2_less_iff [simp]: "(2::rat) powi a < 2 powi b \<longleftrightarrow> a < b"
proof -
  have lt: "(2::rat) powi a < 2 powi b" if "a < b" for a b
  proof -
    have "(2::rat) powi a < 2 * 2 powi a" using powi2_pos [of a] by linarith
    also have "\<dots> = 2 powi (a + 1)" by (simp add: power_int_add)
    also have "\<dots> \<le> 2 powi b" using that by (intro powi2_mono) simp
    finally show ?thesis .
  qed
  show ?thesis
  proof (cases a b rule: linorder_cases)
    case less
    then show ?thesis using lt [of a b] by simp
  next
    case equal
    then show ?thesis by simp
  next
    case greater
    then have "\<not> (2::rat) powi a < 2 powi b" using lt [of b a] by (simp add: not_less less_imp_le)
    with greater show ?thesis by simp
  qed
qed

lemma powi2_not_neg [simp]: "\<not> (2::rat) powi e < 0"
  using powi2_pos [of e] by linarith

lemma powi2_split:
  assumes "a \<le> b" shows "(2::rat) powi b = of_int (2 ^ nat (b - a)) * 2 powi a"
proof -
  have "(2::rat) powi b = 2 powi (b - a) * 2 powi a" by (simp flip: power_int_add)
  also have "(2::rat) powi (b - a) = of_int (2 ^ nat (b - a))"
    using assms by (simp add: power_int_def)
  finally show ?thesis .
qed

lemma ilog2_bounds:
  assumes "0 < x"
  shows "2 powi ilog2 x \<le> x" and "x < 2 powi (ilog2 x + 1)"
proof -
  obtain a b where q: "quotient_of x = (a, b)" by force
  have b: "0 < b" using quotient_of_denom_pos [OF q] .
  have x: "x = of_int a / of_int b" using quotient_of_div [OF q] .
  have a: "0 < a" using assms b unfolding x by (simp add: zero_less_divide_iff)
  note A = bitlen_pos_bounds [OF a] and B = bitlen_pos_bounds [OF b]
  have pb: "(0::rat) < of_int b" using b by simp
  have up: "x < 2 powi (bitlen a - bitlen b + 1)"
  proof -
    have "(of_int a :: rat) < 2 powi (bitlen a - bitlen b + 1) * 2 powi (bitlen b - 1)"
      using A(2) by (simp flip: power_int_add)
    also have "\<dots> \<le> 2 powi (bitlen a - bitlen b + 1) * of_int b"
      using B(1) by (intro mult_left_mono) (simp_all add: less_imp_le)
    finally show ?thesis unfolding x using pb by (simp add: divide_less_eq)
  qed
  have lo: "2 powi (bitlen a - bitlen b - 1) \<le> x"
  proof -
    have "2 powi (bitlen a - bitlen b - 1) * of_int b
        \<le> (2::rat) powi (bitlen a - bitlen b - 1) * 2 powi bitlen b"
      using B(2) by (intro mult_left_mono) (simp_all add: less_imp_le)
    also have "\<dots> = 2 powi (bitlen a - 1)" by (simp flip: power_int_add)
    also have "\<dots> \<le> of_int a" by (rule A(1))
    finally show ?thesis unfolding x using pb by (simp add: le_divide_eq)
  qed
  have i: "ilog2 x = (if 2 powi (bitlen a - bitlen b) \<le> x then bitlen a - bitlen b
      else bitlen a - bitlen b - 1)"
    by (simp add: ilog2_def q)
  show "2 powi ilog2 x \<le> x" using lo by (simp add: i)
  show "x < 2 powi (ilog2 x + 1)" using up by (simp add: i)
qed

lemma ilog2_le: "0 < x \<Longrightarrow> x < 2 powi (k + 1) \<Longrightarrow> ilog2 x \<le> k"
  using ilog2_bounds(1) [of x] powi2_less_iff [of "ilog2 x" "k + 1"] by linarith

lemma ilog2_mono: "0 < x \<Longrightarrow> x \<le> y \<Longrightarrow> ilog2 x \<le> ilog2 y"
  using ilog2_bounds(2) [of y] by (intro ilog2_le) linarith+

lemma round_even_of_int [simp]: "round_even (of_int k) = k"
  by (simp add: round_even_def)

lemma round_even_near: "\<bar>of_int (round_even y) - y\<bar> \<le> 1 / 2"
proof -
  have f: "of_int \<lfloor>y\<rfloor> \<le> y" "y < of_int \<lfloor>y\<rfloor> + 1"
    by (rule of_int_floor_le) (rule floor_correct [THEN conjunct2, simplified])
  show ?thesis using f by (auto simp: round_even_def Let_def abs_le_iff)
qed

lemma round_even_mono:
  assumes "x \<le> y" shows "round_even x \<le> round_even y"
proof (cases "\<lfloor>x\<rfloor> = \<lfloor>y\<rfloor>")
  case True
  with assms show ?thesis by (auto simp: round_even_def Let_def)
next
  case False
  with assms have "\<lfloor>x\<rfloor> + 1 \<le> \<lfloor>y\<rfloor>" using floor_mono [of x y] by linarith
  moreover have "round_even x \<le> \<lfloor>x\<rfloor> + 1" "\<lfloor>y\<rfloor> \<le> round_even y"
    by (auto simp: round_even_def Let_def)
  ultimately show ?thesis by linarith
qed

lemma round_even_ge: "of_int k \<le> y \<Longrightarrow> k \<le> round_even y"
  using round_even_mono [of "of_int k" y] by simp

lemma round_even_le: "y \<le> of_int k \<Longrightarrow> round_even y \<le> k"
  using round_even_mono [of y "of_int k"] by simp

text \<open>A value on the grid \<open>2 ^ e\<close> bounds what it bounds after rounding to that grid.\<close>

lemma rnd_pos_le_grid:
  assumes "x \<le> 2 powi t" "ulp_exp p m x \<le> t" shows "rnd_pos p m x \<le> 2 powi t"
proof -
  let ?e = "ulp_exp p m x"
  have t: "(2::rat) powi t = of_int (2 ^ nat (t - ?e)) * 2 powi ?e"
    using assms(2) by (rule powi2_split)
  have "x / 2 powi ?e \<le> of_int (2 ^ nat (t - ?e))"
    using assms(1) unfolding t by (simp add: divide_le_eq)
  then have "round_even (x / 2 powi ?e) \<le> 2 ^ nat (t - ?e)" by (rule round_even_le)
  then have "(of_int (round_even (x / 2 powi ?e)) :: rat) \<le> of_int (2 ^ nat (t - ?e))"
    by (simp only: of_int_le_iff)
  then show ?thesis
    unfolding rnd_pos_def Let_def t by (intro mult_right_mono) (simp_all add: less_imp_le)
qed

lemma rnd_pos_ge_grid:
  assumes "2 powi t \<le> x" "ulp_exp p m x \<le> t" shows "2 powi t \<le> rnd_pos p m x"
proof -
  let ?e = "ulp_exp p m x"
  have t: "(2::rat) powi t = of_int (2 ^ nat (t - ?e)) * 2 powi ?e"
    using assms(2) by (rule powi2_split)
  have "of_int (2 ^ nat (t - ?e)) \<le> x / 2 powi ?e"
    using assms(1) unfolding t by (simp add: le_divide_eq)
  then have "2 ^ nat (t - ?e) \<le> round_even (x / 2 powi ?e)" by (rule round_even_ge)
  then have "of_int (2 ^ nat (t - ?e)) \<le> (of_int (round_even (x / 2 powi ?e)) :: rat)"
    by (simp only: of_int_le_iff)
  then show ?thesis
    unfolding rnd_pos_def Let_def t by (intro mult_right_mono) (simp_all add: less_imp_le)
qed

lemma rnd_pos_nonneg: "0 < x \<Longrightarrow> 0 \<le> rnd_pos p m x"
  using round_even_ge [of 0 "x / 2 powi ulp_exp p m x"]
  by (simp add: rnd_pos_def Let_def less_imp_le)

lemma rnd_pos_mono:
  assumes "0 < x" "x \<le> y" "0 < p" shows "rnd_pos p m x \<le> rnd_pos p m y"
proof (cases "ulp_exp p m x = ulp_exp p m y")
  case True
  have "x / 2 powi ulp_exp p m y \<le> y / 2 powi ulp_exp p m y"
    using assms(2) by (simp add: divide_right_mono less_imp_le)
  from round_even_mono [OF this] show ?thesis
    unfolding rnd_pos_def Let_def True
    by (intro mult_right_mono) (simp_all add: less_imp_le)
next
  case False
  note l = ilog2_mono [OF assms(1,2)]
  have lt: "ulp_exp p m x < ulp_exp p m y"
    using False l by (auto simp: ulp_exp_def max_def split: if_splits)
  let ?t = "ilog2 y"
  have ey: "ulp_exp p m y \<le> ?t" using lt assms(3) by (auto simp: ulp_exp_def max_def split: if_splits)
  have "ilog2 x + 1 \<le> ?t" using lt l by (auto simp: ulp_exp_def max_def split: if_splits)
  then have "x \<le> 2 powi ?t"
    using ilog2_bounds(2) [OF assms(1)] powi2_mono [of "ilog2 x + 1" ?t] by linarith
  then have "rnd_pos p m x \<le> 2 powi ?t"
    by (rule rnd_pos_le_grid) (use lt ey in linarith)
  also have "2 powi ?t \<le> rnd_pos p m y"
    by (rule rnd_pos_ge_grid [OF ilog2_bounds(1)]) (use assms ey in auto)
  finally show ?thesis .
qed

lemma rnd_rat_0 [simp]: "rnd_rat p m 0 = 0"
  by (simp add: rnd_rat_def)

lemma rnd_rat_neg: "rnd_rat p m (- x) = - rnd_rat p m x"
  by (simp add: rnd_rat_def)

lemma rnd_rat_mono:
  assumes "x \<le> y" "0 < p" shows "rnd_rat p m x \<le> rnd_rat p m y"
proof -
  consider "0 < x" | "y < 0" | "x \<le> 0" "0 \<le> y" by linarith
  then show ?thesis
  proof cases
    case 1
    then show ?thesis using rnd_pos_mono [of x y p m] assms by (simp add: rnd_rat_def)
  next
    case 2
    then show ?thesis using rnd_pos_mono [of "- y" "- x" p m] assms by (simp add: rnd_rat_def)
  next
    case 3
    then show ?thesis
      using rnd_pos_nonneg [of y p m] rnd_pos_nonneg [of "- x" p m] by (auto simp: rnd_rat_def)
  qed
qed

lemma rnd_pos_exact:
  assumes "0 < k" "k < 2 ^ p" "m \<le> e"
  shows "rnd_pos p m (of_int k * 2 powi e) = of_int k * 2 powi e"
proof -
  let ?x = "(of_int k :: rat) * 2 powi e"
  have "(of_int k :: rat) < of_int (2 ^ p)" using assms(2) by (simp only: of_int_less_iff)
  then have "?x < 2 ^ p * 2 powi e" by simp
  also have "\<dots> = 2 powi (e + int p - 1 + 1)" by (simp add: power_int_add)
  finally have "ilog2 ?x \<le> e + int p - 1"
    by (intro ilog2_le) (use assms(1) in simp_all)
  then have u: "ulp_exp p m ?x \<le> e" using assms(3) by (simp add: ulp_exp_def)
  let ?u = "ulp_exp p m ?x"
  have "?x / 2 powi ?u = of_int (k * 2 ^ nat (e - ?u))"
    using powi2_split [OF u] by (simp add: divide_eq_eq)
  then have "rnd_pos p m ?x = of_int (k * 2 ^ nat (e - ?u)) * 2 powi ?u"
    by (simp add: rnd_pos_def Let_def del: of_int_mult)
  also have "\<dots> = ?x" using powi2_split [OF u] by simp
  finally show ?thesis .
qed

lemma rnd_rat_exact:
  assumes "\<bar>k\<bar> < 2 ^ p" "m \<le> e"
  shows "rnd_rat p m (of_int k * 2 powi e) = of_int k * 2 powi e"
  using rnd_pos_exact [of k p m e] rnd_pos_exact [of "- k" p m e] assms
  by (auto simp: rnd_rat_def zero_less_mult_iff mult_less_0_iff)

lemma rnd64_of_int: "\<bar>k\<bar> < 2 ^ 53 \<Longrightarrow> rnd64 (of_int k) = of_int k"
  using rnd_rat_exact [of k 53 "- 1074" 0] by (simp add: rnd64_def)

lemma rnd64_mono: "x \<le> y \<Longrightarrow> rnd64 x \<le> rnd64 y"
  by (simp add: rnd64_def rnd_rat_mono)

lemma rnd32_mono: "x \<le> y \<Longrightarrow> rnd32 x \<le> rnd32 y"
  by (simp add: rnd32_def rnd_rat_mono)

lemma r64_in: "a \<le> x \<Longrightarrow> x \<le> b \<Longrightarrow> \<bar>a\<bar> < 2 ^ 53 \<Longrightarrow> \<bar>b\<bar> < 2 ^ 53
    \<Longrightarrow> \<exists>q. r64 x = Fin q \<and> a \<le> q \<and> q \<le> b"
  if "a = of_int i" "b = of_int j" for a b :: rat and i j
proof -
  assume x: "a \<le> x" "x \<le> b" and s: "\<bar>a\<bar> < 2 ^ 53" "\<bar>b\<bar> < 2 ^ 53"
  have "(of_int \<bar>i\<bar> :: rat) < of_int (2 ^ 53)" "(of_int \<bar>j\<bar> :: rat) < of_int (2 ^ 53)"
    using s that by simp_all
  then have ij: "\<bar>i\<bar> < 2 ^ 53" "\<bar>j\<bar> < 2 ^ 53" by (simp_all only: of_int_less_iff)
  have "a \<le> rnd64 x" "rnd64 x \<le> b"
    using rnd64_mono [OF x(1)] rnd64_mono [OF x(2)] rnd64_of_int [OF ij(1)] rnd64_of_int [OF ij(2)] that
    by simp_all
  moreover have "rnd64 x < lim64" "- lim64 < rnd64 x"
    using calculation s by (simp_all add: lim64_def)
  ultimately show ?thesis by (simp add: r64_def fit_def)
qed

lemma r64_int: "\<bar>i\<bar> < 2 ^ 53 \<Longrightarrow> r64 (of_int i) = Fin (of_int i)"
proof -
  assume i: "\<bar>i\<bar> < 2 ^ 53"
  then have "(of_int \<bar>i\<bar> :: rat) < of_int (2 ^ 53)" by (simp only: of_int_less_iff)
  then have "\<bar>of_int i :: rat\<bar> < 2 ^ 53" by simp
  from r64_in [OF refl refl order.refl order.refl this this] show ?thesis by auto
qed

lemma f_of_nat_exact: "n < 2 ^ 53 \<Longrightarrow> f_of_nat n = Fin (of_nat n)"
  using r64_int [of "int n"] by (simp add: f_of_nat_def)

end
