(* ===== verification/Proto.thy ===== *)
theory Proto
  imports Prelude F64
begin

text \<open>
  The wire types of \<open>crates/mielofon-proto/src/lib.rs\<close> and the value types of
  \<open>crates/controller/src/model.rs\<close>: links, commands, replies, quality classes and the derived
  record. The JSON spelling of the types (serde attributes) is not modelled: a value is the
  Rust value on either side.
\<close>

section \<open>Links\<close>

record link_key =
  lk_from :: string
  lk_to :: string
  lk_iface :: string

definition new_link :: "string \<Rightarrow> string \<Rightarrow> string \<Rightarrow> link_key" where
  "new_link f t i = \<lparr>lk_from = f, lk_to = t, lk_iface = i\<rparr>"

definition link_id :: "link_key \<Rightarrow> string" where
  "link_id l = lk_from l @ ''/'' @ lk_to l @ ''/'' @ lk_iface l"

text \<open>Node names carry no slash; then the id determines the link.\<close>

definition slash_free :: "link_key \<Rightarrow> bool" where
  "slash_free l \<longleftrightarrow> CHR ''/'' \<notin> set (lk_from l) \<and> CHR ''/'' \<notin> set (lk_to l)"

lemma link_id_inject:
  assumes "slash_free a" "slash_free b" "link_id a = link_id b" shows "a = b"
proof -
  have split_id: "split_once CHR ''/'' (link_id l) = Some (lk_from l, lk_to l @ ''/'' @ lk_iface l)"
    and split_to: "split_once CHR ''/'' (lk_to l @ ''/'' @ lk_iface l) = Some (lk_to l, lk_iface l)"
    if "slash_free l" for l :: link_key
    using that by (simp_all add: link_id_def slash_free_def split_once_append)
  have "Some (lk_from a, lk_to a @ ''/'' @ lk_iface a) = Some (lk_from b, lk_to b @ ''/'' @ lk_iface b)"
    using split_id [OF assms(1)] split_id [OF assms(2)] unfolding assms(3) by (rule trans [OF sym])
  then have f: "lk_from a = lk_from b"
    and r: "lk_to a @ ''/'' @ lk_iface a = lk_to b @ ''/'' @ lk_iface b"
    by (simp_all only: option.inject prod.inject)
  have "Some (lk_to a, lk_iface a) = Some (lk_to b, lk_iface b)"
    using split_to [OF assms(1)] split_to [OF assms(2)] unfolding r by (rule trans [OF sym])
  with f show ?thesis by (cases a; cases b) simp
qed

section \<open>Probe states, tiers, classes\<close>

datatype probe_state = Quiet | Busy | Conflict

datatype tier = Always | Throughput

datatype quality = Good | Acceptable | Poor | Bad

datatype regime = Clean | Sparse | Bursty | SizeSelective | UnderTest

fun regime_label :: "regime \<Rightarrow> string" where
  "regime_label Clean = ''clean''"
| "regime_label Sparse = ''sparse''"
| "regime_label Bursty = ''bursty''"
| "regime_label SizeSelective = ''size_selective''"
| "regime_label UnderTest = ''under_test''"

text \<open>The classes from best to worst, as \<open>quality_label_value\<close> of \<open>api.rs\<close> numbers them.\<close>

fun quality_label_value :: "quality \<Rightarrow> nat" where
  "quality_label_value Good = 0"
| "quality_label_value Acceptable = 1"
| "quality_label_value Poor = 2"
| "quality_label_value Bad = 3"

lemma quality_label_value_inject: "quality_label_value a = quality_label_value b \<Longrightarrow> a = b"
  by (cases a; cases b) auto

instantiation quality :: linorder
begin

definition less_eq_quality :: "quality \<Rightarrow> quality \<Rightarrow> bool" where
  "a \<le> b \<longleftrightarrow> quality_label_value a \<le> quality_label_value b"

definition less_quality :: "quality \<Rightarrow> quality \<Rightarrow> bool" where
  "a < b \<longleftrightarrow> quality_label_value a < quality_label_value b"

instance
  by intro_classes
    (auto simp: less_eq_quality_def less_quality_def intro: quality_label_value_inject)

end

lemma regime_label_inject: "regime_label a = regime_label b \<Longrightarrow> a = b"
  by (cases a; cases b) auto

section \<open>Commands and replies\<close>

datatype work_cmd =
    Probe (cmd_id: string) tier "string option" link_key "string option"
  | ApplyCost (cmd_id: string) link_key nat "string option"
  | Trace (cmd_id: string) string "string option"

record register_req =
  rq_agent :: string
  rq_router_id :: "string option"
  rq_links :: "link_key list"
  rq_peer_rids :: "(string, string) hmap"
  rq_loopback :: "string option"

record register_resp =
  rs_ok :: bool
  rs_error :: "string option"

record mark_block =
  mb_n :: nat
  mb_secs :: nat
  mb_tx_pkts_s :: nat
  mb_tx_pkts_l :: nat
  mb_tx_bytes :: nat
  mb_rx_pkts_s :: nat
  mb_rx_pkts_l :: nat
  mb_rx_bytes :: nat
  mb_reset :: bool
  mb_under_test :: bool

text \<open>\<open>MarkBlock::default()\<close>.\<close>

definition mark_block_default :: mark_block where
  "mark_block_default = \<lparr>mb_n = 0, mb_secs = 0, mb_tx_pkts_s = 0, mb_tx_pkts_l = 0, mb_tx_bytes = 0,
     mb_rx_pkts_s = 0, mb_rx_pkts_l = 0, mb_rx_bytes = 0, mb_reset = False, mb_under_test = False\<rparr>"

datatype next_hop =
    Via "string option" "string option" "nat option" "string option"
  | Dev "string option" "nat option" "string option"

record route_rep =
  rt_prefix :: string
  rt_primary :: "string option"
  rt_proto :: "string option"
  rt_preference :: "nat option"
  rt_cost :: "nat option"
  rt_local_pref :: "nat option"
  rt_as_path :: "nat list option"
  rt_next_hops :: "next_hop list"

record probe_reply =
  pr_agent :: string
  pr_id :: string
  pr_link :: link_key
  pr_ts :: "nat option"
  pr_rtt_ms :: "f64 option"
  pr_loss_pct :: "f64 option"
  pr_jitter_ms :: "f64 option"
  pr_tcp_mbps :: "f64 option"
  pr_udp_mbps :: "f64 option"
  pr_udp_jitter_ms :: "f64 option"
  pr_udp_loss_pct :: "f64 option"
  pr_util_mbps :: f64
  pr_state :: probe_state
  pr_token :: "string option"
  pr_note :: "string option"
  pr_traceparent :: "string option"
  pr_blocks :: "mark_block list"

datatype agent_reply =
    RProbe probe_reply
  | RApplied string string link_key nat "string option" "string option"
  | RTrace string string "string option" string int "route_rep list"

section \<open>Records of the replicated store\<close>

record quality_record =
  qr_ts :: nat
  qr_rtt_ms :: "f64 option"
  qr_loss_pct :: "f64 option"
  qr_jitter_ms :: "f64 option"
  qr_tcp_mbps :: "f64 option"
  qr_udp_mbps :: "f64 option"
  qr_udp_jitter_ms :: "f64 option"
  qr_udp_loss_pct :: "f64 option"
  qr_util_mbps :: f64
  qr_state :: probe_state
  qr_quality :: "quality option"
  qr_ospf_cost :: "nat option"
  qr_mark_loss_pct :: "f64 option"
  qr_mark_rate_mbps :: "f64 option"
  qr_implied_tcp_mbps :: "f64 option"
  qr_regime :: "regime option"

definition new_quality_record ::
  "nat \<Rightarrow> f64 option \<Rightarrow> f64 option \<Rightarrow> f64 option \<Rightarrow> f64 option \<Rightarrow> f64 option \<Rightarrow> f64 \<Rightarrow> probe_state
    \<Rightarrow> quality_record" where
  "new_quality_record now rtt loss jitter tcp udp util st =
     \<lparr>qr_ts = now, qr_rtt_ms = rtt, qr_loss_pct = loss, qr_jitter_ms = jitter, qr_tcp_mbps = tcp,
      qr_udp_mbps = udp, qr_udp_jitter_ms = None, qr_udp_loss_pct = None, qr_util_mbps = util,
      qr_state = st, qr_quality = None, qr_ospf_cost = None, qr_mark_loss_pct = None,
      qr_mark_rate_mbps = None, qr_implied_tcp_mbps = None, qr_regime = None\<rparr>"

record node_entry =
  ne_name :: string
  ne_ts :: nat
  ne_links :: "link_key list"

end
