(* ===== verification/Config.thy ===== *)
theory Config
  imports Proto
begin

text \<open>
  The controller's configuration (\<open>crates/controller/src/config.rs\<close>): the quality classes, the
  classifier's and scheduler's knobs, the retention of the time series, the members and hubs,
  with the defaults of the code. Addresses, TLS paths, logging and the TOML parser are not
  modelled: no decision of the controller depends on them.
\<close>

section \<open>Quality classes\<close>

record quality_class =
  qc_rtt_ms :: "f64 option"
  qc_loss_pct :: "f64 option"
  qc_jitter_ms :: "f64 option"
  qc_tcp_mbps :: "f64 option"
  qc_udp_mbps :: "f64 option"
  qc_udp_loss_pct :: "f64 option"
  qc_udp_jitter_ms :: "f64 option"
  qc_ospf_cost :: nat

definition quality_class_default :: quality_class where
  "quality_class_default = \<lparr>qc_rtt_ms = None, qc_loss_pct = None, qc_jitter_ms = None,
     qc_tcp_mbps = None, qc_udp_mbps = None, qc_udp_loss_pct = None, qc_udp_jitter_ms = None,
     qc_ospf_cost = 0\<rparr>"

definition class_with :: "f64 \<Rightarrow> f64 \<Rightarrow> f64 \<Rightarrow> f64 \<Rightarrow> nat \<Rightarrow> quality_class" where
  "class_with rtt loss jitter tcp cost = quality_class_default
     \<lparr>qc_rtt_ms := Some rtt, qc_loss_pct := Some loss, qc_jitter_ms := Some jitter,
      qc_tcp_mbps := Some tcp, qc_ospf_cost := cost\<rparr>"

record quality_cfg =
  qf_good :: quality_class
  qf_acceptable :: quality_class
  qf_poor :: quality_class
  qf_bad :: quality_class

definition quality_cfg_default :: quality_cfg where
  "quality_cfg_default = \<lparr>
     qf_good = class_with (Fin 40) (Fin 1) (Fin 5) (Fin 10) 10,
     qf_acceptable = class_with (Fin 90) (Fin (5 / 2)) (Fin 15) (Fin 5) 20,
     qf_poor = class_with (Fin 250) (Fin 5) (Fin 40) (Fin 2) 50,
     qf_bad = class_with (Fin 500) (Fin 10) (Fin 100) (Fin 1) 100\<rparr>"

section \<open>Cluster, classifier, scheduler, time series\<close>

record cluster_cfg =
  cl_hubs :: "string list"
  cl_grace_ttl_secs :: nat
  cl_gossip_interval_secs :: nat

definition cluster_cfg_default :: cluster_cfg where
  "cluster_cfg_default = \<lparr>cl_hubs = [], cl_grace_ttl_secs = 300, cl_gossip_interval_secs = 5\<rparr>"

datatype loss_model = Mathis | Mbm

datatype pair_cost = Directional | Symmetric | Off

record classifier_cfg =
  cc_interval_secs :: nat
  cc_always_fresh_secs :: nat
  cc_tcp_fresh_secs :: nat
  cc_tcp_carry_secs :: nat
  cc_busy_hold_secs :: nat
  cc_hysteresis_passes :: nat
  cc_pair_cost :: pair_cost
  cc_hub_spoke_cost_offset :: nat
  cc_mark_window_secs :: nat
  cc_mark_recover_secs :: nat
  cc_mark_min_pkts :: nat
  cc_loss_model :: loss_model
  cc_mss_bytes :: nat

definition classifier_cfg_default :: classifier_cfg where
  "classifier_cfg_default = \<lparr>cc_interval_secs = 5, cc_always_fresh_secs = 60,
     cc_tcp_fresh_secs = 1200, cc_tcp_carry_secs = 3600, cc_busy_hold_secs = 120,
     cc_hysteresis_passes = 3, cc_pair_cost = Directional, cc_hub_spoke_cost_offset = 1000,
     cc_mark_window_secs = 300, cc_mark_recover_secs = 3600, cc_mark_min_pkts = 2000,
     cc_loss_model = Mathis, cc_mss_bytes = 1348\<rparr>"

record scheduler_cfg =
  sc_always_interval_secs :: nat
  sc_throughput_interval_secs :: nat

definition scheduler_cfg_default :: scheduler_cfg where
  "scheduler_cfg_default = \<lparr>sc_always_interval_secs = 15, sc_throughput_interval_secs = 1800\<rparr>"

record ts_cfg =
  ts_path :: string
  ts_raw_retention_secs :: nat
  ts_agg_retention_secs :: nat

definition ts_cfg_default :: ts_cfg where
  "ts_cfg_default =
     \<lparr>ts_path = [], ts_raw_retention_secs = 7200, ts_agg_retention_secs = 86400\<rparr>"

section \<open>The configuration\<close>

text \<open>\<open>cf_members\<close> keeps the keys of the ordered member map, in its order.\<close>

record config =
  cf_node :: string
  cf_members :: "string list"
  cf_cluster :: cluster_cfg
  cf_quality :: quality_cfg
  cf_classifier :: classifier_cfg
  cf_scheduler :: scheduler_cfg
  cf_ts :: ts_cfg

definition config_default :: config where
  "config_default = \<lparr>cf_node = ''hub-a'', cf_members = [], cf_cluster = cluster_cfg_default,
     cf_quality = quality_cfg_default, cf_classifier = classifier_cfg_default,
     cf_scheduler = scheduler_cfg_default, cf_ts = ts_cfg_default\<rparr>"

definition is_hub :: "config \<Rightarrow> string \<Rightarrow> bool" where
  "is_hub cfg name = (if cl_hubs (cf_cluster cfg) = [] then name \<in> set (cf_members cfg)
     else name \<in> set (cl_hubs (cf_cluster cfg)))"

end
