(* ===== verification/Quality.thy ===== *)
theory Quality
  imports Config
begin

text \<open>
  Quality classification (\<open>crates/controller/src/quality.rs\<close>) and the classifier's view of a
  window (\<open>WindowView\<close> of \<open>store.rs\<close>).

  The lemmas characterise a classification by its crossings: the class is the worst class
  demanded by any measured dimension, an unmeasured dimension or an unset threshold demands
  nothing, and a worse measurement never gives a better class.
\<close>

section \<open>The window view\<close>

record window_view =
  wv_ts :: nat
  wv_state :: probe_state
  wv_rtt_ms :: "f64 option"
  wv_loss_pct :: "f64 option"
  wv_jitter_ms :: "f64 option"
  wv_tcp_mbps :: "f64 option"
  wv_udp_mbps :: "f64 option"
  wv_udp_jitter_ms :: "f64 option"
  wv_udp_loss_pct :: "f64 option"
  wv_util_mbps :: f64
  wv_tcp_carried :: bool
  wv_mark_loss_pct :: "f64 option"
  wv_mark_loss_s_pct :: "f64 option"
  wv_mark_loss_l_pct :: "f64 option"
  wv_mark_rate_mbps :: "f64 option"
  wv_regime :: "regime option"
  wv_implied_tcp_mbps :: "f64 option"

definition window_view_default :: window_view where
  "window_view_default = \<lparr>wv_ts = 0, wv_state = Quiet, wv_rtt_ms = None, wv_loss_pct = None,
     wv_jitter_ms = None, wv_tcp_mbps = None, wv_udp_mbps = None, wv_udp_jitter_ms = None,
     wv_udp_loss_pct = None, wv_util_mbps = Fin 0, wv_tcp_carried = False,
     wv_mark_loss_pct = None, wv_mark_loss_s_pct = None, wv_mark_loss_l_pct = None,
     wv_mark_rate_mbps = None, wv_regime = None, wv_implied_tcp_mbps = None\<rparr>"

definition measured :: "window_view \<Rightarrow> bool" where
  "measured v \<longleftrightarrow> wv_rtt_ms v \<noteq> None \<or> wv_loss_pct v \<noteq> None \<or> wv_jitter_ms v \<noteq> None"

section \<open>Scores\<close>

fun cost_for_quality :: "quality_cfg \<Rightarrow> quality \<Rightarrow> nat" where
  "cost_for_quality cfg Good = qc_ospf_cost (qf_good cfg)"
| "cost_for_quality cfg Acceptable = qc_ospf_cost (qf_acceptable cfg)"
| "cost_for_quality cfg Poor = qc_ospf_cost (qf_poor cfg)"
| "cost_for_quality cfg Bad = qc_ospf_cost (qf_bad cfg)"

text \<open>The loop over the class thresholds, from index \<open>i\<close> with the score so far.\<close>

fun score_from :: "(f64 \<Rightarrow> bool) \<Rightarrow> nat \<Rightarrow> nat \<Rightarrow> f64 option list \<Rightarrow> nat" where
  "score_from crossed i score [] = score"
| "score_from crossed i score (t # ts) =
     score_from crossed (Suc i) (if opt_any crossed t then max score (i + 1) else score) ts"

definition score_upper :: "f64 \<Rightarrow> f64 option list \<Rightarrow> nat" where
  "score_upper metric thresholds = min (score_from (\<lambda>t. f_lt t metric) 0 0 thresholds) 3"

definition score_lower :: "f64 \<Rightarrow> f64 option list \<Rightarrow> nat" where
  "score_lower metric thresholds = min (score_from (\<lambda>t. f_lt metric t) 0 0 thresholds) 3"

definition class_of_score :: "nat \<Rightarrow> quality" where
  "class_of_score m = (if m = 0 then Good else if m = 1 then Acceptable else if m = 2 then Poor else Bad)"

fun flatten_opts :: "'a option list \<Rightarrow> 'a list" where
  "flatten_opts [] = []"
| "flatten_opts (None # xs) = flatten_opts xs"
| "flatten_opts (Some x # xs) = x # flatten_opts xs"

definition worst :: "nat option list \<Rightarrow> quality" where
  "worst scores = class_of_score (foldr max (flatten_opts scores) 0)"

definition classes :: "quality_cfg \<Rightarrow> quality_class list" where
  "classes cfg = [qf_good cfg, qf_acceptable cfg, qf_poor cfg, qf_bad cfg]"

definition dim_scores :: "quality_cfg \<Rightarrow> window_view \<Rightarrow> nat option list" where
  "dim_scores cfg v =
    [map_option (\<lambda>m. score_upper m (map qc_rtt_ms (classes cfg))) (wv_rtt_ms v),
     map_option (\<lambda>m. score_upper m (map qc_loss_pct (classes cfg))) (wv_loss_pct v),
     map_option (\<lambda>m. score_upper m (map qc_jitter_ms (classes cfg))) (wv_jitter_ms v),
     map_option (\<lambda>m. score_lower m (map qc_tcp_mbps (classes cfg))) (wv_tcp_mbps v),
     map_option (\<lambda>m. score_lower m (map qc_udp_mbps (classes cfg))) (wv_udp_mbps v),
     map_option (\<lambda>m. score_upper m (map qc_udp_loss_pct (classes cfg))) (wv_udp_loss_pct v),
     map_option (\<lambda>m. score_upper m (map qc_udp_jitter_ms (classes cfg))) (wv_udp_jitter_ms v),
     map_option (\<lambda>m. score_lower m (map qc_tcp_mbps (classes cfg))) (wv_implied_tcp_mbps v)]"

definition classify_window :: "quality_cfg \<Rightarrow> window_view \<Rightarrow> quality" where
  "classify_window cfg v = worst (dim_scores cfg v)"

section \<open>The reference: crossings of a class's bounds\<close>

text \<open>A link crosses a class when some measured dimension is outside the bound the class pins.\<close>

definition exceeds :: "f64 option \<Rightarrow> f64 option \<Rightarrow> bool" where
  "exceeds m t \<longleftrightarrow> opt_any (\<lambda>m. opt_any (\<lambda>t. f_lt t m) t) m"

definition falls_short :: "f64 option \<Rightarrow> f64 option \<Rightarrow> bool" where
  "falls_short m t \<longleftrightarrow> opt_any (\<lambda>m. opt_any (\<lambda>t. f_lt m t) t) m"

definition crosses :: "quality_class \<Rightarrow> window_view \<Rightarrow> bool" where
  "crosses c v \<longleftrightarrow> exceeds (wv_rtt_ms v) (qc_rtt_ms c) \<or> exceeds (wv_loss_pct v) (qc_loss_pct c)
     \<or> exceeds (wv_jitter_ms v) (qc_jitter_ms c) \<or> falls_short (wv_tcp_mbps v) (qc_tcp_mbps c)
     \<or> falls_short (wv_udp_mbps v) (qc_udp_mbps c) \<or> exceeds (wv_udp_loss_pct v) (qc_udp_loss_pct c)
     \<or> exceeds (wv_udp_jitter_ms v) (qc_udp_jitter_ms c)
     \<or> falls_short (wv_implied_tcp_mbps v) (qc_tcp_mbps c)"

definition class_by_crossing :: "quality_cfg \<Rightarrow> window_view \<Rightarrow> quality" where
  "class_by_crossing cfg v =
     (if crosses (qf_poor cfg) v \<or> crosses (qf_bad cfg) v then Bad
      else if crosses (qf_acceptable cfg) v then Poor
      else if crosses (qf_good cfg) v then Acceptable else Good)"

lemma over_under_simps [simp]:
  "\<not> exceeds None t" "\<not> exceeds m None" "exceeds (Some x) (Some y) = f_lt y x"
  "\<not> falls_short None t" "\<not> falls_short m None" "falls_short (Some x) (Some y) = f_lt x y"
  by (auto simp: exceeds_def falls_short_def opt_any_def split: option.splits)

lemma score_from_four:
  "min (score_from P 0 0 [g, a, p, b]) 3 =
     (if opt_any P p \<or> opt_any P b then 3 else if opt_any P a then 2
      else if opt_any P g then 1 else 0)"
  by simp

text \<open>The class demanded by one dimension, and the worst of a list of demands.\<close>

definition demand :: "bool \<Rightarrow> bool \<Rightarrow> bool \<Rightarrow> bool \<Rightarrow> nat" where
  "demand g a p b = (if p \<or> b then 3 else if a then 2 else if g then 1 else 0)"

lemma demand_max:
  "max (demand g a p b) (demand g' a' p' b') = demand (g \<or> g') (a \<or> a') (p \<or> p') (b \<or> b')"
  by (simp add: demand_def)

lemma demand_max_0 [simp]: "max (demand g a p b) 0 = demand g a p b"
  by simp

lemma class_of_demand:
  "class_of_score (demand g a p b)
    = (if p \<or> b then Bad else if a then Poor else if g then Acceptable else Good)"
  by (simp add: demand_def class_of_score_def)

lemma score_upper_demand:
  "score_upper m [g, a, p, b] = demand (exceeds (Some m) g) (exceeds (Some m) a) (exceeds (Some m) p) (exceeds (Some m) b)"
  by (simp add: score_upper_def score_from_four demand_def exceeds_def del: score_from.simps)

lemma score_lower_demand:
  "score_lower m [g, a, p, b] = demand (falls_short (Some m) g) (falls_short (Some m) a) (falls_short (Some m) p) (falls_short (Some m) b)"
  by (simp add: score_lower_def score_from_four demand_def falls_short_def del: score_from.simps)

definition opt_score :: "nat option \<Rightarrow> nat" where
  "opt_score s = (case s of None \<Rightarrow> 0 | Some x \<Rightarrow> x)"

lemma foldr_flatten_opts: "foldr max (flatten_opts xs) 0 = foldr max (map opt_score xs) (0::nat)"
  by (induction xs rule: flatten_opts.induct) (auto simp: opt_score_def)

lemma opt_score_upper:
  "opt_score (map_option (\<lambda>m. score_upper m [g, a, p, b]) x) = demand (exceeds x g) (exceeds x a) (exceeds x p) (exceeds x b)"
  by (cases x) (simp_all add: opt_score_def score_upper_demand, simp add: demand_def)

lemma opt_score_lower:
  "opt_score (map_option (\<lambda>m. score_lower m [g, a, p, b]) x)
    = demand (falls_short x g) (falls_short x a) (falls_short x p) (falls_short x b)"
  by (cases x) (simp_all add: opt_score_def score_lower_demand, simp add: demand_def)

lemma scores_demand:
  "foldr max (flatten_opts (dim_scores cfg v)) 0
    = demand (crosses (qf_good cfg) v) (crosses (qf_acceptable cfg) v)
        (crosses (qf_poor cfg) v) (crosses (qf_bad cfg) v)"
  by (simp add: foldr_flatten_opts dim_scores_def classes_def opt_score_upper opt_score_lower
      demand_max crosses_def del: max.bounded_iff)

lemma classify_eq_crossing: "classify_window cfg v = class_by_crossing cfg v"
  by (simp add: classify_window_def worst_def scores_demand class_of_demand class_by_crossing_def)

section \<open>Worse measurements\<close>

definition worse_over :: "f64 option \<Rightarrow> f64 option \<Rightarrow> bool" where
  "worse_over a b \<longleftrightarrow> opt_all (\<lambda>x. opt_any (\<lambda>y. f_le x y) b) a"

definition worse_under :: "f64 option \<Rightarrow> f64 option \<Rightarrow> bool" where
  "worse_under a b \<longleftrightarrow> opt_all (\<lambda>x. opt_any (\<lambda>y. f_le y x) b) a"

text \<open>\<open>w\<close> measured everything \<open>v\<close> did, each dimension at least as bad.\<close>

definition at_least_as_bad :: "window_view \<Rightarrow> window_view \<Rightarrow> bool" where
  "at_least_as_bad v w \<longleftrightarrow> worse_over (wv_rtt_ms v) (wv_rtt_ms w)
     \<and> worse_over (wv_loss_pct v) (wv_loss_pct w) \<and> worse_over (wv_jitter_ms v) (wv_jitter_ms w)
     \<and> worse_under (wv_tcp_mbps v) (wv_tcp_mbps w) \<and> worse_under (wv_udp_mbps v) (wv_udp_mbps w)
     \<and> worse_over (wv_udp_loss_pct v) (wv_udp_loss_pct w)
     \<and> worse_over (wv_udp_jitter_ms v) (wv_udp_jitter_ms w)
     \<and> worse_under (wv_implied_tcp_mbps v) (wv_implied_tcp_mbps w)"

lemma f_lt_le_trans: "f_lt t x \<Longrightarrow> f_le x y \<Longrightarrow> f_lt t y"
  by (cases t; cases x; cases y) (auto simp: f_le_def)

lemma f_le_lt_trans: "f_le y x \<Longrightarrow> f_lt x t \<Longrightarrow> f_lt y t"
  by (cases t; cases x; cases y) (auto simp: f_le_def)

lemma worse_over_over: "worse_over a b \<Longrightarrow> exceeds a t \<Longrightarrow> exceeds b t"
  by (cases a; cases b; cases t) (auto simp: worse_over_def intro: f_lt_le_trans)

lemma worse_under_under: "worse_under a b \<Longrightarrow> falls_short a t \<Longrightarrow> falls_short b t"
  by (cases a; cases b; cases t) (auto simp: worse_under_def intro: f_le_lt_trans)

lemma at_least_as_bad_crosses: "at_least_as_bad v w \<Longrightarrow> crosses c v \<Longrightarrow> crosses c w"
  unfolding at_least_as_bad_def crosses_def by (meson worse_over_over worse_under_under)

lemma class_by_crossing_mono:
  "(\<And>c. crosses c v \<Longrightarrow> crosses c w) \<Longrightarrow> class_by_crossing cfg v \<le> class_by_crossing cfg w"
  by (auto simp: class_by_crossing_def less_eq_quality_def)

section \<open>The bounds of the bad class\<close>

text \<open>Every bound \<open>b\<close> pins is pinned by \<open>p\<close> too, at least as strictly.\<close>

definition f_ge :: "f64 \<Rightarrow> f64 \<Rightarrow> bool" where
  "f_ge x y \<longleftrightarrow> f_le y x"

definition opt_bound :: "(f64 \<Rightarrow> f64 \<Rightarrow> bool) \<Rightarrow> f64 option \<Rightarrow> f64 option \<Rightarrow> bool" where
  "opt_bound R p b \<longleftrightarrow> opt_all (\<lambda>y. opt_any (\<lambda>x. R x y) p) b"

definition bounds_nested :: "quality_class \<Rightarrow> quality_class \<Rightarrow> bool" where
  "bounds_nested p b \<longleftrightarrow> opt_bound f_le (qc_rtt_ms p) (qc_rtt_ms b)
     \<and> opt_bound f_le (qc_loss_pct p) (qc_loss_pct b)
     \<and> opt_bound f_le (qc_jitter_ms p) (qc_jitter_ms b)
     \<and> opt_bound f_ge (qc_tcp_mbps p) (qc_tcp_mbps b)
     \<and> opt_bound f_ge (qc_udp_mbps p) (qc_udp_mbps b)
     \<and> opt_bound f_le (qc_udp_loss_pct p) (qc_udp_loss_pct b)
     \<and> opt_bound f_le (qc_udp_jitter_ms p) (qc_udp_jitter_ms b)"

lemma f_le_f_lt_trans: "f_le x y \<Longrightarrow> f_lt y m \<Longrightarrow> f_lt x m"
  by (cases x; cases y; cases m) (auto simp: f_le_def)

lemma opt_bound_over: "opt_bound f_le p b \<Longrightarrow> exceeds m b \<Longrightarrow> exceeds m p"
  by (cases p; cases b; cases m) (auto simp: opt_bound_def intro: f_le_f_lt_trans)

lemma opt_bound_under: "opt_bound f_ge p b \<Longrightarrow> falls_short m b \<Longrightarrow> falls_short m p"
  by (cases p; cases b; cases m) (auto simp: opt_bound_def f_ge_def intro: f_lt_le_trans)

lemma bounds_nested_crosses: "bounds_nested p b \<Longrightarrow> crosses b v \<Longrightarrow> crosses p v"
  unfolding bounds_nested_def crosses_def by (meson opt_bound_over opt_bound_under)

lemma crosses_default [simp]: "\<not> crosses quality_class_default v"
  by (simp add: crosses_def quality_class_default_def)

section \<open>Properties\<close>

text \<open>C1: \<open>classify_window\<close> implements "worst crossed class wins": the link is bad exactly when
  a measured dimension crosses a bound of the poor or the bad class, else poor when one
  crosses the acceptable class, else acceptable when one crosses the good class, else good.
  NaN and unmeasured dimensions and unset bounds never constrain.\<close>

theorem classify_window_reference: "classify_window cfg v = class_by_crossing cfg v"
  by (rule classify_eq_crossing)

text \<open>C33: a worse window is never classified better: if every dimension measured in \<open>v\<close> is
  measured in \<open>w\<close> and is at least as bad there, the class of \<open>w\<close> is at least as bad.\<close>

theorem classify_window_monotone:
  assumes "at_least_as_bad v w" shows "classify_window cfg v \<le> classify_window cfg w"
  unfolding classify_eq_crossing
  by (rule class_by_crossing_mono) (rule at_least_as_bad_crosses [OF assms])

theorem classify_window_monotone_witness:
  "classify_window quality_cfg_default (window_view_default\<lparr>wv_rtt_ms := Some (Fin 15)\<rparr>)
    \<le> classify_window quality_cfg_default
        (window_view_default\<lparr>wv_rtt_ms := Some (Fin 400), wv_loss_pct := Some (Fin 1)\<rparr>)"
  by (rule classify_window_monotone)
    (simp add: at_least_as_bad_def worse_over_def worse_under_def window_view_default_def)

text \<open>The bounds of the bad class never decide a classification when every bound they pin
  is pinned by the poor class as well, at least as strictly (as in the default
  configuration): the class is the one computed with no bad bounds at all.\<close>

theorem bad_bounds_redundant:
  assumes "bounds_nested (qf_poor cfg) (qf_bad cfg)"
  shows "classify_window cfg v = classify_window (cfg\<lparr>qf_bad := quality_class_default\<rparr>) v"
  using bounds_nested_crosses [OF assms, of v]
  by (auto simp: classify_eq_crossing class_by_crossing_def)

theorem bad_bounds_redundant_witness:
  "classify_window quality_cfg_default (window_view_default\<lparr>wv_rtt_ms := Some (Fin 600)\<rparr>)
    = classify_window (quality_cfg_default\<lparr>qf_bad := quality_class_default\<rparr>)
        (window_view_default\<lparr>wv_rtt_ms := Some (Fin 600)\<rparr>)"
  by (rule bad_bounds_redundant)
    (simp add: bounds_nested_def opt_bound_def f_ge_def quality_cfg_default_def class_with_def
      quality_class_default_def)

text \<open>Without that nesting the bad bounds do decide: with a good bound of 123 ms, a bad bound
  of 321 ms and no poor bound, a link at 400 ms is bad, and acceptable once the bad bound is
  removed.\<close>

theorem bad_bound_decides:
  "let cfg = \<lparr>qf_good = quality_class_default\<lparr>qc_rtt_ms := Some (Fin 123)\<rparr>,
              qf_acceptable = quality_class_default, qf_poor = quality_class_default,
              qf_bad = quality_class_default\<lparr>qc_rtt_ms := Some (Fin 321)\<rparr>\<rparr>;
       v = window_view_default\<lparr>wv_rtt_ms := Some (Fin 400)\<rparr>
   in classify_window cfg v = Bad
      \<and> classify_window (cfg\<lparr>qf_bad := quality_class_default\<rparr>) v = Acceptable"
  by (simp add: classify_eq_crossing class_by_crossing_def crosses_def quality_class_default_def
      window_view_default_def)

end
