(* ===== verification/Kv.thy ===== *)
theory Kv
  imports Proto
begin

text \<open>
  The replicated last-write-wins store (\<open>crates/controller/src/kv.rs\<close>): the derived record of
  every link and the node directory. The operations are one critical section each (the code
  takes the lock once per operation), so each is a function on the store.

  The locale \<open>lww\<close> is the contract the two maps share: an incoming value replaces the stored
  one when its version is newer and never when it is older; ties may go either way. The
  merge lemmas (newest version wins, merging a full view in both directions leaves two
  replicas equal, order and repetition of merges do not matter when versions are unique) are
  proved once from it and interpreted for both maps.
\<close>

section \<open>Generic last-write-wins merge\<close>

text \<open>\<open>acc v p\<close> decides whether \<open>v\<close> replaces the stored \<open>p\<close>.\<close>

definition lww_put :: "('v \<Rightarrow> 'v \<Rightarrow> bool) \<Rightarrow> 'k \<Rightarrow> 'v \<Rightarrow> ('k, 'v) hmap \<Rightarrow> ('k, 'v) hmap" where
  "lww_put acc k v m = (if opt_all (acc v) (hm_get m k) then hm_insert k v m else m)"

definition lww_merge :: "('v \<Rightarrow> 'v \<Rightarrow> bool) \<Rightarrow> ('k \<times> 'v) list \<Rightarrow> ('k, 'v) hmap \<Rightarrow> ('k, 'v) hmap" where
  "lww_merge acc rs m = fold (\<lambda>(k, v). lww_put acc k v) rs m"

lemma lww_merge_simps [simp]:
  "lww_merge acc [] m = m"
  "lww_merge acc ((k, v) # rs) m = lww_merge acc rs (lww_put acc k v m)"
  by (simp_all add: lww_merge_def)

lemma hm_get_lww_put:
  "hm_get (lww_put acc k v m) k' = (if k' = k \<and> opt_all (acc v) (hm_get m k) then Some v
     else hm_get m k')"
  by (simp add: lww_put_def)

lemma hm_ok_lww_put [simp, model_inv]: "hm_ok m \<Longrightarrow> hm_ok (lww_put acc k v m)"
  by (simp add: lww_put_def)

lemma hm_ok_lww_merge [simp, model_inv]: "hm_ok m \<Longrightarrow> hm_ok (lww_merge acc rs m)"
  by (induction rs arbitrary: m) auto

text \<open>One key sees only the records of that key: the merge of a map is a merge of registers.\<close>

fun reg_merge :: "('v \<Rightarrow> 'v \<Rightarrow> bool) \<Rightarrow> 'v list \<Rightarrow> 'v option \<Rightarrow> 'v option" where
  "reg_merge acc [] p = p"
| "reg_merge acc (v # vs) p = reg_merge acc vs (if opt_all (acc v) p then Some v else p)"

definition vals_of :: "'k \<Rightarrow> ('k \<times> 'v) list \<Rightarrow> 'v list" where
  "vals_of k rs = map snd (filter (\<lambda>r. fst r = k) rs)"

lemma hm_get_lww_merge: "hm_get (lww_merge acc rs m) k = reg_merge acc (vals_of k rs) (hm_get m k)"
  by (induction rs arbitrary: m) (auto simp: vals_of_def hm_get_lww_put)

lemma vals_of_map: "hm_ok m \<Longrightarrow> vals_of k m = (case hm_get m k of None \<Rightarrow> [] | Some v \<Rightarrow> [v])"
  by (induction m)
    (auto simp: vals_of_def hm_ok_def filter_empty_conv map_of_eq_None_iff image_iff
      split: option.splits)

lemma set_vals_of: "set (vals_of k rs) = {v. (k, v) \<in> set rs}"
  by (force simp: vals_of_def)

text \<open>A stored key stays: merging never removes.\<close>

lemma reg_merge_None: "reg_merge acc vs p = None \<longleftrightarrow> vs = [] \<and> p = None"
  by (induction vs arbitrary: p) (auto simp: opt_all_def split: if_splits option.splits)

lemma reg_merge_in: "reg_merge acc vs p = Some v \<Longrightarrow> v \<in> set vs \<or> p = Some v"
  by (induction vs arbitrary: p) (auto split: if_splits)

section \<open>The contract\<close>

locale lww =
  fixes ver :: "'v \<Rightarrow> nat" and acc :: "'v \<Rightarrow> 'v \<Rightarrow> bool"
  assumes acc_newer: "ver p < ver v \<Longrightarrow> acc v p"
    and acc_older: "ver v < ver p \<Longrightarrow> \<not> acc v p"
    and acc_tie: "\<not> acc v p \<Longrightarrow> \<not> acc p v \<Longrightarrow> v = p"
begin

lemma reg_merge_max:
  "reg_merge acc vs p = Some v \<Longrightarrow> w \<in> set vs \<or> p = Some w \<Longrightarrow> ver w \<le> ver v"
proof (induction vs arbitrary: p w)
  case Nil
  then show ?case by simp
next
  case (Cons x vs)
  let ?q = "if opt_all (acc x) p then Some x else p"
  have r: "reg_merge acc vs ?q = Some v" using Cons.prems(1) by simp
  obtain u where u: "?q = Some u" "ver x \<le> ver u" "\<forall>w. p = Some w \<longrightarrow> ver w \<le> ver u"
  proof (cases p)
    case (Some a)
    have "acc x a \<Longrightarrow> ver a \<le> ver x" "\<not> acc x a \<Longrightarrow> ver x \<le> ver a"
      using acc_newer [of a x] acc_older [of x a] by (auto simp: not_less [symmetric])
    with Some that show ?thesis by (cases "acc x a") auto
  qed (use that in auto)
  have "ver u \<le> ver v" using Cons.IH [OF r, of u] u(1) by simp
  moreover have "ver w \<le> ver v" if "w \<in> set vs" using Cons.IH [OF r, of w] that by simp
  ultimately show ?case using Cons.prems(2) u by auto
qed

text \<open>With unique versions the result is the newest candidate, so it depends on the set of
  candidates only.\<close>

lemma reg_merge_unique:
  assumes c: "set vs \<union> set_option p = set ws \<union> set_option q"
    and u: "\<And>a b. a \<in> set vs \<union> set_option p \<Longrightarrow> b \<in> set vs \<union> set_option p \<Longrightarrow> ver a = ver b \<Longrightarrow> a = b"
  shows "reg_merge acc vs p = reg_merge acc ws q"
proof (cases "reg_merge acc vs p")
  case None
  then have "vs = [] \<and> p = None" by (simp add: reg_merge_None)
  with c show ?thesis by (cases q) auto
next
  case (Some v)
  have v: "v \<in> set vs \<union> set_option p" using reg_merge_in [OF Some] by auto
  obtain w where w: "reg_merge acc ws q = Some w"
    using v c by (cases "reg_merge acc ws q") (auto simp: reg_merge_None)
  have "w \<in> set ws \<union> set_option q" using reg_merge_in [OF w] by auto
  with c have w': "w \<in> set vs \<union> set_option p" by simp
  have "ver w \<le> ver v" by (rule reg_merge_max [OF Some]) (use w' in auto)
  moreover have "ver v \<le> ver w" by (rule reg_merge_max [OF w]) (use v c in auto)
  ultimately have "v = w" using u [OF v w'] by simp
  with Some w show ?thesis by simp
qed

lemma merge_order_irrelevant:
  assumes "\<And>v. (k, v) \<in> set rs \<or> hm_get m k = Some v \<longleftrightarrow> (k, v) \<in> set rs' \<or> hm_get m' k = Some v"
    and "\<And>a b. ((k, a) \<in> set rs \<or> hm_get m k = Some a) \<Longrightarrow> ((k, b) \<in> set rs \<or> hm_get m k = Some b)
      \<Longrightarrow> ver a = ver b \<Longrightarrow> a = b"
  shows "hm_get (lww_merge acc rs m) k = hm_get (lww_merge acc rs' m') k"
  unfolding hm_get_lww_merge
proof (rule reg_merge_unique)
  show "set (vals_of k rs) \<union> set_option (hm_get m k) = set (vals_of k rs') \<union> set_option (hm_get m' k)"
    using assms(1) by (auto simp: set_vals_of)
  show "a = b" if "a \<in> set (vals_of k rs) \<union> set_option (hm_get m k)"
    "b \<in> set (vals_of k rs) \<union> set_option (hm_get m k)" "ver a = ver b" for a b
    using that assms(2) [of a b] by (auto simp: set_vals_of)
qed

text \<open>A stored version never goes back.\<close>

lemma merge_version_mono:
  "hm_get m k = Some p \<Longrightarrow> \<exists>v. hm_get (lww_merge acc rs m) k = Some v \<and> ver p \<le> ver v"
  using reg_merge_max [of "vals_of k rs" "hm_get m k" _ p]
  by (cases "hm_get (lww_merge acc rs m) k") (auto simp: hm_get_lww_merge reg_merge_None)

text \<open>A push of the full view and the merge of the answer leave both sides equal, ties
  included.\<close>

lemma exchange_agrees:
  assumes "hm_ok a" "hm_ok b"
  shows "hm_get (lww_merge acc (lww_merge acc a b) a) k = hm_get (lww_merge acc a b) k"
proof -
  have "reg_merge acc (vals_of k (lww_merge acc a b)) (hm_get a k) = hm_get (lww_merge acc a b) k"
  proof (cases "hm_get a k")
    case None
    then show ?thesis using assms by (simp add: vals_of_map split: option.splits)
  next
    case (Some x)
    then have x: "vals_of k a = [x]" using assms by (simp add: vals_of_map)
    show ?thesis
    proof (cases "hm_get b k")
      case None
      then show ?thesis using assms Some x by (simp add: vals_of_map hm_get_lww_merge)
    next
      case y: (Some y)
      have "(if acc x y then Some x else Some y) =
          (if acc (if acc x y then x else y) x then Some (if acc x y then x else y) else Some x)"
        using acc_tie [of x y] by auto
      then show ?thesis using assms Some x y
        by (auto simp: vals_of_map hm_get_lww_merge split: if_splits)
    qed
  qed
  then show ?thesis by (simp add: hm_get_lww_merge)
qed

end

section \<open>The store\<close>

record lww_store =
  ls_inner :: "(link_key, quality_record) hmap"
  ls_nodes :: "(string, node_entry) hmap"

definition lww_new :: lww_store where
  "lww_new = \<lparr>ls_inner = [], ls_nodes = []\<rparr>"

definition kv_ok :: "lww_store \<Rightarrow> bool" where
  "kv_ok s \<longleftrightarrow> hm_ok (ls_inner s) \<and> hm_ok (ls_nodes s)"

definition kv_put :: "link_key \<Rightarrow> quality_record \<Rightarrow> lww_store \<Rightarrow> bool \<times> lww_store" where
  "kv_put key rec s =
     (if opt_any (\<lambda>prev. qr_ts rec < qr_ts prev) (hm_get (ls_inner s) key) then (False, s)
      else (True, s\<lparr>ls_inner := hm_insert key rec (ls_inner s)\<rparr>))"

definition kv_get :: "lww_store \<Rightarrow> link_key \<Rightarrow> quality_record option" where
  "kv_get s key = hm_get (ls_inner s) key"

definition kv_all :: "lww_store \<Rightarrow> (link_key \<times> quality_record) list" where
  "kv_all s = ls_inner s"

definition kv_len :: "lww_store \<Rightarrow> nat" where
  "kv_len s = length (ls_inner s)"

fun kv_merge_into ::
  "(link_key \<times> quality_record) list \<Rightarrow> (link_key, quality_record) hmap
    \<Rightarrow> (link_key, quality_record) hmap" where
  "kv_merge_into [] m = m"
| "kv_merge_into ((k, v) # rs) m =
     (let prev = (case hm_get m k of Some p \<Rightarrow> qr_ts p | None \<Rightarrow> 0)
      in kv_merge_into rs (if prev \<le> qr_ts v then hm_insert k v m else m))"

definition kv_merge :: "(link_key \<times> quality_record) list \<Rightarrow> lww_store \<Rightarrow> lww_store" where
  "kv_merge records s = s\<lparr>ls_inner := kv_merge_into records (ls_inner s)\<rparr>"

definition set_node :: "string \<Rightarrow> string \<Rightarrow> link_key list \<Rightarrow> nat \<Rightarrow> lww_store \<Rightarrow> bool \<times> lww_store" where
  "set_node rid name links ts s =
     (let entry = \<lparr>ne_name = name, ne_ts = ts, ne_links = links\<rparr>;
          stored = (True, s\<lparr>ls_nodes := hm_insert rid entry (ls_nodes s)\<rparr>)
      in case hm_get (ls_nodes s) rid of
           Some prev \<Rightarrow>
             if ts < ne_ts prev then (False, s)
             else if ne_ts prev = ts \<and> ne_name prev = name \<and> ne_links prev = links then (False, s)
             else stored
         | None \<Rightarrow> stored)"

definition kv_node :: "lww_store \<Rightarrow> string \<Rightarrow> node_entry option" where
  "kv_node s rid = hm_get (ls_nodes s) rid"

definition node_name :: "lww_store \<Rightarrow> string \<Rightarrow> string option" where
  "node_name s rid = map_option ne_name (hm_get (ls_nodes s) rid)"

definition kv_nodes :: "lww_store \<Rightarrow> (string \<times> node_entry) list" where
  "kv_nodes s = ls_nodes s"

definition entry_newer :: "node_entry \<Rightarrow> node_entry \<Rightarrow> bool" where
  "entry_newer e prev \<longleftrightarrow> ne_ts prev < ne_ts e
     \<or> (ne_ts e = ne_ts prev \<and> (ne_name e \<noteq> ne_name prev \<or> ne_links e \<noteq> ne_links prev))"

fun merge_nodes_into ::
  "(string \<times> node_entry) list \<Rightarrow> bool \<times> (string, node_entry) hmap
    \<Rightarrow> bool \<times> (string, node_entry) hmap" where
  "merge_nodes_into [] st = st"
| "merge_nodes_into ((rid, e) # ns) (changed, m) =
     (let newer = (case hm_get m rid of Some prev \<Rightarrow> entry_newer e prev | None \<Rightarrow> True)
      in merge_nodes_into ns (if newer then (True, hm_insert rid e m) else (changed, m)))"

definition merge_nodes :: "(string \<times> node_entry) list \<Rightarrow> lww_store \<Rightarrow> bool \<times> lww_store" where
  "merge_nodes nodes s = (let r = merge_nodes_into nodes (False, ls_nodes s)
     in (fst r, s\<lparr>ls_nodes := snd r\<rparr>))"

definition kv_prune :: "nat \<Rightarrow> nat \<Rightarrow> lww_store \<Rightarrow> lww_store" where
  "kv_prune now max_age s =
     s\<lparr>ls_inner := hm_retain (\<lambda>_ v. saturating_sub now (qr_ts v) \<le> max_age) (ls_inner s)\<rparr>"

section \<open>The two maps meet the contract\<close>

definition rec_acc :: "quality_record \<Rightarrow> quality_record \<Rightarrow> bool" where
  "rec_acc v p \<longleftrightarrow> qr_ts p \<le> qr_ts v"

interpretation records: lww qr_ts rec_acc
  by unfold_locales (auto simp: rec_acc_def)

interpretation directory: lww ne_ts entry_newer
  by unfold_locales (auto simp: entry_newer_def)

lemma kv_merge_into_lww: "kv_merge_into rs m = lww_merge rec_acc rs m"
proof (induction rs m rule: kv_merge_into.induct)
  case (2 k v rs m)
  then show ?case by (auto simp: lww_put_def rec_acc_def Let_def split: option.splits)
qed simp

lemma merge_nodes_into_lww: "snd (merge_nodes_into ns (c, m)) = lww_merge entry_newer ns m"
  by (induction ns "(c, m)" arbitrary: c m rule: merge_nodes_into.induct)
    (auto simp: lww_put_def Let_def split: option.splits)

lemma merge_nodes_into_unchanged:
  "\<not> fst (merge_nodes_into ns (c, m)) \<Longrightarrow> snd (merge_nodes_into ns (c, m)) = m \<and> \<not> c"
  by (induction ns "(c, m)" arbitrary: c m rule: merge_nodes_into.induct)
    (auto simp: Let_def split: option.splits if_splits)

lemma kv_put_lww: "ls_inner (snd (kv_put k r s)) = lww_put rec_acc k r (ls_inner s)"
  by (auto simp: kv_put_def lww_put_def rec_acc_def opt_all_def opt_any_def split: option.splits)

lemma set_node_lww:
  "ls_nodes (snd (set_node rid n ls ts s))
    = lww_put entry_newer rid \<lparr>ne_name = n, ne_ts = ts, ne_links = ls\<rparr> (ls_nodes s)"
  by (auto simp: set_node_def lww_put_def entry_newer_def opt_all_def Let_def split: option.splits)

lemma kv_ok_steps [simp, model_inv]:
  "kv_ok s \<Longrightarrow> kv_ok (snd (kv_put k r s))"
  "kv_ok s \<Longrightarrow> kv_ok (kv_merge rs s)"
  "kv_ok s \<Longrightarrow> kv_ok (snd (set_node rid n ls ts s))"
  "kv_ok s \<Longrightarrow> kv_ok (snd (merge_nodes ns s))"
  "kv_ok s \<Longrightarrow> kv_ok (kv_prune now age s)"
  by (auto simp: kv_ok_def kv_put_def kv_merge_def kv_merge_into_lww set_node_def merge_nodes_def
      merge_nodes_into_lww kv_prune_def Let_def split: option.splits)

lemma kv_ok_new [simp]: "kv_ok lww_new"
  by (simp add: kv_ok_def lww_new_def)

lemma kv_get_put:
  "kv_get (snd (kv_put k r s)) k' = (if k' = k \<and> opt_all (rec_acc r) (kv_get s k) then Some r
     else kv_get s k')"
  by (simp add: kv_get_def kv_put_lww hm_get_lww_put)

lemma kv_get_prune:
  "kv_ok s \<Longrightarrow> kv_get (kv_prune now age s) k
    = (case kv_get s k of None \<Rightarrow> None | Some v \<Rightarrow> if now - qr_ts v \<le> age then Some v else None)"
  by (simp add: kv_get_def kv_prune_def kv_ok_def hm_get_retain)

section \<open>Properties\<close>

text \<open>Last writer wins on \<open>put\<close>: the record is stored, and the call returns true, exactly
  when no newer record is stored for the link; every other link keeps its record.\<close>

theorem put_last_writer_wins:
  "fst (kv_put k r s) = opt_all (\<lambda>prev. qr_ts prev \<le> qr_ts r) (kv_get s k)
   \<and> kv_get (snd (kv_put k r s)) k = (if fst (kv_put k r s) then Some r else kv_get s k)
   \<and> (k' = k \<or> kv_get (snd (kv_put k r s)) k' = kv_get s k')"
  by (auto simp: kv_put_def kv_get_def opt_all_def opt_any_def split: option.splits)

text \<open>C5: merging peers' records converges: when timestamps identify the records of a link,
  the stored record depends only on which records were seen, not on the order, the
  repetition or the grouping in which they arrived.\<close>

theorem merge_converges:
  assumes same: "\<And>v. (k, v) \<in> set rs \<or> kv_get s k = Some v \<longleftrightarrow> (k, v) \<in> set rs' \<or> kv_get s' k = Some v"
    and unique: "\<And>a b. (k, a) \<in> set rs \<or> kv_get s k = Some a \<Longrightarrow>
      (k, b) \<in> set rs \<or> kv_get s k = Some b \<Longrightarrow> qr_ts a = qr_ts b \<Longrightarrow> a = b"
  shows "kv_get (kv_merge rs s) k = kv_get (kv_merge rs' s') k"
  using records.merge_order_irrelevant [of k rs "ls_inner s" rs' "ls_inner s'"] same unique
  by (simp add: kv_get_def kv_merge_def kv_merge_into_lww)

text \<open>A merge never moves a link back in time: whatever a peer sends, a stored record is
  kept or replaced by one at least as new.\<close>

theorem merge_never_goes_back:
  assumes "kv_get s k = Some p"
  shows "\<exists>v. kv_get (kv_merge rs s) k = Some v \<and> qr_ts p \<le> qr_ts v"
  using records.merge_version_mono [of "ls_inner s" k p rs] assms
  by (simp add: kv_get_def kv_merge_def kv_merge_into_lww)

text \<open>The directory merge reports a change whenever it made one: if it returns false, the
  store is exactly what it was, so skipping \<open>sync_directory\<close> loses nothing.\<close>

theorem merge_nodes_reports_change:
  assumes "\<not> fst (merge_nodes ns s)" shows "snd (merge_nodes ns s) = s"
  using assms merge_nodes_into_unchanged [of ns False "ls_nodes s"]
  by (simp add: merge_nodes_def Let_def)

text \<open>Pruning drops exactly the link records older than the given age and never touches
  the node directory.\<close>

theorem prune_exact:
  assumes "kv_ok s"
  shows "(kv_get (kv_prune now age s) k = Some v
      \<longleftrightarrow> kv_get s k = Some v \<and> now - qr_ts v \<le> age)
    \<and> kv_nodes (kv_prune now age s) = kv_nodes s"
  using kv_get_prune [OF assms, of now age k]
  by (auto simp: kv_nodes_def kv_prune_def split: option.splits if_splits)

section \<open>Witnesses\<close>

definition rec_at :: "nat \<Rightarrow> quality_record" where
  "rec_at t = new_quality_record t None None None None None (Fin 0) Quiet"

lemma qr_ts_rec_at [simp]: "qr_ts (rec_at t) = t"
  by (simp add: rec_at_def new_quality_record_def)

definition key_ab :: link_key where
  "key_ab = new_link ''hub-a'' ''hub-b'' ''awg0''"

theorem merge_converges_witness:
  "kv_get (kv_merge [(key_ab, rec_at 5), (key_ab, rec_at 9)] lww_new) key_ab
   = kv_get (kv_merge [(key_ab, rec_at 9), (key_ab, rec_at 5), (key_ab, rec_at 9)] lww_new) key_ab"
  by (rule merge_converges) (auto simp: kv_get_def lww_new_def)

theorem merge_never_goes_back_witness:
  "\<exists>v. kv_get (kv_merge [(key_ab, rec_at 5)]
      (snd (kv_put key_ab (rec_at 7) lww_new))) key_ab = Some v \<and> qr_ts (rec_at 7) \<le> qr_ts v"
  by (rule merge_never_goes_back) (simp add: kv_get_def kv_put_def lww_new_def)

theorem merge_nodes_reports_change_witness:
  "snd (merge_nodes [(''r1'', \<lparr>ne_name = ''old'', ne_ts = 1, ne_links = []\<rparr>)]
      (snd (set_node ''r1'' ''hub-a'' [] 5 lww_new))) = snd (set_node ''r1'' ''hub-a'' [] 5 lww_new)"
  by (rule merge_nodes_reports_change)
    (simp add: merge_nodes_def set_node_def lww_new_def entry_newer_def)

theorem prune_exact_witness:
  "(kv_get (kv_prune 1000 300 (snd (kv_put key_ab (rec_at 7) lww_new))) key_ab = Some (rec_at 7)
    \<longleftrightarrow> kv_get (snd (kv_put key_ab (rec_at 7) lww_new)) key_ab = Some (rec_at 7)
      \<and> 1000 - qr_ts (rec_at 7) \<le> 300)
    \<and> kv_nodes (kv_prune 1000 300 (snd (kv_put key_ab (rec_at 7) lww_new)))
      = kv_nodes (snd (kv_put key_ab (rec_at 7) lww_new))"
  by (rule prune_exact) simp

end
