(* ===== verification/Fence.thy ===== *)
theory Fence
  imports Proto
begin

text \<open>
  The throughput fence (\<open>crates/controller/src/fence.rs\<close>): soft leases that keep two intrusive
  tests off the same node. The state is the map from link id to lease behind the mutex; each
  method is one critical section and so one function. The clock and the fresh token are
  arguments.

  The locale \<open>node_lock\<close> is what the dispatcher relies on: a grant never overlaps what is
  held, and a release only shrinks what is held. It follows that the held leases are
  pairwise node-disjoint after any sequence of calls.
\<close>

section \<open>The interface\<close>

locale node_lock =
  fixes held :: "'s \<Rightarrow> 'l set" and nodes :: "'l \<Rightarrow> string set"
    and grant :: "'a \<Rightarrow> 's \<Rightarrow> 'l option \<times> 's" and drop_lease :: "'r \<Rightarrow> 's \<Rightarrow> 's"
    and well_formed :: "'s \<Rightarrow> bool"
  assumes grant_granted: "well_formed s \<Longrightarrow> grant a s = (Some l, s')
      \<Longrightarrow> held s' \<subseteq> insert l (held s) \<and> (\<forall>h \<in> held s'. h \<noteq> l \<longrightarrow> nodes h \<inter> nodes l = {})"
    and grant_refused: "well_formed s \<Longrightarrow> grant a s = (None, s') \<Longrightarrow> held s' \<subseteq> held s"
    and drop_shrinks: "well_formed s \<Longrightarrow> held (drop_lease r s) \<subseteq> held s"
    and grant_well_formed: "well_formed s \<Longrightarrow> well_formed (snd (grant a s))"
    and drop_well_formed: "well_formed s \<Longrightarrow> well_formed (drop_lease r s)"
begin

definition exclusive :: "'s \<Rightarrow> bool" where
  "exclusive s \<longleftrightarrow> (\<forall>a \<in> held s. \<forall>b \<in> held s. a \<noteq> b \<longrightarrow> nodes a \<inter> nodes b = {})"

inductive lock_step :: "'s \<Rightarrow> 's \<Rightarrow> bool" where
  granting: "lock_step s (snd (grant a s))"
| dropping: "lock_step s (drop_lease r s)"

inductive_cases lock_stepE: "lock_step s s'"

lemma exclusive_subset: "held s' \<subseteq> held s \<Longrightarrow> exclusive s \<Longrightarrow> exclusive s'"
  unfolding exclusive_def by blast

lemma exclusive_grant:
  assumes "well_formed s" "exclusive s" shows "exclusive (snd (grant a s))"
proof (cases "grant a s")
  case (Pair o' s')
  show ?thesis
  proof (cases o')
    case None
    with Pair assms grant_refused [of s a s'] exclusive_subset [of s' s] show ?thesis by simp
  next
    case (Some l)
    from grant_granted [OF assms(1), of a l s'] Pair Some
    have "held s' \<subseteq> insert l (held s)" "\<forall>h \<in> held s'. h \<noteq> l \<longrightarrow> nodes h \<inter> nodes l = {}"
      by simp_all
    then have "nodes x \<inter> nodes y = {}" if "x \<in> held s'" "y \<in> held s'" "x \<noteq> y" for x y
      using that assms(2) unfolding exclusive_def by (metis Int_commute insertE subsetD)
    with Pair show ?thesis by (simp add: exclusive_def)
  qed
qed

lemma exclusive_step:
  "lock_step s s' \<Longrightarrow> well_formed s \<and> exclusive s \<Longrightarrow> well_formed s' \<and> exclusive s'"
  by (erule lock_stepE)
    (auto simp: grant_well_formed exclusive_grant drop_well_formed
      intro: exclusive_subset [OF drop_shrinks])

lemma exclusive_run:
  assumes "lock_step\<^sup>*\<^sup>* s s'" "well_formed s" "exclusive s"
  shows "well_formed s' \<and> exclusive s'"
  by (rule run_invariant [OF assms(1)]) (use assms exclusive_step in auto)

end

section \<open>Leases\<close>

record lease =
  le_holder :: string
  le_link :: string
  le_from :: string
  le_to :: string
  le_token :: string
  le_issued_at :: nat
  le_ttl_secs :: nat

type_synonym fence = "(string, lease) hmap"

definition fence_new :: fence where
  "fence_new = []"

definition expired :: "lease \<Rightarrow> nat \<Rightarrow> bool" where
  "expired l now \<longleftrightarrow> le_ttl_secs l \<le> saturating_sub now (le_issued_at l)"

definition occupies :: "lease \<Rightarrow> link_key \<Rightarrow> bool" where
  "occupies l link \<longleftrightarrow> list_ex (\<lambda>n. n = lk_from link \<or> n = lk_to link) [le_from l, le_to l]"

definition new_lease :: "string \<Rightarrow> link_key \<Rightarrow> nat \<Rightarrow> nat \<Rightarrow> string \<Rightarrow> lease" where
  "new_lease agent link ttl now token = \<lparr>le_holder = agent, le_link = link_id link,
     le_from = lk_from link, le_to = lk_to link, le_token = token, le_issued_at = now,
     le_ttl_secs = ttl\<rparr>"

definition acquire ::
  "string \<Rightarrow> link_key \<Rightarrow> nat \<Rightarrow> nat \<Rightarrow> string \<Rightarrow> fence \<Rightarrow> (lease + lease) \<times> fence" where
  "acquire agent link ttl now token m0 =
     (let m = hm_retain (\<lambda>_ l. \<not> expired l now) m0
      in case find (\<lambda>l. occupies l link) (map snd m) of
           Some busy \<Rightarrow> (Inl busy, m)
         | None \<Rightarrow> (let l = new_lease agent link ttl now token
                    in (Inr l, hm_insert (le_link l) l m)))"

definition release :: "string \<Rightarrow> string \<Rightarrow> fence \<Rightarrow> bool \<times> fence" where
  "release link token m =
     (case hm_get m link of
        Some l \<Rightarrow> if le_token l = token then (True, hm_remove link m) else (False, m)
      | None \<Rightarrow> (False, m))"

definition leases :: "fence \<Rightarrow> lease list" where
  "leases m = map snd m"

section \<open>Contract and invariant\<close>

definition lease_nodes :: "lease \<Rightarrow> string set" where
  "lease_nodes l = {le_from l, le_to l}"

definition fence_ok :: "fence \<Rightarrow> bool" where
  "fence_ok m \<longleftrightarrow> hm_ok m \<and> list_all (\<lambda>(k, l). k = le_link l) m"

text \<open>The live leases of a fence, and whether one of them needs a node of the link.\<close>

definition live_leases :: "nat \<Rightarrow> fence \<Rightarrow> lease list" where
  "live_leases now m = filter (\<lambda>l. \<not> expired l now) (leases m)"

definition node_busy :: "nat \<Rightarrow> link_key \<Rightarrow> fence \<Rightarrow> bool" where
  "node_busy now link m \<longleftrightarrow> list_ex (\<lambda>l. occupies l link) (live_leases now m)"

lemma occupies_iff: "occupies l link \<longleftrightarrow> lease_nodes l \<inter> {lk_from link, lk_to link} \<noteq> {}"
  by (auto simp: occupies_def lease_nodes_def)

lemma lease_nodes_new [simp]: "lease_nodes (new_lease a link t n tok) = {lk_from link, lk_to link}"
  by (simp add: lease_nodes_def new_lease_def)

lemma le_link_new [simp]: "le_link (new_lease a link t n tok) = link_id link"
  by (simp add: new_lease_def)

lemma leases_retain: "map snd (hm_retain (\<lambda>_ l. \<not> expired l now) m) = live_leases now m"
  by (induction m) (auto simp: hm_retain_def live_leases_def leases_def)

lemma set_hm_insert: "snd ` set (hm_insert k v m) \<subseteq> insert v (snd ` set m)"
  by (induction m) (auto simp: hm_insert_def)

lemma set_hm_remove: "set (hm_remove k m) \<subseteq> set m"
  by (auto simp: hm_remove_def AList.delete_eq)

lemma acquire_cases:
  obtains (refused) busy where "acquire agent link ttl now token m
      = (Inl busy, hm_retain (\<lambda>_ l. \<not> expired l now) m)"
    "find (\<lambda>l. occupies l link) (live_leases now m) = Some busy" "node_busy now link m"
  | (granted) "acquire agent link ttl now token m = (Inr (new_lease agent link ttl now token),
      hm_insert (link_id link) (new_lease agent link ttl now token)
        (hm_retain (\<lambda>_ l. \<not> expired l now) m))"
    "\<forall>l \<in> set (live_leases now m). \<not> occupies l link" "\<not> node_busy now link m"
proof (cases "find (\<lambda>l. occupies l link) (live_leases now m)")
  case None
  then have "\<forall>l \<in> set (live_leases now m). \<not> occupies l link"
    by (simp add: find_None_iff)
  moreover have "acquire agent link ttl now token m = (Inr (new_lease agent link ttl now token),
      hm_insert (link_id link) (new_lease agent link ttl now token)
        (hm_retain (\<lambda>_ l. \<not> expired l now) m))"
    unfolding acquire_def Let_def leases_retain None by simp
  ultimately show ?thesis using that(2) by (simp add: node_busy_def list_ex_iff)
next
  case (Some b)
  then have "occupies b link \<and> b \<in> set (live_leases now m)"
    by (auto simp: find_Some_iff)
  with Some show ?thesis using that(1)
    by (auto simp: acquire_def leases_retain Let_def node_busy_def list_ex_iff)
qed

lemma fence_ok_new [simp]: "fence_ok fence_new"
  by (simp add: fence_ok_def fence_new_def)

lemma fence_ok_retain: "fence_ok m \<Longrightarrow> fence_ok (hm_retain P m)"
  by (auto simp: fence_ok_def list_all_iff hm_in_set_retain)

lemma fence_ok_insert: "fence_ok m \<Longrightarrow> fence_ok (hm_insert (le_link l) l m)"
  by (auto simp: fence_ok_def list_all_iff hm_in_set_insert)

lemma fence_ok_steps [simp, model_inv]:
  "fence_ok m \<Longrightarrow> fence_ok (snd (acquire agent link ttl now token m))"
  "fence_ok m \<Longrightarrow> fence_ok (snd (release l tok m))"
proof -
  show "fence_ok m \<Longrightarrow> fence_ok (snd (acquire agent link ttl now token m))"
    by (rule acquire_cases [of agent link ttl now token m])
      (auto simp: fence_ok_retain fence_ok_insert [of _ "new_lease agent link ttl now token", simplified])
  show "fence_ok m \<Longrightarrow> fence_ok (snd (release l tok m))"
    using set_hm_remove by (fastforce simp: fence_ok_def list_all_iff release_def split: option.splits)
qed

text \<open>The model of the code is such a lock.\<close>

definition fence_grant :: "string \<times> link_key \<times> nat \<times> nat \<times> string \<Rightarrow> fence \<Rightarrow> lease option \<times> fence" where
  "fence_grant = (\<lambda>(agent, link, ttl, now, token) m.
     case acquire agent link ttl now token m of (Inl _, m') \<Rightarrow> (None, m') | (Inr l, m') \<Rightarrow> (Some l, m'))"

definition fence_drop :: "string \<times> string \<Rightarrow> fence \<Rightarrow> fence" where
  "fence_drop = (\<lambda>(link, token) m. snd (release link token m))"

lemma held_retain: "set (leases (hm_retain (\<lambda>_ l. \<not> expired l now) m)) = set (live_leases now m)"
  by (simp add: leases_def leases_retain)

lemma live_subset: "set (live_leases now m) \<subseteq> set (leases m)"
  by (auto simp: live_leases_def)

lemma held_insert: "set (leases (hm_insert k v m)) \<subseteq> insert v (set (leases m))"
  using set_hm_insert [of k v m] by (simp add: leases_def)

interpretation fence_lock: node_lock "\<lambda>m. set (leases m)" lease_nodes fence_grant fence_drop fence_ok
proof
  fix m m' l and a :: "string \<times> link_key \<times> nat \<times> nat \<times> string"
  obtain agent link ttl now token where a: "a = (agent, link, ttl, now, token)" by (cases a)
  {
    assume g: "fence_grant a m = (Some l, m')"
    show "set (leases m') \<subseteq> insert l (set (leases m))
        \<and> (\<forall>h \<in> set (leases m'). h \<noteq> l \<longrightarrow> lease_nodes h \<inter> lease_nodes l = {})"
    proof (rule acquire_cases [of agent link ttl now token m])
      assume c: "acquire agent link ttl now token m = (Inr (new_lease agent link ttl now token),
          hm_insert (link_id link) (new_lease agent link ttl now token)
            (hm_retain (\<lambda>_ l. \<not> expired l now) m))"
        and free: "\<forall>l \<in> set (live_leases now m). \<not> occupies l link"
      have l: "l = new_lease agent link ttl now token"
        and m': "m' = hm_insert (link_id link) l (hm_retain (\<lambda>_ l. \<not> expired l now) m)"
        using g c by (auto simp: fence_grant_def a)
      have sub: "set (leases m') \<subseteq> insert l (set (live_leases now m))"
        using held_insert [of "link_id link" l "hm_retain (\<lambda>_ l. \<not> expired l now) m"]
        by (simp add: m' held_retain)
      with free l live_subset [of now m] show ?thesis by (auto simp: occupies_iff)
    qed (use g a in \<open>auto simp: fence_grant_def\<close>)
  next
    assume g: "fence_grant a m = (None, m')"
    show "set (leases m') \<subseteq> set (leases m)"
      by (rule acquire_cases [of agent link ttl now token m])
        (use g a live_subset [of now m] in \<open>auto simp: fence_grant_def held_retain\<close>)
  }
next
  fix m :: fence and r :: "string \<times> string"
  show "set (leases (fence_drop r m)) \<subseteq> set (leases m)"
    using set_hm_remove [of "fst r" m]
    by (cases r) (auto simp: fence_drop_def release_def leases_def split: option.splits)
  show "fence_ok m \<Longrightarrow> fence_ok (fence_drop r m)"
    by (cases r) (simp add: fence_drop_def)
next
  fix m :: fence and a :: "string \<times> link_key \<times> nat \<times> nat \<times> string"
  assume ok: "fence_ok m"
  obtain agent link ttl now token where a: "a = (agent, link, ttl, now, token)" by (cases a)
  have "snd (fence_grant a m) = snd (acquire agent link ttl now token m)"
    by (simp add: fence_grant_def a split: prod.splits sum.splits)
  with ok show "fence_ok (snd (fence_grant a m))" by simp
qed


section \<open>Runs of the fence\<close>

inductive fence_step :: "fence \<Rightarrow> fence \<Rightarrow> bool" where
  acquiring: "fence_step m (snd (acquire agent link ttl now token m))"
| releasing: "fence_step m (snd (release lid token m))"

inductive_cases fence_stepE: "fence_step m m'"

lemma fence_step_lock: "fence_step m m' \<Longrightarrow> fence_lock.lock_step m m'"
proof (erule fence_stepE)
  fix agent link ttl now token
  have "snd (acquire agent link ttl now token m) = snd (fence_grant (agent, link, ttl, now, token) m)"
    by (simp add: fence_grant_def split: prod.splits sum.splits)
  then show "m' = snd (acquire agent link ttl now token m) \<Longrightarrow> fence_lock.lock_step m m'"
    by (simp add: fence_lock.granting)
next
  fix lid token
  show "m' = snd (release lid token m) \<Longrightarrow> fence_lock.lock_step m m'"
    using fence_lock.dropping [of m "(lid, token)"] by (simp add: fence_drop_def)
qed

lemma fence_run_lock: "fence_step\<^sup>*\<^sup>* m m' \<Longrightarrow> fence_lock.lock_step\<^sup>*\<^sup>* m m'"
  by (induction rule: rtranclp_induct) (auto intro: rtranclp.rtrancl_into_rtrancl fence_step_lock)

definition leases_disjoint :: "fence \<Rightarrow> bool" where
  "leases_disjoint m \<longleftrightarrow> (\<forall>a \<in> set (leases m). \<forall>b \<in> set (leases m).
     a \<noteq> b \<longrightarrow> lease_nodes a \<inter> lease_nodes b = {})"

lemma leases_disjoint_lock: "leases_disjoint = fence_lock.exclusive"
  by (rule ext) (simp add: leases_disjoint_def fence_lock.exclusive_def)

lemma leases_disjoint_new: "fence_lock.exclusive fence_new"
  unfolding leases_disjoint_lock [symmetric] by (simp add: leases_disjoint_def fence_new_def leases_def)

section \<open>Properties\<close>

text \<open>C4: mutual exclusion: after any sequence of acquires and releases, whatever the clock
  readings, the stored leases occupy pairwise disjoint nodes, each under its link's id.\<close>

theorem fence_mutual_exclusion:
  assumes "fence_step\<^sup>*\<^sup>* fence_new m" shows "fence_ok m \<and> leases_disjoint m"
  unfolding leases_disjoint_lock
  by (rule fence_lock.exclusive_run [OF fence_run_lock [OF assms] fence_ok_new leases_disjoint_new])

text \<open>A test is granted exactly when no live lease needs one of its two nodes; the grant
  stores the lease with the caller's token under the link's id and drops the expired ones; a
  refusal names a live lease that occupies an endpoint and stores nothing.\<close>

theorem acquire_exact:
  "case acquire agent link ttl now token m of
     (Inr l, m') \<Rightarrow> \<not> node_busy now link m \<and> l = new_lease agent link ttl now token
       \<and> hm_get m' (link_id link) = Some l
   | (Inl busy, m') \<Rightarrow> node_busy now link m \<and> busy \<in> set (live_leases now m)
       \<and> occupies busy link \<and> leases m' = live_leases now m"
proof (cases rule: acquire_cases [of agent link ttl now token m])
  case (refused busy)
  then have "busy \<in> set (live_leases now m) \<and> occupies busy link"
    by (auto simp: find_Some_iff)
  with refused show ?thesis by (simp add: leases_def leases_retain)
next
  case granted
  then show ?thesis by simp
qed

text \<open>Only the lease's own token releases it: the call succeeds exactly when the lease
  stored for the link carries the token, removes that lease only, and otherwise changes
  nothing, so a late release of an expired test cannot free the next holder's nodes.\<close>

theorem release_exact:
  "fst (release link token m) = opt_any (\<lambda>l. le_token l = token) (hm_get m link)
   \<and> hm_get (snd (release link token m)) k
     = (if k = link \<and> fst (release link token m) then None else hm_get m k)
   \<and> (fst (release link token m) \<or> snd (release link token m) = m)"
  by (simp add: release_def split: option.splits)

text \<open>A lost lease does not block forever: once the time to live of every stored lease has
  passed, any test is granted, with no release ever called.\<close>

theorem expired_leases_never_block:
  assumes "list_all (\<lambda>l. le_issued_at l + le_ttl_secs l \<le> now) (leases m)"
  shows "fst (acquire agent link ttl now token m) = Inr (new_lease agent link ttl now token)"
proof -
  have "live_leases now m = []"
    using assms by (auto simp: live_leases_def expired_def list_all_iff filter_empty_conv)
  then have "\<not> node_busy now link m" by (simp add: node_busy_def)
  then show ?thesis by (cases rule: acquire_cases [of agent link ttl now token m]) simp_all
qed

section \<open>Witnesses\<close>

definition fence_two :: fence where
  "fence_two = snd (acquire ''hub-c'' (new_link ''hub-c'' ''hub-d'' ''awg1'') 30 101 ''t2''
     (snd (acquire ''hub-a'' (new_link ''hub-a'' ''hub-b'' ''awg0'') 30 100 ''t1'' fence_new)))"

theorem fence_mutual_exclusion_witness:
  "fence_ok fence_two \<and> leases_disjoint fence_two \<and> length (leases fence_two) = 2"
proof -
  have "fence_step\<^sup>*\<^sup>* fence_new fence_two"
    unfolding fence_two_def by (blast intro: acquiring rtranclp.rtrancl_into_rtrancl)
  moreover have "length (leases fence_two) = 2" by code_simp
  ultimately show ?thesis using fence_mutual_exclusion by blast
qed

theorem expired_leases_never_block_witness:
  "fst (acquire ''hub-a'' (new_link ''hub-a'' ''hub-b'' ''awg0'') 30 140 ''t3'' fence_two)
    = Inr (new_lease ''hub-a'' (new_link ''hub-a'' ''hub-b'' ''awg0'') 30 140 ''t3'')"
  by (rule expired_leases_never_block) code_simp

end
