(* ===== verification/Worker.thy ===== *)
theory Worker
  imports Proto
begin

text \<open>
  The agent registry (\<open>crates/controller/src/worker.rs\<close>): per agent its links, identity,
  session and generation, the costs sent, the retry back-off, the last issue per tier and the
  commands in flight. Every method takes the registry's lock once, so each is a function on
  the registry. A session handle (\<open>Arc<dyn Session>\<close>) is an opaque \<open>nat\<close>; the hash sets are
  sets, the generation counter is the wrapping atomic \<open>u64\<close>.
\<close>

section \<open>State\<close>

datatype kind = KAlways | KThroughput | KApply

definition apply_retry_secs :: nat where
  "apply_retry_secs = 30"

fun track_key :: "work_cmd \<Rightarrow> (link_key \<times> kind) option" where
  "track_key (Probe _ Always _ link _) = Some (link, KAlways)"
| "track_key (Probe _ Throughput _ link _) = Some (link, KThroughput)"
| "track_key (ApplyCost _ link _ _) = Some (link, KApply)"
| "track_key (Trace _ _ _) = None"

type_synonym session_handle = nat

record worker =
  wk_links :: "link_key list"
  wk_router_id :: "string option"
  wk_peer_rids :: "(string, string) hmap"
  wk_loopback :: "string option"
  wk_session :: "(nat \<times> session_handle) option"
  wk_applied_sent :: "(string, nat) hmap"
  wk_apply_retry_at :: "(string, nat) hmap"
  wk_last_issue :: "(string \<times> tier, nat) hmap"
  wk_in_flight :: "(string \<times> kind) set"

definition worker_default :: worker where
  "worker_default = \<lparr>wk_links = [], wk_router_id = None, wk_peer_rids = [], wk_loopback = None,
     wk_session = None, wk_applied_sent = [], wk_apply_retry_at = [], wk_last_issue = [],
     wk_in_flight = {}\<rparr>"

definition is_due :: "worker \<Rightarrow> string \<Rightarrow> tier \<Rightarrow> nat \<Rightarrow> nat \<Rightarrow> bool" where
  "is_due w link t now interval =
     (case hm_get (wk_last_issue w) (link, t) of
        Some t0 \<Rightarrow> interval \<le> saturating_sub now t0
      | None \<Rightarrow> True)"

record registry =
  wr_inner :: "(string, worker) hmap"
  wr_generation :: nat

definition registry_new :: registry where
  "registry_new = \<lparr>wr_inner = [], wr_generation = 0\<rparr>"

text \<open>\<open>entry(agent).or_default()\<close> and \<open>get_mut\<close>.\<close>

definition wr_worker :: "registry \<Rightarrow> string \<Rightarrow> worker" where
  "wr_worker r agent = (case hm_get (wr_inner r) agent of Some w \<Rightarrow> w | None \<Rightarrow> worker_default)"

definition wr_set :: "string \<Rightarrow> worker \<Rightarrow> registry \<Rightarrow> registry" where
  "wr_set agent w r = r\<lparr>wr_inner := hm_insert agent w (wr_inner r)\<rparr>"

definition wr_modify :: "string \<Rightarrow> (worker \<Rightarrow> worker) \<Rightarrow> registry \<Rightarrow> registry" where
  "wr_modify agent f r = r\<lparr>wr_inner := hm_modify agent f (wr_inner r)\<rparr>"

section \<open>Names\<close>

definition fold_char :: "char \<Rightarrow> char" where
  "fold_char c = (if c = CHR ''-'' \<or> c = CHR ''.'' then CHR ''_'' else c)"

definition name_key :: "string \<Rightarrow> string" where
  "name_key name = map fold_char (to_ascii_lowercase name)"

definition canonical_peer :: "registry \<Rightarrow> string \<Rightarrow> string" where
  "canonical_peer r name =
     (if hm_has (wr_inner r) name then name
      else case find (\<lambda>k. name_key k = name_key name) (map fst (wr_inner r)) of
             Some k \<Rightarrow> k | None \<Rightarrow> name)"

section \<open>Registration\<close>

text \<open>The far end of a reported link, and the links of the other agents towards this one.\<close>

definition settle_to :: "string list \<Rightarrow> string \<Rightarrow> link_key \<Rightarrow> link_key" where
  "settle_to agents agent l =
     (case find (\<lambda>k. name_key k = name_key (lk_to l)) agents of
        Some known \<Rightarrow> l\<lparr>lk_to := known\<rparr>
      | None \<Rightarrow> if name_key (lk_to l) = name_key agent then l\<lparr>lk_to := agent\<rparr> else l)"

definition rename_towards :: "string \<Rightarrow> link_key \<Rightarrow> link_key" where
  "rename_towards agent l =
     (if lk_to l \<noteq> agent \<and> name_key (lk_to l) = name_key agent then l\<lparr>lk_to := agent\<rparr> else l)"

definition rename_others :: "string \<Rightarrow> (string, worker) hmap \<Rightarrow> (string, worker) hmap" where
  "rename_others agent m =
     map (\<lambda>(name, w). (name, if name = agent then w
        else w\<lparr>wk_links := map (rename_towards agent) (wk_links w)\<rparr>)) m"

definition register_worker ::
  "string \<Rightarrow> link_key list \<Rightarrow> string option \<Rightarrow> (string, string) hmap \<Rightarrow> string option \<Rightarrow> registry
    \<Rightarrow> bool \<times> registry" where
  "register_worker agent links0 router_id peer_rids loopback r0 =
     (let links = map (settle_to (map fst (wr_inner r0)) agent) links0;
          r = r0\<lparr>wr_inner := rename_others agent (wr_inner r0)\<rparr>;
          w = wr_worker r agent;
          fresh = list_ex (\<lambda>l. l \<notin> set (wk_links w)) links;
          keep = map link_id links
      in (fresh, wr_set agent
            (w\<lparr>wk_router_id := router_id, wk_peer_rids := peer_rids, wk_loopback := loopback,
               wk_applied_sent := [], wk_apply_retry_at := [],
               wk_last_issue := hm_retain (\<lambda>(id, _) _. id \<in> set keep) (wk_last_issue w),
               wk_in_flight := Set.filter (\<lambda>(id, _). id \<in> set keep) (wk_in_flight w),
               wk_links := links\<rparr>) r))"

definition resolve_link :: "(string \<Rightarrow> string option) \<Rightarrow> worker \<Rightarrow> link_key \<Rightarrow> link_key" where
  "resolve_link lookup w l =
     (case Option.bind (hm_get (wk_peer_rids w) (lk_iface l)) lookup of
        None \<Rightarrow> l
      | Some name \<Rightarrow> if lk_to l \<noteq> name then l\<lparr>lk_to := name\<rparr> else l)"

definition resolve_worker :: "(string \<Rightarrow> string option) \<Rightarrow> worker \<Rightarrow> worker" where
  "resolve_worker lookup w = w\<lparr>wk_links := map (resolve_link lookup w) (wk_links w)\<rparr>"

definition resolve_peers ::
  "(string \<Rightarrow> string option) \<Rightarrow> registry
    \<Rightarrow> (string \<times> string option \<times> link_key list) list \<times> registry" where
  "resolve_peers lookup r =
     (let changed = (\<lambda>w. list_ex (\<lambda>l. resolve_link lookup w l \<noteq> l) (wk_links w));
          inner = hm_map_values (resolve_worker lookup) (wr_inner r)
      in (map (\<lambda>(a, w). (a, wk_router_id w, wk_links (resolve_worker lookup w)))
            (filter (\<lambda>(a, w). changed w) (wr_inner r)),
          r\<lparr>wr_inner := inner\<rparr>))"

definition entries :: "registry \<Rightarrow> (string \<times> string option \<times> link_key list) list" where
  "entries r = map (\<lambda>(a, w). (a, wk_router_id w, wk_links w)) (wr_inner r)"

definition router_id_of :: "registry \<Rightarrow> string \<Rightarrow> string option" where
  "router_id_of r agent = Option.bind (hm_get (wr_inner r) agent) wk_router_id"

section \<open>Sessions\<close>

text \<open>\<open>generation.fetch_add(1) + 1\<close>.\<close>

definition next_generation :: "registry \<Rightarrow> nat" where
  "next_generation r = add64 (wr_generation r) 1"

definition attach ::
  "string \<Rightarrow> session_handle \<Rightarrow> nat option \<Rightarrow> registry
    \<Rightarrow> (nat \<times> session_handle option) \<times> registry" where
  "attach agent session own r =
     (let w = wr_worker r agent;
          generation = next_generation r;
          fresh = ((generation, map_option snd (wk_session w)),
            (wr_set agent (w\<lparr>wk_session := Some (generation, session), wk_in_flight := {}\<rparr>) r)
              \<lparr>wr_generation := generation\<rparr>)
      in case (own, wk_session w) of
           (Some g, Some (cur, s)) \<Rightarrow> if g = cur then ((g, None), wr_set agent w r) else fresh
         | _ \<Rightarrow> fresh)"

definition detach :: "string \<Rightarrow> nat \<Rightarrow> registry \<Rightarrow> bool \<times> registry" where
  "detach agent generation r =
     (case hm_get (wr_inner r) agent of
        Some w \<Rightarrow> if opt_any (\<lambda>(g, _). g = generation) (wk_session w)
                  then (True, r\<lparr>wr_inner := hm_remove agent (wr_inner r)\<rparr>) else (False, r)
      | None \<Rightarrow> (False, r))"

definition session_of :: "registry \<Rightarrow> string \<Rightarrow> session_handle option" where
  "session_of r agent = Option.bind (hm_get (wr_inner r) agent) (\<lambda>w. map_option snd (wk_session w))"

section \<open>In-flight slots\<close>

definition begin_cmd :: "string \<Rightarrow> link_key \<Rightarrow> kind \<Rightarrow> registry \<Rightarrow> bool \<times> registry" where
  "begin_cmd agent link k r =
     (case hm_get (wr_inner r) agent of
        Some w \<Rightarrow> ((link_id link, k) \<notin> wk_in_flight w,
          wr_set agent (w\<lparr>wk_in_flight := insert (link_id link, k) (wk_in_flight w)\<rparr>) r)
      | None \<Rightarrow> (False, r))"

definition end_cmd :: "string \<Rightarrow> link_key \<Rightarrow> kind \<Rightarrow> registry \<Rightarrow> registry" where
  "end_cmd agent link k =
     wr_modify agent (\<lambda>w. w\<lparr>wk_in_flight := wk_in_flight w - {(link_id link, k)}\<rparr>)"

section \<open>Links, cadence and costs\<close>

definition wr_len :: "registry \<Rightarrow> nat" where
  "wr_len r = length (wr_inner r)"

definition owned_links :: "registry \<Rightarrow> (string \<times> link_key) list" where
  "owned_links r = concat (map (\<lambda>(name, w). map (\<lambda>l. (name, l)) (wk_links w)) (wr_inner r))"

definition links_of :: "registry \<Rightarrow> string \<Rightarrow> link_key list" where
  "links_of r agent = (case hm_get (wr_inner r) agent of Some w \<Rightarrow> wk_links w | None \<Rightarrow> [])"

definition probe_due :: "string \<Rightarrow> link_key \<Rightarrow> tier \<Rightarrow> nat \<Rightarrow> nat \<Rightarrow> registry \<Rightarrow> bool" where
  "probe_due agent link t now interval r =
     (case hm_get (wr_inner r) agent of Some w \<Rightarrow> is_due w (link_id link) t now interval | None \<Rightarrow> False)"

definition mark_issued :: "string \<Rightarrow> link_key \<Rightarrow> tier \<Rightarrow> nat \<Rightarrow> registry \<Rightarrow> registry" where
  "mark_issued agent link t now =
     wr_modify agent (\<lambda>w. w\<lparr>wk_last_issue := hm_insert (link_id link, t) now (wk_last_issue w)\<rparr>)"

definition applied_sent :: "registry \<Rightarrow> string \<Rightarrow> link_key \<Rightarrow> nat option" where
  "applied_sent r agent link =
     Option.bind (hm_get (wr_inner r) agent) (\<lambda>w. hm_get (wk_applied_sent w) (link_id link))"

definition apply_due :: "string \<Rightarrow> link_key \<Rightarrow> nat \<Rightarrow> nat \<Rightarrow> registry \<Rightarrow> bool" where
  "apply_due agent link cost now r =
     (case hm_get (wr_inner r) agent of
        None \<Rightarrow> False
      | Some w \<Rightarrow> hm_get (wk_applied_sent w) (link_id link) \<noteq> Some cost
          \<and> opt_all (\<lambda>t. t \<le> now) (hm_get (wk_apply_retry_at w) (link_id link)))"

definition set_applied_sent :: "string \<Rightarrow> link_key \<Rightarrow> nat \<Rightarrow> registry \<Rightarrow> registry" where
  "set_applied_sent agent link cost =
     wr_modify agent (\<lambda>w. w\<lparr>wk_apply_retry_at := hm_remove (link_id link) (wk_apply_retry_at w),
       wk_applied_sent := hm_insert (link_id link) cost (wk_applied_sent w)\<rparr>)"

definition note_apply_failed :: "string \<Rightarrow> link_key \<Rightarrow> nat \<Rightarrow> registry \<Rightarrow> registry" where
  "note_apply_failed agent link now =
     wr_modify agent (\<lambda>w. w\<lparr>wk_applied_sent := hm_remove (link_id link) (wk_applied_sent w),
       wk_apply_retry_at := hm_insert (link_id link) (add64 now apply_retry_secs) (wk_apply_retry_at w)\<rparr>)"

definition agents :: "registry \<Rightarrow> string list" where
  "agents r = map fst (wr_inner r)"

definition has_agent :: "registry \<Rightarrow> string \<Rightarrow> bool" where
  "has_agent r agent = hm_has (wr_inner r) agent"

definition loopback :: "registry \<Rightarrow> string \<Rightarrow> string option" where
  "loopback r agent = Option.bind (hm_get (wr_inner r) agent) wk_loopback"


section \<open>Lookups after each operation\<close>

named_theorems registry_simps \<open>the worker found after an operation of the registry\<close>

definition wr_get :: "registry \<Rightarrow> string \<Rightarrow> worker option" where
  "wr_get r agent = hm_get (wr_inner r) agent"

definition registry_ok :: "registry \<Rightarrow> bool" where
  "registry_ok r \<longleftrightarrow> hm_ok (wr_inner r)"

lemma wr_get_set [registry_simps, simp]:
  "wr_get (wr_set a w r) b = (if b = a then Some w else wr_get r b)"
  by (simp add: wr_get_def wr_set_def)

lemma wr_get_modify [registry_simps, simp]:
  "wr_get (wr_modify a f r) b = (if b = a then map_option f (wr_get r a) else wr_get r b)"
  by (simp add: wr_get_def wr_modify_def)

lemma wr_get_generation [simp]: "wr_get (r\<lparr>wr_generation := g\<rparr>) b = wr_get r b"
  by (simp add: wr_get_def)

lemma wr_generation_simps [simp]:
  "wr_generation (wr_set a w r) = wr_generation r"
  "wr_generation (wr_modify a f r) = wr_generation r"
  by (simp_all add: wr_set_def wr_modify_def)

lemma wr_worker_get: "wr_worker r a = (case wr_get r a of Some w \<Rightarrow> w | None \<Rightarrow> worker_default)"
  by (simp add: wr_worker_def wr_get_def)

lemma hm_get_rename_others:
  "hm_get (rename_others agent m) name
    = map_option (\<lambda>w. if name = agent then w
        else w\<lparr>wk_links := map (rename_towards agent) (wk_links w)\<rparr>) (hm_get m name)"
  unfolding rename_others_def by (induction m) auto

lemma map_fst_rename_others [simp]: "map fst (rename_others agent m) = map fst m"
  by (simp add: rename_others_def comp_def case_prod_unfold)

lemma wr_get_register [registry_simps]:
  "wr_get (snd (register_worker agent links rid rids lb r)) b =
     (if b = agent then Some ((wr_worker r agent)
        \<lparr>wk_router_id := rid, wk_peer_rids := rids, wk_loopback := lb,
         wk_applied_sent := [], wk_apply_retry_at := [],
         wk_last_issue := hm_retain (\<lambda>(id, _) _. id \<in> link_id ` settle_to (agents r) agent ` set links)
           (wk_last_issue (wr_worker r agent)),
         wk_in_flight := Set.filter (\<lambda>(id, _). id \<in> link_id ` settle_to (agents r) agent ` set links)
           (wk_in_flight (wr_worker r agent)),
         wk_links := map (settle_to (agents r) agent) links\<rparr>)
      else map_option (\<lambda>w. w\<lparr>wk_links := map (rename_towards agent) (wk_links w)\<rparr>) (wr_get r b))"
proof -
  have "wr_worker (r\<lparr>wr_inner := rename_others agent (wr_inner r)\<rparr>) agent = wr_worker r agent"
    by (simp add: wr_worker_def hm_get_rename_others split: option.splits)
  then show ?thesis
    by (simp add: register_worker_def Let_def agents_def)
      (simp add: wr_get_def hm_get_rename_others)
qed

lemma wr_get_resolve [registry_simps]:
  "wr_get (snd (resolve_peers lookup r)) b = map_option (resolve_worker lookup) (wr_get r b)"
  by (simp add: resolve_peers_def Let_def wr_get_def)

lemma wr_get_attach [registry_simps]:
  "wr_get (snd (attach agent s own r)) b =
     (if b \<noteq> agent then wr_get r b
      else let w = wr_worker r agent in
        if own \<noteq> None \<and> own = map_option fst (wk_session w) then Some w
        else Some (w\<lparr>wk_session := Some (next_generation r, s), wk_in_flight := {}\<rparr>))"
  by (auto simp: attach_def Let_def split: option.splits)

lemma wr_get_detach [registry_simps]:
  "wr_get (snd (detach agent g r)) b =
     (if b = agent \<and> opt_any (\<lambda>w. opt_any (\<lambda>p. fst p = g) (wk_session w)) (wr_get r agent) then None
      else wr_get r b)"
  by (auto simp: detach_def wr_get_def case_prod_unfold split: option.splits)

lemma wr_get_begin [registry_simps]:
  "wr_get (snd (begin_cmd agent link k r)) b =
     (if b = agent then map_option (\<lambda>w. w\<lparr>wk_in_flight := insert (link_id link, k) (wk_in_flight w)\<rparr>)
        (wr_get r agent) else wr_get r b)"
  by (auto simp: begin_cmd_def simp flip: wr_get_def split: option.splits)

lemma hm_ok_rename_others [simp]: "hm_ok (rename_others agent m) = hm_ok m"
  by (simp add: hm_ok_def)

lemma registry_ok_steps [simp, model_inv]:
  "registry_ok registry_new"
  "registry_ok r \<Longrightarrow> registry_ok (snd (register_worker agent links rid rids lb r))"
  "registry_ok r \<Longrightarrow> registry_ok (snd (resolve_peers lookup r))"
  "registry_ok r \<Longrightarrow> registry_ok (snd (attach agent s own r))"
  "registry_ok r \<Longrightarrow> registry_ok (snd (detach agent g r))"
  "registry_ok r \<Longrightarrow> registry_ok (snd (begin_cmd agent link k r))"
  "registry_ok r \<Longrightarrow> registry_ok (end_cmd agent link k r)"
  "registry_ok r \<Longrightarrow> registry_ok (mark_issued agent link t now r)"
  "registry_ok r \<Longrightarrow> registry_ok (set_applied_sent agent link c r)"
  "registry_ok r \<Longrightarrow> registry_ok (note_apply_failed agent link now r)"
  by (auto simp: registry_ok_def registry_new_def register_worker_def resolve_peers_def attach_def
      detach_def begin_cmd_def end_cmd_def mark_issued_def set_applied_sent_def
      note_apply_failed_def wr_set_def wr_modify_def Let_def split: option.splits)

section \<open>In-flight slots as a lock table\<close>

text \<open>What the dispatcher relies on: a claim succeeds only on a free slot of a known owner and
  occupies it; freeing frees that slot only. Commands name their slot by \<open>key\<close>. The client is
  a list of running tasks, each holding the slot it claimed and freeing it when it ends;
  whatever leaves the slots alone may happen in between.\<close>

locale slot_table =
  fixes key :: "'c \<Rightarrow> 'k" and claim :: "'c \<Rightarrow> 's \<Rightarrow> bool \<times> 's" and free :: "'c \<Rightarrow> 's \<Rightarrow> 's"
    and busy :: "'s \<Rightarrow> 'k set" and known :: "'s \<Rightarrow> 'c \<Rightarrow> bool"
  assumes claim_result: "fst (claim c s) \<longleftrightarrow> known s c \<and> key c \<notin> busy s"
    and claim_busy: "busy (snd (claim c s)) = (if known s c then insert (key c) (busy s) else busy s)"
    and free_busy: "busy (free c s) = busy s - {key c}"
begin

inductive task_step :: "'s \<times> 'c list \<Rightarrow> 's \<times> 'c list \<Rightarrow> bool" where
  start: "fst (claim c s) \<Longrightarrow> task_step (s, ts) (snd (claim c s), c # ts)"
| refused: "\<not> fst (claim c s) \<Longrightarrow> task_step (s, ts) (snd (claim c s), ts)"
| finish: "task_step (s, us @ c # vs) (free c s, us @ vs)"
| other: "busy s' = busy s \<Longrightarrow> task_step (s, ts) (s', ts)"

text \<open>The tasks hold exactly the busy slots, each once.\<close>

definition held_once :: "'s \<times> 'c list \<Rightarrow> bool" where
  "held_once st \<longleftrightarrow> distinct (map key (snd st)) \<and> key ` set (snd st) = busy (fst st)"

lemma held_once_step:
  assumes "held_once (s, ts)" "task_step (s, ts) st'" shows "held_once st'"
  using assms(2)
proof (cases rule: task_step.cases)
  case (finish us c vs)
  with assms(1) have "key c \<notin> key ` set us" "key c \<notin> key ` set vs"
    and "busy s = insert (key c) (key ` set us \<union> key ` set vs)"
    by (auto simp: held_once_def)
  with finish assms(1) show ?thesis by (auto simp: held_once_def free_busy)
qed (use assms(1) in \<open>auto simp: held_once_def claim_result claim_busy\<close>)

lemma held_once_run: "task_step\<^sup>*\<^sup>* st st' \<Longrightarrow> held_once st \<Longrightarrow> held_once st'"
  by (erule run_invariant) (auto intro: held_once_step)

text \<open>No slot is busy without a task that will free it; that survives slots being dropped.\<close>

definition covered :: "'s \<times> 'c list \<Rightarrow> bool" where
  "covered st \<longleftrightarrow> busy (fst st) \<subseteq> key ` set (snd st)"

lemma covered_step: "covered st \<Longrightarrow> task_step st st' \<Longrightarrow> covered st'"
  by (erule task_step.cases) (auto simp: covered_def claim_busy claim_result free_busy split: if_splits)

lemma covered_run: "task_step\<^sup>*\<^sup>* st st' \<Longrightarrow> covered st \<Longrightarrow> covered st'"
  by (erule run_invariant) (auto intro: covered_step)

lemma covered_shrink: "covered (s, ts) \<Longrightarrow> busy s' \<subseteq> busy s \<Longrightarrow> covered (s', ts)"
  by (auto simp: covered_def)

end

definition slot_key :: "string \<times> link_key \<times> kind \<Rightarrow> string \<times> string \<times> kind" where
  "slot_key = (\<lambda>(agent, link, k). (agent, link_id link, k))"

definition claim_slot :: "string \<times> link_key \<times> kind \<Rightarrow> registry \<Rightarrow> bool \<times> registry" where
  "claim_slot = (\<lambda>(agent, link, k). begin_cmd agent link k)"

definition free_slot :: "string \<times> link_key \<times> kind \<Rightarrow> registry \<Rightarrow> registry" where
  "free_slot = (\<lambda>(agent, link, k). end_cmd agent link k)"

definition busy_slots :: "registry \<Rightarrow> (string \<times> string \<times> kind) set" where
  "busy_slots r = {(a, id, k). opt_any (\<lambda>w. (id, k) \<in> wk_in_flight w) (wr_get r a)}"

lemma in_busy_slots: "(a, i, k) \<in> busy_slots r \<longleftrightarrow> opt_any (\<lambda>w. (i, k) \<in> wk_in_flight w) (wr_get r a)"
  by (simp add: busy_slots_def)

interpretation in_flight: slot_table slot_key claim_slot free_slot busy_slots
  "\<lambda>r c. has_agent r (fst c)"
proof
  fix c :: "string \<times> link_key \<times> kind" and r :: registry
  obtain a l k where c: "c = (a, l, k)" by (cases c)
  have known: "has_agent r a \<longleftrightarrow> wr_get r a \<noteq> None"
    by (simp add: has_agent_def hm_has_def wr_get_def)
  show "fst (claim_slot c r) \<longleftrightarrow> has_agent r (fst c) \<and> slot_key c \<notin> busy_slots r"
    by (auto simp: c known claim_slot_def begin_cmd_def slot_key_def busy_slots_def
        simp flip: wr_get_def split: option.splits)
  show "busy_slots (snd (claim_slot c r))
      = (if has_agent r (fst c) then insert (slot_key c) (busy_slots r) else busy_slots r)"
    by (cases "wr_get r a")
      (simp_all add: set_eq_iff c known claim_slot_def slot_key_def in_busy_slots wr_get_begin)
  show "busy_slots (free_slot c r) = busy_slots r - {slot_key c}"
    by (cases "wr_get r a")
      (simp_all add: set_eq_iff c free_slot_def end_cmd_def slot_key_def in_busy_slots)
qed


section \<open>Generations\<close>

text \<open>Every stored generation was handed out by the counter, which has not wrapped.\<close>

definition generations_ok :: "registry \<Rightarrow> bool" where
  "generations_ok r \<longleftrightarrow> (\<forall>a w g s. wr_get r a = Some w \<and> wk_session w = Some (g, s)
     \<longrightarrow> 0 < g \<and> g \<le> wr_generation r)"

lemma next_generation_small: "wr_generation r + 1 < 2 ^ 64 \<Longrightarrow> next_generation r = wr_generation r + 1"
  unfolding next_generation_def by (rule add64_small)

lemma attach_result:
  "fst (attach agent s own r) =
     (if own \<noteq> None \<and> own = map_option fst (wk_session (wr_worker r agent)) then (the own, None)
      else (next_generation r, map_option snd (wk_session (wr_worker r agent))))"
  by (auto simp: attach_def Let_def split: option.splits)

lemma attach_generation:
  "wr_generation (snd (attach agent s own r)) =
     (if own \<noteq> None \<and> own = map_option fst (wk_session (wr_worker r agent)) then wr_generation r
      else next_generation r)"
  by (auto simp: attach_def Let_def split: option.splits)

lemma generations_ok_attach:
  assumes "generations_ok r" "wr_generation r + 1 < 2 ^ 64"
  shows "generations_ok (snd (attach agent s own r))"
proof -
  have n: "next_generation r = wr_generation r + 1"
    using assms(2) by (rule next_generation_small)
  have d: "wk_session (wr_worker r agent) = Some (g, t) \<Longrightarrow> 0 < g \<and> g \<le> wr_generation r" for g t
    using assms(1) by (auto simp: generations_ok_def wr_worker_get worker_default_def split: option.splits)
  show ?thesis
    unfolding generations_ok_def
  proof (intro allI impI)
    fix a w g t
    assume a: "wr_get (snd (attach agent s own r)) a = Some w \<and> wk_session w = Some (g, t)"
    have old: "0 < g \<and> g \<le> wr_generation r" if "wr_get r a = Some w"
      using assms(1) a that unfolding generations_ok_def by blast
    from a old d show "0 < g \<and> g \<le> wr_generation (snd (attach agent s own r))"
      by (auto simp: wr_get_attach attach_generation n Let_def intro: le_SucI split: if_splits)
  qed
qed

lemma generations_ok_keep:
  assumes "generations_ok r" "wr_generation r' = wr_generation r"
    and "\<And>a w. wr_get r' a = Some w \<Longrightarrow> wk_session w = None \<or> (\<exists>v. wr_get r a = Some v \<and> wk_session w = wk_session v)"
  shows "generations_ok r'"
  using assms unfolding generations_ok_def by (metis option.distinct(1))

section \<open>Settled names\<close>

text \<open>No link of a registered agent names a registered agent by another spelling.\<close>

definition link_settled :: "registry \<Rightarrow> link_key \<Rightarrow> bool" where
  "link_settled r l \<longleftrightarrow> (\<forall>b \<in> set (agents r). name_key b = name_key (lk_to l) \<longrightarrow> lk_to l = b)"

definition names_settled :: "registry \<Rightarrow> bool" where
  "names_settled r \<longleftrightarrow> (\<forall>a w. wr_get r a = Some w \<longrightarrow> (\<forall>l \<in> set (wk_links w). link_settled r l))"

definition distinct_names :: "string \<Rightarrow> registry \<Rightarrow> bool" where
  "distinct_names agent r \<longleftrightarrow> inj_on name_key (insert agent (set (agents r)))"

lemma set_agents_register:
  "set (agents (snd (register_worker agent links rid rids lb r))) = insert agent (set (agents r))"
proof -
  have "x \<in> set (agents q) \<longleftrightarrow> wr_get q x \<noteq> None" for x q
    unfolding agents_def wr_get_def set_map by (rule hm_keys)
  then show ?thesis by (auto simp: wr_get_register split: if_splits)
qed

lemma settle_to_settled:
  assumes "distinct_names agent r" "b \<in> insert agent (set (agents r))"
    and "name_key b = name_key (lk_to (settle_to (agents r) agent l))"
  shows "lk_to (settle_to (agents r) agent l) = b"
proof (cases "find (\<lambda>k. name_key k = name_key (lk_to l)) (agents r)")
  case None
  then have b: "b = agent" if "name_key b = name_key (lk_to l)"
    using assms(2) that unfolding find_None_iff by blast
  show ?thesis
  proof (cases "name_key (lk_to l) = name_key agent")
    case True
    with None have "lk_to (settle_to (agents r) agent l) = agent" by (simp add: settle_to_def)
    with assms(3) b True show ?thesis by simp
  next
    case False
    with None have "settle_to (agents r) agent l = l" by (simp add: settle_to_def)
    with assms(3) b False show ?thesis by simp
  qed
next
  case (Some k)
  then have k: "k \<in> set (agents r)" by (auto simp: find_Some_iff)
  have t: "lk_to (settle_to (agents r) agent l) = k" using Some by (simp add: settle_to_def)
  have "k = b"
    by (rule inj_onD [OF assms(1) [unfolded distinct_names_def]]) (use assms(2,3) t k in simp_all)
  with t show ?thesis by simp
qed

lemma rename_towards_settled:
  assumes "distinct_names agent r" "link_settled r l" "b \<in> insert agent (set (agents r))"
    and "name_key b = name_key (lk_to (rename_towards agent l))"
  shows "lk_to (rename_towards agent l) = b"
proof (cases "name_key (lk_to l) = name_key agent")
  case True
  then have t: "lk_to (rename_towards agent l) = agent" by (simp add: rename_towards_def)
  have "agent = b"
    by (rule inj_onD [OF assms(1) [unfolded distinct_names_def]]) (use assms(3,4) t in simp_all)
  with t show ?thesis by simp
next
  case False
  then have "rename_towards agent l = l" by (simp add: rename_towards_def)
  with False assms(2-4) show ?thesis by (auto simp: link_settled_def)
qed

section \<open>Properties\<close>

text \<open>A registration is a clean slate: the agent's links are exactly the reported ones with
  settled names, every cost counts as unsent and may be sent at once, the last issue and the
  commands in flight survive only for links still reported, the session is kept, and the call
  returns true exactly when some link is new.\<close>

theorem register_clean_slate:
  "(let w = wr_worker r agent; r' = snd (register_worker agent links rid rids lb r); w' = wr_worker r' agent;
        new = map (settle_to (agents r) agent) links
    in links_of r' agent = new \<and> wk_session w' = wk_session w
      \<and> apply_due agent l cost now r'
      \<and> wk_in_flight w' = {s \<in> wk_in_flight w. fst s \<in> link_id ` set new}
      \<and> fst (register_worker agent links rid rids lb r) = (\<exists>l \<in> set new. l \<notin> set (wk_links w)))"
proof -
  let ?r' = "snd (register_worker agent links rid rids lb r)"
  have g: "wr_get ?r' agent = Some (wr_worker ?r' agent)"
    by (simp add: wr_worker_get wr_get_register)
  have f: "fst (register_worker agent links rid rids lb r)
      = (\<exists>l \<in> set (map (settle_to (agents r) agent) links). l \<notin> set (wk_links (wr_worker r agent)))"
  proof -
    have "wr_worker (r\<lparr>wr_inner := rename_others agent (wr_inner r)\<rparr>) agent = wr_worker r agent"
      by (simp add: wr_worker_def hm_get_rename_others split: option.splits)
    then show ?thesis by (simp add: register_worker_def Let_def agents_def list_ex_iff)
  qed
  have l: "links_of ?r' agent = wk_links (wr_worker ?r' agent)"
    and a: "apply_due agent l cost now ?r' \<longleftrightarrow> hm_get (wk_applied_sent (wr_worker ?r' agent)) (link_id l) \<noteq> Some cost
      \<and> opt_all (\<lambda>t. t \<le> now) (hm_get (wk_apply_retry_at (wr_worker ?r' agent)) (link_id l))"
    using g by (simp_all add: links_of_def apply_due_def wr_get_def)
  show ?thesis unfolding Let_def f l a
    by (auto simp: wr_worker_get wr_get_register)
qed

text \<open>A link's far end is spelled the way the peer registers, whichever side registers
  first: when no two agents fold to the same name, a registration leaves no link of any agent
  naming a registered agent by another spelling.\<close>

theorem register_settles_names:
  assumes "names_settled r" "distinct_names agent r"
  shows "names_settled (snd (register_worker agent links rid rids lb r))"
  unfolding names_settled_def link_settled_def set_agents_register
  using settle_to_settled [OF assms(2)] rename_towards_settled [OF assms(2)] assms(1)
  by (auto simp: wr_get_register names_settled_def split: if_splits)

text \<open>Closing a superseded session never evicts the agent: a new connection gets a
  generation of its own, and detaching with any generation handed out before leaves the
  registry untouched, while detaching with the new one forgets the agent.\<close>

theorem superseded_detach_is_noop:
  assumes "generations_ok r" "wr_generation r + 1 < 2 ^ 64"
    and "own \<noteq> map_option fst (wk_session (wr_worker r agent)) \<or> own = None"
    and "old \<le> wr_generation r"
  shows "let (res, r') = attach agent s own r; g = fst res in
     generations_ok r' \<and> session_of r' agent = Some s
     \<and> detach agent old r' = (False, r') \<and> fst (detach agent g r')
     \<and> \<not> has_agent (snd (detach agent g r')) agent"
proof -
  let ?r' = "snd (attach agent s own r)"
  have n: "next_generation r = wr_generation r + 1"
    using assms(2) by (rule next_generation_small)
  have g: "fst (fst (attach agent s own r)) = wr_generation r + 1"
    and w: "wr_get ?r' agent = Some ((wr_worker r agent)
      \<lparr>wk_session := Some (wr_generation r + 1, s), wk_in_flight := {}\<rparr>)"
    using assms(3) by (auto simp: attach_result wr_get_attach n Let_def)
  have "session_of ?r' agent = Some s"
    using w by (simp add: session_of_def wr_get_def)
  moreover have "detach agent old ?r' = (False, ?r')"
    using w assms(4) by (simp add: detach_def wr_get_def)
  moreover have "fst (detach agent (wr_generation r + 1) ?r')"
    using w by (simp add: detach_def wr_get_def)
  moreover have "wr_get (snd (detach agent (wr_generation r + 1) ?r')) agent = None"
    using w by (simp add: wr_get_detach)
  ultimately show ?thesis
    using generations_ok_attach [OF assms(1,2), of agent s own]
    by (simp add: split_beta Let_def g) (simp add: has_agent_def hm_has_def wr_get_def)
qed

text \<open>A rejected cost backs off and is then retried: after a failed apply at time \<open>t\<close> no
  cost is due on the link before \<open>t + 30\<close>, every cost is due from then on, and a cost that was
  sent is due again only when it changes.\<close>

theorem apply_backoff:
  assumes "has_agent r agent" "t + apply_retry_secs < 2 ^ 64"
  shows "(apply_due agent l cost now (note_apply_failed agent l t r) \<longleftrightarrow> t + apply_retry_secs \<le> now)
    \<and> (apply_due agent l cost now (set_applied_sent agent l sent r) \<longleftrightarrow> cost \<noteq> sent)"
proof -
  obtain w where "hm_get (wr_inner r) agent = Some w"
    using assms(1) by (auto simp: has_agent_def hm_has_def)
  with assms(2) show ?thesis
    by (auto simp: apply_due_def note_apply_failed_def set_applied_sent_def wr_modify_def add64_small)
qed


section \<open>Witnesses\<close>

definition reg_a :: registry where
  "reg_a = snd (register_worker ''hub-a'' [new_link ''hub-a'' ''hub.b'' ''awg0''] None [] None registry_new)"

lemma names_settled_new: "names_settled registry_new"
  by (simp add: names_settled_def registry_new_def wr_get_def)

lemma generations_ok_new: "generations_ok registry_new"
  by (simp add: generations_ok_def registry_new_def wr_get_def)

theorem register_settles_names_witness:
  "names_settled (snd (register_worker ''hub-b'' [] None [] None reg_a))
    \<and> links_of (snd (register_worker ''hub-b'' [] None [] None reg_a)) ''hub-a''
      = [new_link ''hub-a'' ''hub-b'' ''awg0'']"
proof -
  have a: "agents reg_a = [''hub-a'']" by code_simp
  have "name_key ''hub-a'' \<noteq> name_key ''hub-b''" by code_simp
  then have "distinct_names ''hub-b'' reg_a" by (simp add: distinct_names_def a)
  moreover have "distinct_names ''hub-a'' registry_new"
    by (simp add: distinct_names_def agents_def registry_new_def)
  then have "names_settled reg_a"
    unfolding reg_a_def by (rule register_settles_names [OF names_settled_new])
  moreover have "links_of (snd (register_worker ''hub-b'' [] None [] None reg_a)) ''hub-a''
      = [new_link ''hub-a'' ''hub-b'' ''awg0'']" by code_simp
  ultimately show ?thesis by (blast intro: register_settles_names)
qed

theorem superseded_detach_is_noop_witness:
  "let (res, r') = attach ''hub-a'' 7 None registry_new; g = fst res in
     generations_ok r' \<and> session_of r' ''hub-a'' = Some 7
     \<and> detach ''hub-a'' 0 r' = (False, r') \<and> fst (detach ''hub-a'' g r')
     \<and> \<not> has_agent (snd (detach ''hub-a'' g r')) ''hub-a''"
  by (rule superseded_detach_is_noop) (simp_all add: generations_ok_new, simp add: registry_new_def)

theorem apply_backoff_witness:
  "(apply_due ''hub-a'' (new_link ''hub-a'' ''hub.b'' ''awg0'') 20 129
      (note_apply_failed ''hub-a'' (new_link ''hub-a'' ''hub.b'' ''awg0'') 100 reg_a)
      \<longleftrightarrow> 100 + apply_retry_secs \<le> 129)
    \<and> (apply_due ''hub-a'' (new_link ''hub-a'' ''hub.b'' ''awg0'') 20 129
      (set_applied_sent ''hub-a'' (new_link ''hub-a'' ''hub.b'' ''awg0'') 10 reg_a) \<longleftrightarrow> (20::nat) \<noteq> 10)"
proof (rule apply_backoff)
  show "has_agent reg_a ''hub-a''" by code_simp
  show "100 + apply_retry_secs < 2 ^ 64" by (simp add: apply_retry_secs_def)
qed

end
