(* ===== verification/Sample.thy ===== *)
theory Sample
  imports Proto
begin

text \<open>
  Samples and aggregate buckets of the time-series store (the first half of
  \<open>crates/controller/src/tsdb.rs\<close>): \<open>RawSample\<close> with the same-second merge and its
  constructors, \<open>DimAgg\<close>, \<open>Bucket\<close> and the views of the query interface. \<open>f32\<close> fields hold
  binary32 values.
\<close>

section \<open>Codes\<close>

fun state_code :: "probe_state \<Rightarrow> nat" where
  "state_code Quiet = 0"
| "state_code Busy = 1"
| "state_code Conflict = 2"

definition code_to_state :: "nat \<Rightarrow> probe_state" where
  "code_to_state c = (if c = 0 then Quiet else if c = 1 then Busy else Conflict)"

lemma code_to_state_code [simp]: "code_to_state (state_code s) = s"
  by (cases s) (simp_all add: code_to_state_def)

definition bucket_secs :: nat where
  "bucket_secs = 60"

definition raw_ring_cap :: nat where
  "raw_ring_cap = (7200 * 3) div 15 + 7200 div 10"

definition delta_limit :: nat where
  "delta_limit = 2000"

section \<open>Raw samples\<close>

record raw_sample =
  rs_ts :: nat
  rs_rtt_ms :: "f32 option"
  rs_loss_pct :: "f32 option"
  rs_jitter_ms :: "f32 option"
  rs_tcp_mbps :: "f32 option"
  rs_udp_mbps :: "f32 option"
  rs_udp_jitter_ms :: "f32 option"
  rs_udp_loss_pct :: "f32 option"
  rs_util_mbps :: f32
  rs_state :: nat
  rs_mark_n :: "nat option"
  rs_mark_secs :: "nat option"
  rs_mark_tx_s :: "nat option"
  rs_mark_tx_l :: "nat option"
  rs_mark_rx_s :: "nat option"
  rs_mark_rx_l :: "nat option"
  rs_mark_tx_bytes :: "nat option"
  rs_mark_rx_bytes :: "nat option"
  rs_mark_flags :: "nat option"
  rs_mark_loss_pct :: "f32 option"
  rs_mark_rate_mbps :: "f32 option"

definition raw_sample_default :: raw_sample where
  "raw_sample_default = \<lparr>rs_ts = 0, rs_rtt_ms = None, rs_loss_pct = None, rs_jitter_ms = None,
     rs_tcp_mbps = None, rs_udp_mbps = None, rs_udp_jitter_ms = None, rs_udp_loss_pct = None,
     rs_util_mbps = Fin 0, rs_state = 0, rs_mark_n = None, rs_mark_secs = None, rs_mark_tx_s = None,
     rs_mark_tx_l = None, rs_mark_rx_s = None, rs_mark_rx_l = None, rs_mark_tx_bytes = None,
     rs_mark_rx_bytes = None, rs_mark_flags = None, rs_mark_loss_pct = None,
     rs_mark_rate_mbps = None\<rparr>"

definition mark_reset :: nat where "mark_reset = 1"
definition mark_under_test :: nat where "mark_under_test = 2"

definition merged_with :: "raw_sample \<Rightarrow> raw_sample \<Rightarrow> raw_sample" where
  "merged_with a b = \<lparr>rs_ts = rs_ts a,
     rs_rtt_ms = opt_or (rs_rtt_ms b) (rs_rtt_ms a),
     rs_loss_pct = opt_or (rs_loss_pct b) (rs_loss_pct a),
     rs_jitter_ms = opt_or (rs_jitter_ms b) (rs_jitter_ms a),
     rs_tcp_mbps = opt_or (rs_tcp_mbps b) (rs_tcp_mbps a),
     rs_udp_mbps = opt_or (rs_udp_mbps b) (rs_udp_mbps a),
     rs_udp_jitter_ms = opt_or (rs_udp_jitter_ms b) (rs_udp_jitter_ms a),
     rs_udp_loss_pct = opt_or (rs_udp_loss_pct b) (rs_udp_loss_pct a),
     rs_util_mbps = f_max (rs_util_mbps a) (rs_util_mbps b),
     rs_state = max (rs_state a) (rs_state b),
     rs_mark_n = opt_or (rs_mark_n b) (rs_mark_n a),
     rs_mark_secs = opt_or (rs_mark_secs b) (rs_mark_secs a),
     rs_mark_tx_s = opt_or (rs_mark_tx_s b) (rs_mark_tx_s a),
     rs_mark_tx_l = opt_or (rs_mark_tx_l b) (rs_mark_tx_l a),
     rs_mark_rx_s = opt_or (rs_mark_rx_s b) (rs_mark_rx_s a),
     rs_mark_rx_l = opt_or (rs_mark_rx_l b) (rs_mark_rx_l a),
     rs_mark_tx_bytes = opt_or (rs_mark_tx_bytes b) (rs_mark_tx_bytes a),
     rs_mark_rx_bytes = opt_or (rs_mark_rx_bytes b) (rs_mark_rx_bytes a),
     rs_mark_flags = opt_or (rs_mark_flags b) (rs_mark_flags a),
     rs_mark_loss_pct = opt_or (rs_mark_loss_pct b) (rs_mark_loss_pct a),
     rs_mark_rate_mbps = opt_or (rs_mark_rate_mbps b) (rs_mark_rate_mbps a)\<rparr>"

text \<open>The derived \<open>PartialEq\<close>: floats compare as IEEE values, so NaN differs from itself.\<close>

fun opt_f_eq :: "flt option \<Rightarrow> flt option \<Rightarrow> bool" where
  "opt_f_eq None None = True"
| "opt_f_eq (Some x) (Some y) = f_eq x y"
| "opt_f_eq _ _ = False"

definition sample_eq :: "raw_sample \<Rightarrow> raw_sample \<Rightarrow> bool" where
  "sample_eq a b \<longleftrightarrow> rs_ts a = rs_ts b \<and> opt_f_eq (rs_rtt_ms a) (rs_rtt_ms b)
     \<and> opt_f_eq (rs_loss_pct a) (rs_loss_pct b) \<and> opt_f_eq (rs_jitter_ms a) (rs_jitter_ms b)
     \<and> opt_f_eq (rs_tcp_mbps a) (rs_tcp_mbps b) \<and> opt_f_eq (rs_udp_mbps a) (rs_udp_mbps b)
     \<and> opt_f_eq (rs_udp_jitter_ms a) (rs_udp_jitter_ms b)
     \<and> opt_f_eq (rs_udp_loss_pct a) (rs_udp_loss_pct b) \<and> f_eq (rs_util_mbps a) (rs_util_mbps b)
     \<and> rs_state a = rs_state b \<and> rs_mark_n a = rs_mark_n b \<and> rs_mark_secs a = rs_mark_secs b
     \<and> rs_mark_tx_s a = rs_mark_tx_s b \<and> rs_mark_tx_l a = rs_mark_tx_l b
     \<and> rs_mark_rx_s a = rs_mark_rx_s b \<and> rs_mark_rx_l a = rs_mark_rx_l b
     \<and> rs_mark_tx_bytes a = rs_mark_tx_bytes b \<and> rs_mark_rx_bytes a = rs_mark_rx_bytes b
     \<and> rs_mark_flags a = rs_mark_flags b \<and> opt_f_eq (rs_mark_loss_pct a) (rs_mark_loss_pct b)
     \<and> opt_f_eq (rs_mark_rate_mbps a) (rs_mark_rate_mbps b)"

definition clamp_u32 :: "nat \<Rightarrow> nat" where
  "clamp_u32 v = (if v \<le> u32_max then v else u32_max)"

definition from_block :: "mark_block \<Rightarrow> raw_sample option" where
  "from_block b =
     (if mb_secs b = 0 then None
      else Some (raw_sample_default\<lparr>rs_ts := mul64 (mb_n b) (mb_secs b),
        rs_mark_n := Some (mb_n b), rs_mark_secs := Some (mb_secs b),
        rs_mark_tx_s := Some (clamp_u32 (mb_tx_pkts_s b)), rs_mark_tx_l := Some (clamp_u32 (mb_tx_pkts_l b)),
        rs_mark_rx_s := Some (clamp_u32 (mb_rx_pkts_s b)), rs_mark_rx_l := Some (clamp_u32 (mb_rx_pkts_l b)),
        rs_mark_tx_bytes := Some (mb_tx_bytes b), rs_mark_rx_bytes := Some (mb_rx_bytes b),
        rs_mark_flags := Some (of_bool (mb_reset b) * mark_reset
          + of_bool (mb_under_test b) * mark_under_test)\<rparr>))"

definition block_result :: "nat \<Rightarrow> f64 \<Rightarrow> f64 \<Rightarrow> raw_sample" where
  "block_result ts loss rate = raw_sample_default\<lparr>rs_ts := ts,
     rs_mark_loss_pct := Some (to_f32 loss), rs_mark_rate_mbps := Some (to_f32 rate)\<rparr>"

definition is_block :: "raw_sample \<Rightarrow> bool" where
  "is_block s \<longleftrightarrow> rs_mark_n s \<noteq> None"

definition is_probe :: "raw_sample \<Rightarrow> bool" where
  "is_probe s \<longleftrightarrow> rs_rtt_ms s \<noteq> None \<or> rs_loss_pct s \<noteq> None \<or> rs_jitter_ms s \<noteq> None
     \<or> rs_tcp_mbps s \<noteq> None \<or> rs_udp_mbps s \<noteq> None \<or> rs_udp_loss_pct s \<noteq> None
     \<or> (rs_mark_n s = None \<and> rs_mark_loss_pct s = None)"

definition opt_finite :: "f64 option \<Rightarrow> f32 option" where
  "opt_finite v = (case v of Some x \<Rightarrow> if is_finite x then Some (to_f32 x) else None | None \<Rightarrow> None)"

definition from_dims ::
  "probe_state \<Rightarrow> nat \<Rightarrow> f64 option \<Rightarrow> f64 option \<Rightarrow> f64 option \<Rightarrow> f64 option \<Rightarrow> f64 \<Rightarrow> raw_sample" where
  "from_dims st ts rtt loss jitter tcp util = raw_sample_default\<lparr>rs_ts := ts,
     rs_rtt_ms := opt_finite rtt, rs_loss_pct := opt_finite loss, rs_jitter_ms := opt_finite jitter,
     rs_tcp_mbps := opt_finite tcp, rs_util_mbps := to_f32 util, rs_state := state_code st\<rparr>"

definition with_udp :: "raw_sample \<Rightarrow> f64 option \<Rightarrow> f64 option \<Rightarrow> f64 option \<Rightarrow> raw_sample" where
  "with_udp s mbps jitter loss = s\<lparr>rs_udp_mbps := opt_finite mbps,
     rs_udp_jitter_ms := opt_finite jitter, rs_udp_loss_pct := opt_finite loss\<rparr>"

section \<open>Aggregates\<close>

record dim_agg =
  da_n :: nat
  da_sum :: f64
  da_min :: f32
  da_max :: f32

definition dim_agg_default :: dim_agg where
  "dim_agg_default = \<lparr>da_n = 0, da_sum = Fin 0, da_min = Fin 0, da_max = Fin 0\<rparr>"

definition da_merge :: "f32 \<Rightarrow> dim_agg \<Rightarrow> dim_agg" where
  "da_merge v a =
     (if da_n a = 0 then \<lparr>da_n = 1, da_sum = of_f32 v, da_min = v, da_max = v\<rparr>
      else \<lparr>da_n = add32 (da_n a) 1, da_sum = f_add (da_sum a) (of_f32 v),
        da_min = f_min (da_min a) v, da_max = f_max (da_max a) v\<rparr>)"

definition da_avg :: "dim_agg \<Rightarrow> f32 option" where
  "da_avg a = (if 0 < da_n a then Some (to_f32 (f_div (da_sum a) (f_of_nat (da_n a)))) else None)"

record dim_view =
  dv_n :: nat
  dv_min :: f32
  dv_avg :: f32
  dv_max :: f32

definition da_view :: "dim_agg \<Rightarrow> dim_view option" where
  "da_view a = (if 0 < da_n a
     then Some \<lparr>dv_n = da_n a, dv_min = da_min a,
       dv_avg = (case da_avg a of Some x \<Rightarrow> x | None \<Rightarrow> Fin 0), dv_max = da_max a\<rparr> else None)"

record bucket =
  bk_bucket :: nat
  bk_n :: nat
  bk_rtt :: dim_agg
  bk_loss :: dim_agg
  bk_jitter :: dim_agg
  bk_tcp :: dim_agg
  bk_udp :: dim_agg
  bk_udp_jitter :: dim_agg
  bk_udp_loss :: dim_agg
  bk_util :: dim_agg
  bk_mark_loss :: dim_agg
  bk_mark_rate :: dim_agg

definition bucket_default :: bucket where
  "bucket_default = \<lparr>bk_bucket = 0, bk_n = 0, bk_rtt = dim_agg_default, bk_loss = dim_agg_default,
     bk_jitter = dim_agg_default, bk_tcp = dim_agg_default, bk_udp = dim_agg_default,
     bk_udp_jitter = dim_agg_default, bk_udp_loss = dim_agg_default, bk_util = dim_agg_default,
     bk_mark_loss = dim_agg_default, bk_mark_rate = dim_agg_default\<rparr>"

text \<open>\<open>if let (Some(v), None) = (s.x, already.x)\<close>: fold in a dimension that is new.\<close>

definition fold_new :: "f32 option \<Rightarrow> f32 option \<Rightarrow> dim_agg \<Rightarrow> dim_agg" where
  "fold_new new old a = (case (new, old) of (Some v, None) \<Rightarrow> da_merge v a | _ \<Rightarrow> a)"

definition add_dims :: "raw_sample \<Rightarrow> raw_sample \<Rightarrow> bucket \<Rightarrow> bucket" where
  "add_dims s al b = b\<lparr>
     bk_rtt := fold_new (rs_rtt_ms s) (rs_rtt_ms al) (bk_rtt b),
     bk_loss := fold_new (rs_loss_pct s) (rs_loss_pct al) (bk_loss b),
     bk_jitter := fold_new (rs_jitter_ms s) (rs_jitter_ms al) (bk_jitter b),
     bk_tcp := fold_new (rs_tcp_mbps s) (rs_tcp_mbps al) (bk_tcp b),
     bk_udp := fold_new (rs_udp_mbps s) (rs_udp_mbps al) (bk_udp b),
     bk_udp_jitter := fold_new (rs_udp_jitter_ms s) (rs_udp_jitter_ms al) (bk_udp_jitter b),
     bk_udp_loss := fold_new (rs_udp_loss_pct s) (rs_udp_loss_pct al) (bk_udp_loss b),
     bk_mark_loss := fold_new (rs_mark_loss_pct s) (rs_mark_loss_pct al) (bk_mark_loss b),
     bk_mark_rate := fold_new (rs_mark_rate_mbps s) (rs_mark_rate_mbps al) (bk_mark_rate b)\<rparr>"

definition bucket_ts_of :: "nat \<Rightarrow> nat" where
  "bucket_ts_of ts = ts - ts mod bucket_secs"

definition count_probe :: "raw_sample \<Rightarrow> bucket \<Rightarrow> bucket" where
  "count_probe s b = b\<lparr>bk_n := add32 (bk_n b) 1, bk_util := da_merge (rs_util_mbps s) (bk_util b)\<rparr>"

definition bk_add :: "raw_sample \<Rightarrow> bucket \<Rightarrow> bucket" where
  "bk_add s b0 =
     (let b = b0\<lparr>bk_bucket := bucket_ts_of (rs_ts s)\<rparr>
      in add_dims s raw_sample_default (if is_probe s then count_probe s b else b))"

definition bk_merge_into :: "raw_sample \<Rightarrow> raw_sample \<Rightarrow> bucket \<Rightarrow> bucket" where
  "bk_merge_into s al b =
     add_dims s al (if is_probe s \<and> \<not> is_probe al then count_probe s b else b)"

record bucket_view =
  bv_ts :: nat
  bv_n :: nat
  bv_rtt :: "dim_view option"
  bv_loss :: "dim_view option"
  bv_jitter :: "dim_view option"
  bv_tcp :: "dim_view option"
  bv_udp :: "dim_view option"
  bv_udp_jitter :: "dim_view option"
  bv_udp_loss :: "dim_view option"
  bv_util :: dim_view
  bv_mark_loss :: "dim_view option"
  bv_mark_rate :: "dim_view option"

definition bucket_to_view :: "bucket \<Rightarrow> bucket_view" where
  "bucket_to_view b = \<lparr>bv_ts = bk_bucket b, bv_n = bk_n b, bv_rtt = da_view (bk_rtt b),
     bv_loss = da_view (bk_loss b), bv_jitter = da_view (bk_jitter b), bv_tcp = da_view (bk_tcp b),
     bv_udp = da_view (bk_udp b), bv_udp_jitter = da_view (bk_udp_jitter b),
     bv_udp_loss = da_view (bk_udp_loss b),
     bv_util = (case da_view (bk_util b) of Some v \<Rightarrow> v
       | None \<Rightarrow> \<lparr>dv_n = 0, dv_min = Fin 0, dv_avg = Fin 0, dv_max = Fin 0\<rparr>),
     bv_mark_loss = da_view (bk_mark_loss b), bv_mark_rate = da_view (bk_mark_rate b)\<rparr>"


section \<open>The same-second merge\<close>

lemma opt_or_absorb [simp]: "opt_or b (opt_or b a) = opt_or b a"
  by (cases b) auto

lemma f_max_absorb [simp]: "f_max (f_max x y) y = f_max x y"
  by (auto simp: f_max_def dest: f_lt_asym)

lemma merged_with_resend: "merged_with (merged_with a b) b = merged_with a b"
  by (simp add: merged_with_def)

lemma merged_with_self [simp]: "merged_with a a = a"
  by (simp add: merged_with_def f_max_def)

lemma rs_ts_merged [simp]: "rs_ts (merged_with a b) = rs_ts a"
  by (simp add: merged_with_def)

definition nan_free :: "raw_sample \<Rightarrow> bool" where
  "nan_free s \<longleftrightarrow> rs_util_mbps s \<noteq> NaN \<and> NaN \<notin> \<Union> (set_option ` {rs_rtt_ms s, rs_loss_pct s,
     rs_jitter_ms s, rs_tcp_mbps s, rs_udp_mbps s, rs_udp_jitter_ms s, rs_udp_loss_pct s,
     rs_mark_loss_pct s, rs_mark_rate_mbps s})"

lemma f_eq_iff: "f_eq x y \<longleftrightarrow> x = y \<and> x \<noteq> NaN"
  by (cases x; cases y) auto

lemma opt_f_eq_iff: "opt_f_eq x y \<longleftrightarrow> x = y \<and> NaN \<notin> set_option x"
  by (cases x; cases y) (auto simp: f_eq_iff)

lemma sample_eq_iff: "sample_eq a b \<longleftrightarrow> a = b \<and> nan_free a"
  unfolding sample_eq_def nan_free_def opt_f_eq_iff f_eq_iff
  by (cases a; cases b) auto

lemma f_max_not_NaN: "x \<noteq> NaN \<Longrightarrow> f_max x y \<noteq> NaN"
  by (auto simp: f_max_def)

lemma nan_free_merged: "nan_free a \<Longrightarrow> nan_free b \<Longrightarrow> nan_free (merged_with a b)"
  by (auto simp: nan_free_def merged_with_def f_max_not_NaN opt_or_def split: option.splits)

section \<open>Dimensions\<close>

text \<open>The nine aggregated dimensions, to state facts about a bucket once.\<close>

datatype dim = DRtt | DLoss | DJitter | DTcp | DUdp | DUdpJitter | DUdpLoss | DMarkLoss | DMarkRate

fun dim_of :: "dim \<Rightarrow> raw_sample \<Rightarrow> f32 option" where
  "dim_of DRtt s = rs_rtt_ms s"
| "dim_of DLoss s = rs_loss_pct s"
| "dim_of DJitter s = rs_jitter_ms s"
| "dim_of DTcp s = rs_tcp_mbps s"
| "dim_of DUdp s = rs_udp_mbps s"
| "dim_of DUdpJitter s = rs_udp_jitter_ms s"
| "dim_of DUdpLoss s = rs_udp_loss_pct s"
| "dim_of DMarkLoss s = rs_mark_loss_pct s"
| "dim_of DMarkRate s = rs_mark_rate_mbps s"

fun agg_of :: "dim \<Rightarrow> bucket \<Rightarrow> dim_agg" where
  "agg_of DRtt b = bk_rtt b"
| "agg_of DLoss b = bk_loss b"
| "agg_of DJitter b = bk_jitter b"
| "agg_of DTcp b = bk_tcp b"
| "agg_of DUdp b = bk_udp b"
| "agg_of DUdpJitter b = bk_udp_jitter b"
| "agg_of DUdpLoss b = bk_udp_loss b"
| "agg_of DMarkLoss b = bk_mark_loss b"
| "agg_of DMarkRate b = bk_mark_rate b"

lemma dim_of_merged: "dim_of d (merged_with a b) = opt_or (dim_of d b) (dim_of d a)"
  by (cases d) (simp_all add: merged_with_def)

lemma dim_of_default [simp]: "dim_of d raw_sample_default = None"
  by (cases d) (simp_all add: raw_sample_default_def)

lemma agg_of_default [simp]: "agg_of d bucket_default = dim_agg_default"
  by (cases d) (simp_all add: bucket_default_def)

lemma agg_of_add_dims:
  "agg_of d (add_dims s al b) = fold_new (dim_of d s) (dim_of d al) (agg_of d b)"
  by (cases d) (simp_all add: add_dims_def)

lemma agg_of_count_probe [simp]: "agg_of d (count_probe s b) = agg_of d b"
  by (cases d) (simp_all add: count_probe_def)

lemma agg_of_bk_bucket [simp]: "agg_of d (b\<lparr>bk_bucket := t\<rparr>) = agg_of d b"
  by (cases d) simp_all

lemma agg_of_bk_add: "agg_of d (bk_add s b) = fold_new (dim_of d s) None (agg_of d b)"
  by (simp add: bk_add_def agg_of_add_dims Let_def)

lemma agg_of_bk_merge_into:
  "agg_of d (bk_merge_into s al b) = fold_new (dim_of d s) (dim_of d al) (agg_of d b)"
  by (simp add: bk_merge_into_def agg_of_add_dims)

lemma bk_bucket_simps [simp]:
  "bk_bucket (add_dims s al b) = bk_bucket b"
  "bk_bucket (count_probe s b) = bk_bucket b"
  "bk_bucket (bk_add s b) = bucket_ts_of (rs_ts s)"
  "bk_bucket (bk_merge_into s al b) = bk_bucket b"
  by (simp_all add: add_dims_def count_probe_def bk_add_def bk_merge_into_def Let_def)

lemma da_n_merge: "da_n a + 1 < 2 ^ 32 \<Longrightarrow> da_n (da_merge v a) = da_n a + 1"
  by (simp add: da_merge_def add32_def)

lemma da_n_fold_new:
  "da_n a + 1 < 2 ^ 32 \<Longrightarrow> da_n (fold_new new old a)
    = (if new \<noteq> None \<and> old = None then da_n a + 1 else da_n a)"
  by (auto simp: fold_new_def da_n_merge split: option.splits)

lemma bucket_ts_of_le: "bucket_ts_of t \<le> t"
  by (simp add: bucket_ts_of_def)

end
