(* ===== verification/Tsdb.thy ===== *)
theory Tsdb
  imports Sample Quality
begin

text \<open>
  The replicated time-series store (\<open>crates/controller/src/tsdb.rs\<close>, the \<open>Store\<close> trait of
  \<open>store.rs\<close>): per link a ring of raw samples sorted by time with a replay floor, a ring of
  minute buckets, the log of changes gossip reads from, and the queues of the durable copy.

  Each of the store's fields has its own lock. \<open>ingest_store\<close> is the part of \<open>ingest\<close> up to the
  allocation of the sequence number and \<open>publish\<close> the push to the change log; the composition
  \<open>ingest\<close> is the call when no other thread runs in between. The embedded database is not
  modelled: \<open>load\<close> takes the decoded rows its tables yield in key order, \<open>flush\<close> returns the
  row operations of the transaction.
\<close>

section \<open>State\<close>

record ring =
  rg_samples :: "raw_sample list"
  rg_floor :: nat

definition ring_default :: ring where
  "ring_default = \<lparr>rg_samples = [], rg_floor = 0\<rparr>"

record tsdb =
  td_cfg :: ts_cfg
  td_seq :: nat
  td_by_link :: "(link_key, ring) hmap"
  td_buckets :: "(link_key, bucket list) hmap"
  td_recent :: "(nat \<times> link_key \<times> raw_sample) list"
  td_sent :: "(string, nat) hmap"
  td_pending :: "(link_key \<times> raw_sample) list"
  td_dirty :: "(link_key \<times> nat, bucket) hmap"
  td_open :: bool

definition tsdb_empty :: "ts_cfg \<Rightarrow> tsdb" where
  "tsdb_empty cfg = \<lparr>td_cfg = cfg, td_seq = 1, td_by_link = [], td_buckets = [], td_recent = [],
     td_sent = [], td_pending = [], td_dirty = [], td_open = False\<rparr>"

section \<open>Ingest\<close>

text \<open>The ring after a sample, and what entered it: the stored sample and, for a same-second
  merge, the version it replaced. \<open>None\<close> is the early return.\<close>

definition ring_merge :: "nat \<Rightarrow> raw_sample \<Rightarrow> raw_sample \<Rightarrow> ring
    \<Rightarrow> (raw_sample \<times> raw_sample option) option \<times> ring" where
  "ring_merge pos at_pos s r =
     (let merged = merged_with at_pos s
      in if sample_eq merged at_pos then (None, r)
         else (Some (merged, Some at_pos), r\<lparr>rg_samples := (rg_samples r)[pos := merged]\<rparr>))"

definition ring_insert :: "nat \<Rightarrow> raw_sample \<Rightarrow> ring
    \<Rightarrow> (raw_sample \<times> raw_sample option) option \<times> ring" where
  "ring_insert pos s r =
     (if pos = 0 \<and> raw_ring_cap \<le> length (rg_samples r) then (None, r)
      else let xs = insert_at pos s (rg_samples r)
           in (Some (s, None),
               if raw_ring_cap < length xs
               then \<lparr>rg_samples = tl xs, rg_floor = max (rg_floor r) (rs_ts (hd xs))\<rparr>
               else r\<lparr>rg_samples := xs\<rparr>))"

definition ring_ingest :: "raw_sample \<Rightarrow> ring
    \<Rightarrow> (raw_sample \<times> raw_sample option) option \<times> ring" where
  "ring_ingest s r =
     (if rs_ts s \<le> rg_floor r then (None, r)
      else let pos = partition_point (\<lambda>x. rs_ts x < rs_ts s) (rg_samples r)
           in case seq_get (rg_samples r) pos of
                Some a \<Rightarrow> if rs_ts a = rs_ts s then ring_merge pos a s r else ring_insert pos s r
              | None \<Rightarrow> ring_insert pos s r)"

definition bucket_ingest :: "raw_sample \<Rightarrow> raw_sample option \<Rightarrow> bucket list \<Rightarrow> bucket list \<times> bucket" where
  "bucket_ingest s merged_from bs =
     (let bts = bucket_ts_of (rs_ts s);
          pos = partition_point (\<lambda>b. bk_bucket b < bts) bs;
          fresh = bk_add s bucket_default
      in case seq_get bs pos of
           Some b \<Rightarrow>
             if bk_bucket b \<noteq> bts then (insert_at pos fresh bs, fresh)
             else let b' = (case merged_from of Some prev \<Rightarrow> bk_merge_into s prev b | None \<Rightarrow> bk_add s b)
                  in (bs[pos := b'], b')
         | None \<Rightarrow> (insert_at pos fresh bs, fresh))"

definition ring_of :: "tsdb \<Rightarrow> link_key \<Rightarrow> ring" where
  "ring_of t link = (case hm_get (td_by_link t) link of Some r \<Rightarrow> r | None \<Rightarrow> ring_default)"

definition buckets_of :: "tsdb \<Rightarrow> link_key \<Rightarrow> bucket list" where
  "buckets_of t link = (case hm_get (td_buckets t) link of Some b \<Rightarrow> b | None \<Rightarrow> [])"

definition ingest_store :: "link_key \<Rightarrow> raw_sample \<Rightarrow> tsdb \<Rightarrow> (nat \<times> raw_sample) option \<times> tsdb" where
  "ingest_store link s0 t =
     (case ring_ingest s0 (ring_of t link) of
        (None, r) \<Rightarrow> (None, t\<lparr>td_by_link := hm_insert link r (td_by_link t)\<rparr>)
      | (Some (s, merged_from), r) \<Rightarrow>
          (let (bs, b) = bucket_ingest s merged_from (buckets_of t link)
           in (Some (td_seq t, s),
               t\<lparr>td_by_link := hm_insert link r (td_by_link t),
                 td_buckets := hm_insert link bs (td_buckets t),
                 td_dirty := hm_insert (link, bucket_ts_of (rs_ts s)) b (td_dirty t),
                 td_seq := add64 (td_seq t) 1\<rparr>)))"

definition publish :: "nat \<Rightarrow> link_key \<Rightarrow> raw_sample \<Rightarrow> bool \<Rightarrow> tsdb \<Rightarrow> tsdb" where
  "publish seq link s persist t =
     t\<lparr>td_recent := td_recent t @ [(seq, link, s)],
       td_pending := (if persist \<and> ts_path (td_cfg t) \<noteq> [] then td_pending t @ [(link, s)]
                      else td_pending t)\<rparr>"

definition ingest :: "link_key \<Rightarrow> raw_sample \<Rightarrow> bool \<Rightarrow> tsdb \<Rightarrow> bool \<times> tsdb" where
  "ingest link s0 persist t =
     (case ingest_store link s0 t of
        (None, t') \<Rightarrow> (False, t')
      | (Some (seq, s), t') \<Rightarrow> (True, publish seq link s persist t'))"

definition append_sample :: "link_key \<Rightarrow> raw_sample \<Rightarrow> tsdb \<Rightarrow> tsdb" where
  "append_sample link s t = snd (ingest link s True t)"

definition merge_delta :: "(link_key \<times> raw_sample) list \<Rightarrow> tsdb \<Rightarrow> tsdb" where
  "merge_delta samples t = fold (\<lambda>(link, s). append_sample link s) samples t"

section \<open>Gossip deltas\<close>

definition take_delta :: "nat \<Rightarrow> nat \<Rightarrow> tsdb \<Rightarrow> (nat \<times> link_key \<times> raw_sample) list \<times> nat" where
  "take_delta after limit t =
     (let start = partition_point (\<lambda>e. fst e \<le> after) (td_recent t);
          n = min (length (td_recent t) - start) limit;
          out = take n (drop start (td_recent t))
      in (out, if out = [] then after else fst (last out)))"

definition sent_watermark :: "tsdb \<Rightarrow> string \<Rightarrow> nat" where
  "sent_watermark t peer = (case hm_get (td_sent t) peer of Some w \<Rightarrow> w | None \<Rightarrow> 0)"

definition note_sent :: "string \<Rightarrow> nat \<Rightarrow> tsdb \<Rightarrow> tsdb" where
  "note_sent peer watermark t = t\<lparr>td_sent := hm_insert peer watermark (td_sent t)\<rparr>"

section \<open>Query\<close>

record ts_query_resp =
  tq_link :: link_key
  tq_since :: nat
  tq_until :: nat
  tq_samples :: "raw_sample list"
  tq_buckets :: "bucket_view list"

definition tsdb_query :: "tsdb \<Rightarrow> link_key \<Rightarrow> nat \<Rightarrow> nat \<Rightarrow> ts_query_resp" where
  "tsdb_query t link since until =
     \<lparr>tq_link = link, tq_since = since, tq_until = until,
      tq_samples = filter (\<lambda>s. since \<le> rs_ts s \<and> rs_ts s < until) (rg_samples (ring_of t link)),
      tq_buckets = map bucket_to_view
        (filter (\<lambda>b. since \<le> bk_bucket b \<and> bk_bucket b < until) (buckets_of t link))\<rparr>"

definition tsdb_links :: "tsdb \<Rightarrow> link_key list" where
  "tsdb_links t = map fst (filter (\<lambda>(_, r). rg_samples r \<noteq> []) (td_by_link t))"

section \<open>Retention and durability\<close>

fun prune_front :: "nat \<Rightarrow> raw_sample list \<Rightarrow> nat \<Rightarrow> raw_sample list \<times> nat" where
  "prune_front c [] fl = ([], fl)"
| "prune_front c (s # ss) fl =
     (if rs_ts s < c then prune_front c ss (max fl (rs_ts s)) else (s # ss, fl))"

definition ring_prune :: "nat \<Rightarrow> ring \<Rightarrow> ring" where
  "ring_prune c r = (let (xs, fl) = prune_front c (rg_samples r) (rg_floor r)
     in \<lparr>rg_samples = xs, rg_floor = fl\<rparr>)"

definition tsdb_prune :: "nat \<Rightarrow> tsdb \<Rightarrow> tsdb" where
  "tsdb_prune now t =
     (let raw_cut = saturating_sub now (ts_raw_retention_secs (td_cfg t));
          agg_cut = saturating_sub now (ts_agg_retention_secs (td_cfg t))
      in t\<lparr>td_by_link := hm_map_values (ring_prune raw_cut) (td_by_link t),
           td_buckets := hm_retain (\<lambda>_ bs. bs \<noteq> [])
             (hm_map_values (dropWhile (\<lambda>b. bk_bucket b < agg_cut)) (td_buckets t)),
           td_recent := dropWhile (\<lambda>(_, _, s). rs_ts s < raw_cut) (td_recent t)\<rparr>)"

datatype db_op =
    RawPut string nat raw_sample
  | RawDel string nat
  | AggPut string nat bucket
  | AggDel string nat

text \<open>The row operations of one flush transaction, given the keys of the two tables after the
  inserts.\<close>

definition flush_ops ::
  "nat \<Rightarrow> ts_cfg \<Rightarrow> (link_key \<times> raw_sample) list \<Rightarrow> ((link_key \<times> nat) \<times> bucket) list
    \<Rightarrow> (string \<times> nat) list \<Rightarrow> (string \<times> nat) list \<Rightarrow> db_op list" where
  "flush_ops now cfg raw dirty raw_keys agg_keys =
     (let raw_cut = saturating_sub now (ts_raw_retention_secs cfg);
          agg_cut = saturating_sub now (ts_agg_retention_secs cfg)
      in map (\<lambda>(l, s). RawPut (link_id l) (rs_ts s) s) raw
         @ map (\<lambda>(l, ts). RawDel l ts) (filter (\<lambda>(_, ts). ts < raw_cut) raw_keys)
         @ map (\<lambda>((l, ts), b). AggPut (link_id l) ts b) dirty
         @ map (\<lambda>(l, ts). AggDel l ts) (filter (\<lambda>(_, ts). ts < agg_cut) agg_keys))"

text \<open>\<open>flush\<close> up to the transaction: the queues are drained; when \<open>begin_write\<close> fails the raw
  samples are queued again.\<close>

definition flush_drain ::
  "bool \<Rightarrow> tsdb \<Rightarrow> ((link_key \<times> raw_sample) list \<times> ((link_key \<times> nat) \<times> bucket) list) option \<times> tsdb" where
  "flush_drain begin_ok t =
     (if \<not> td_open t then (None, t)
      else let raw = td_pending t; dirty = td_dirty t; t' = t\<lparr>td_pending := [], td_dirty := []\<rparr>
           in if begin_ok then (Some (raw, dirty), t')
              else (None, t'\<lparr>td_pending := td_pending t' @ raw\<rparr>))"

definition parse_link_id :: "string \<Rightarrow> link_key" where
  "parse_link_id s =
     (case split_once CHR ''/'' s of
        Some (f, rest) \<Rightarrow>
          (case split_once CHR ''/'' rest of
             Some (to, iface) \<Rightarrow> new_link f to iface
           | None \<Rightarrow> new_link s [] [])
      | None \<Rightarrow> new_link s [] [])"

definition load_bucket :: "link_key \<Rightarrow> nat \<Rightarrow> bucket \<Rightarrow> tsdb \<Rightarrow> tsdb" where
  "load_bucket link ts b t =
     (let bs = buckets_of t link; pos = partition_point (\<lambda>x. bk_bucket x < ts) bs
      in t\<lparr>td_buckets := hm_insert link
        (if opt_all (\<lambda>x. bk_bucket x \<noteq> ts) (seq_get bs pos) then insert_at pos b bs else bs)
        (td_buckets t)\<rparr>)"

definition tsdb_load ::
  "nat \<Rightarrow> ((string \<times> nat) \<times> raw_sample) list \<Rightarrow> ((string \<times> nat) \<times> bucket) list \<Rightarrow> tsdb \<Rightarrow> tsdb" where
  "tsdb_load now raw_rows agg_rows t =
     (if ts_path (td_cfg t) = [] then t
      else let raw_cut = saturating_sub now (ts_raw_retention_secs (td_cfg t));
               agg_cut = saturating_sub now (ts_agg_retention_secs (td_cfg t));
               t1 = fold (\<lambda>((link, ts), s) u. if ts < raw_cut then u
                            else snd (ingest (parse_link_id link) s False u)) raw_rows t;
               t2 = fold (\<lambda>((link, ts), b) u. if ts < agg_cut then u
                            else load_bucket (parse_link_id link) ts b u) agg_rows t1
           in t2\<lparr>td_open := True\<rparr>)"

section \<open>The classifier's window\<close>

record window_spec =
  ws_always_fresh_secs :: nat
  ws_tcp_fresh_secs :: nat
  ws_tcp_carry_secs :: nat

fun scan_always :: "nat \<Rightarrow> nat \<Rightarrow> raw_sample list \<Rightarrow> window_view \<Rightarrow> window_view" where
  "scan_always fresh now [] v = v"
| "scan_always fresh now (s # ss) v =
     (if fresh < saturating_sub now (rs_ts s) then v
      else scan_always fresh now ss
        (v\<lparr>wv_rtt_ms := opt_or (wv_rtt_ms v) (map_option of_f32 (rs_rtt_ms s)),
           wv_loss_pct := opt_or (wv_loss_pct v) (map_option of_f32 (rs_loss_pct s)),
           wv_jitter_ms := opt_or (wv_jitter_ms v) (map_option of_f32 (rs_jitter_ms s))\<rparr>))"

fun scan_tcp :: "window_spec \<Rightarrow> nat \<Rightarrow> raw_sample list \<Rightarrow> f64 option \<times> bool" where
  "scan_tcp spec now [] = (None, False)"
| "scan_tcp spec now (s # ss) =
     (let age = saturating_sub now (rs_ts s)
      in if ws_tcp_carry_secs spec < age then (None, False)
         else case rs_tcp_mbps s of
                Some v \<Rightarrow> (Some (of_f32 v), ws_tcp_fresh_secs spec < age)
              | None \<Rightarrow> scan_tcp spec now ss)"

fun scan_udp :: "window_spec \<Rightarrow> nat \<Rightarrow> raw_sample list \<Rightarrow> window_view \<Rightarrow> window_view" where
  "scan_udp spec now [] v = v"
| "scan_udp spec now (s # ss) v =
     (if ws_tcp_carry_secs spec < saturating_sub now (rs_ts s) then v
      else if rs_udp_mbps s \<noteq> None \<or> rs_udp_loss_pct s \<noteq> None
      then v\<lparr>wv_udp_mbps := map_option of_f32 (rs_udp_mbps s),
             wv_udp_jitter_ms := map_option of_f32 (rs_udp_jitter_ms s),
             wv_udp_loss_pct := map_option of_f32 (rs_udp_loss_pct s)\<rparr>
      else scan_udp spec now ss v)"

definition ring_window :: "window_spec \<Rightarrow> nat \<Rightarrow> raw_sample list \<Rightarrow> window_view option" where
  "ring_window spec now ring =
     (case find (\<lambda>s. saturating_sub now (rs_ts s) \<le> ws_tcp_carry_secs spec) (rev ring) of
        None \<Rightarrow> None
      | Some newest \<Rightarrow>
          (let v0 = window_view_default\<lparr>wv_ts := rs_ts newest,
                 wv_state := code_to_state (rs_state newest),
                 wv_util_mbps := of_f32 (rs_util_mbps newest)\<rparr>;
               v1 = scan_always (ws_always_fresh_secs spec) now (rev ring) v0;
               (tcp, carried) = scan_tcp spec now (rev ring);
               v2 = v1\<lparr>wv_tcp_mbps := tcp, wv_tcp_carried := carried\<rparr>
           in Some (scan_udp spec now (rev ring) v2)))"

definition tsdb_window :: "tsdb \<Rightarrow> link_key \<Rightarrow> window_spec \<Rightarrow> nat \<Rightarrow> window_view option" where
  "tsdb_window t link spec now =
     (case hm_get (td_by_link t) link of
        None \<Rightarrow> None | Some r \<Rightarrow> ring_window spec now (rg_samples r))"


section \<open>The rings\<close>

definition ring_ok :: "ring \<Rightarrow> bool" where
  "ring_ok r \<longleftrightarrow> sorted_by rs_ts (rg_samples r) \<and> length (rg_samples r) \<le> raw_ring_cap
     \<and> list_all (\<lambda>s. rg_floor r < rs_ts s) (rg_samples r)"

lemma ring_ok_default [simp]: "ring_ok ring_default"
  by (simp add: ring_ok_def ring_default_def)

text \<open>The three outcomes of \<open>ring_ingest\<close> on a sorted ring.\<close>

lemma ring_ingest_cases:
  assumes "ring_ok r"
  obtains (old) "rs_ts s \<le> rg_floor r" "ring_ingest s r = (None, r)"
  | (twin) us a vs where "rg_floor r < rs_ts s" "rg_samples r = us @ a # vs" "rs_ts a = rs_ts s"
      "ring_ingest s r = (if sample_eq (merged_with a s) a then (None, r)
         else (Some (merged_with a s, Some a), r\<lparr>rg_samples := us @ merged_with a s # vs\<rparr>))"
  | (fresh) us vs where "rg_floor r < rs_ts s" "rg_samples r = us @ vs"
      "\<forall>x \<in> set us. rs_ts x < rs_ts s" "\<forall>x \<in> set vs. rs_ts s < rs_ts x"
      "ring_ingest s r = (if us = [] \<and> raw_ring_cap \<le> length (rg_samples r) then (None, r)
         else (Some (s, None), if raw_ring_cap < length (us @ s # vs)
           then \<lparr>rg_samples = tl (us @ s # vs), rg_floor = max (rg_floor r) (rs_ts (hd (us @ s # vs)))\<rparr>
           else r\<lparr>rg_samples := us @ s # vs\<rparr>))"
proof (cases "rs_ts s \<le> rg_floor r")
  case True
  then show ?thesis using old by (simp add: ring_ingest_def)
next
  case False
  then have fl: "rg_floor r < rs_ts s" by simp
  have "sorted_by rs_ts (rg_samples r)" using assms by (simp add: ring_ok_def)
  then show ?thesis
  proof (cases rule: partition_cases [where c = "rs_ts s"])
    case c: (twin us a vs)
    show ?thesis
      by (rule twin [OF fl c(1,2)])
        (simp only: ring_ingest_def ring_merge_def c(2,4) False if_False Let_def option.case refl if_True
          c(3), simp only: c(1) list_update_length, simp add: c(2) seq_get_def)
  next
    case c: (fresh us vs)
    have "ring_ingest s r = ring_insert (length us) s r"
      using c(4,5) False by (auto simp: ring_ingest_def Let_def split: option.splits)
    also have "\<dots> = (if us = [] \<and> raw_ring_cap \<le> length (rg_samples r) then (None, r)
         else (Some (s, None), if raw_ring_cap < length (us @ s # vs)
           then \<lparr>rg_samples = tl (us @ s # vs), rg_floor = max (rg_floor r) (rs_ts (hd (us @ s # vs)))\<rparr>
           else r\<lparr>rg_samples := us @ s # vs\<rparr>))"
      by (simp only: ring_insert_def c(1) insert_at_length Let_def length_0_conv)
    finally show ?thesis by (rule fresh [OF fl c(1-3)])
  qed
qed

lemma ring_ok_ingest [simp, model_inv]: "ring_ok r \<Longrightarrow> ring_ok (snd (ring_ingest s r))"
proof -
  assume ok: "ring_ok r"
  then show ?thesis
  proof (cases rule: ring_ingest_cases [where s = s])
    case (twin us a vs)
    with ok show ?thesis by (auto simp: ring_ok_def)
  next
    case (fresh us vs)
    then have srt: "sorted_by rs_ts (us @ s # vs)" and fl: "\<forall>x \<in> set (us @ s # vs). rg_floor r < rs_ts x"
      using ok by (auto simp: ring_ok_def list_all_iff intro: less_trans)
    have len: "length (us @ vs) \<le> raw_ring_cap" using ok fresh(2) by (simp add: ring_ok_def)
    obtain b bs where b: "us @ s # vs = b # bs" by (cases "us @ s # vs") auto
    have l: "Suc (length us + length vs) = Suc (length bs)"
      using arg_cong [OF b, of length] by simp
    have "sorted_by rs_ts bs" "\<forall>x \<in> set bs. rs_ts b < rs_ts x" "\<forall>x \<in> set (b # bs). rg_floor r < rs_ts x"
      using srt fl unfolding b by simp_all
    with ok len l show ?thesis unfolding fresh(5) b by (simp add: ring_ok_def list_all_iff)
  qed (use ok in simp)
qed

lemma prune_front_eq:
  "prune_front c ss fl = (dropWhile (\<lambda>s. rs_ts s < c) ss,
     foldl max fl (map rs_ts (takeWhile (\<lambda>s. rs_ts s < c) ss)))"
  by (induction c ss fl rule: prune_front.induct) auto

lemma foldl_max_less: "foldl max fl xs < (c::nat) \<longleftrightarrow> fl < c \<and> (\<forall>x \<in> set xs. x < c)"
  by (induction xs arbitrary: fl) auto

lemma foldl_max_ge: "x \<in> insert fl (set xs) \<Longrightarrow> x \<le> foldl max fl (xs :: nat list)"
  using foldl_max_less [of fl xs x] by (metis insert_iff less_irrefl not_le)

lemma ring_ok_prune [simp, model_inv]: "ring_ok r \<Longrightarrow> ring_ok (ring_prune c r)"
  by (auto simp: ring_ok_def ring_prune_def prune_front_eq Let_def list_all_iff foldl_max_less
      sorted_by_dropWhile_less sorted_by_filter
      intro: le_trans [OF length_filter_le] dest: set_takeWhileD)


section \<open>The buckets\<close>

lemma bucket_ingest_cases:
  assumes "sorted_by bk_bucket bs"
  obtains (twin) us b vs b' where "bs = us @ b # vs" "bk_bucket b = bucket_ts_of (rs_ts s)"
      "b' = (case mf of Some prev \<Rightarrow> bk_merge_into s prev b | None \<Rightarrow> bk_add s b)"
      "bk_bucket b' = bucket_ts_of (rs_ts s)" "bucket_ingest s mf bs = (us @ b' # vs, b')"
  | (fresh) us vs where "bs = us @ vs" "\<forall>x \<in> set us. bk_bucket x < bucket_ts_of (rs_ts s)"
      "\<forall>x \<in> set vs. bucket_ts_of (rs_ts s) < bk_bucket x"
      "bucket_ingest s mf bs = (us @ bk_add s bucket_default # vs, bk_add s bucket_default)"
  using assms
proof (cases rule: partition_cases [where c = "bucket_ts_of (rs_ts s)"])
  case c: (twin us b vs)
  have "bucket_ingest s mf bs = (let b' = (case mf of Some prev \<Rightarrow> bk_merge_into s prev b | None \<Rightarrow> bk_add s b)
      in (us @ b' # vs, b'))"
    unfolding bucket_ingest_def Let_def c(4) option.case c(3) unfolding c(1)
    by (simp add: c(2) seq_get_def)
  then show ?thesis using c(1,2) that(1) by (simp add: Let_def split: option.splits)
next
  case c: (fresh us vs)
  have "bucket_ingest s mf bs = (us @ bk_add s bucket_default # vs, bk_add s bucket_default)"
    using c(5) unfolding bucket_ingest_def Let_def c(4)
    by (auto simp: c(1) split: option.splits)
  then show ?thesis by (rule that(2) [OF c(1-3)])
qed

lemma sorted_bucket_ingest [simp, model_inv]:
  assumes "sorted_by bk_bucket bs" shows "sorted_by bk_bucket (fst (bucket_ingest s mf bs))"
  using assms
proof (cases rule: bucket_ingest_cases [where s = s and mf = mf])
  case (twin us b vs b')
  have "sorted_by bk_bucket (us @ b # vs)" using assms twin(1) by simp
  with twin(2,4) show ?thesis unfolding twin(5) by simp
next
  case (fresh us vs)
  have "sorted_by bk_bucket (us @ vs)" using assms fresh(1) by simp
  with fresh(2,3) show ?thesis unfolding fresh(4) by (auto intro: less_trans)
qed

section \<open>The store invariant\<close>

definition tsdb_ok :: "tsdb \<Rightarrow> bool" where
  "tsdb_ok t \<longleftrightarrow> hm_ok (td_by_link t) \<and> hm_ok (td_buckets t)
     \<and> (\<forall>l. ring_ok (ring_of t l)) \<and> (\<forall>l. sorted_by bk_bucket (buckets_of t l))
     \<and> sorted_by fst (td_recent t) \<and> list_all (\<lambda>e. fst e < td_seq t) (td_recent t)"

lemma tsdb_ok_empty [simp]: "tsdb_ok (tsdb_empty cfg)"
  by (simp add: tsdb_ok_def tsdb_empty_def ring_of_def buckets_of_def)

lemma ring_of_simps [simp]:
  "ring_of (t\<lparr>td_buckets := b\<rparr>) l = ring_of t l"
  "ring_of (t\<lparr>td_recent := q\<rparr>) l = ring_of t l"
  "ring_of (t\<lparr>td_pending := w\<rparr>) l = ring_of t l"
  "ring_of (t\<lparr>td_dirty := y\<rparr>) l = ring_of t l"
  "ring_of (t\<lparr>td_sent := z\<rparr>) l = ring_of t l"
  "ring_of (t\<lparr>td_seq := n\<rparr>) l = ring_of t l"
  "ring_of (t\<lparr>td_open := x\<rparr>) l = ring_of t l"
  "ring_of (t\<lparr>td_by_link := hm_insert k r (td_by_link t)\<rparr>) l = (if l = k then r else ring_of t l)"
  by (simp_all add: ring_of_def)

lemma buckets_of_simps [simp]:
  "buckets_of (t\<lparr>td_by_link := m\<rparr>) l = buckets_of t l"
  "buckets_of (t\<lparr>td_recent := q\<rparr>) l = buckets_of t l"
  "buckets_of (t\<lparr>td_pending := w\<rparr>) l = buckets_of t l"
  "buckets_of (t\<lparr>td_dirty := y\<rparr>) l = buckets_of t l"
  "buckets_of (t\<lparr>td_sent := z\<rparr>) l = buckets_of t l"
  "buckets_of (t\<lparr>td_seq := n\<rparr>) l = buckets_of t l"
  "buckets_of (t\<lparr>td_open := x\<rparr>) l = buckets_of t l"
  "buckets_of (t\<lparr>td_buckets := hm_insert k b (td_buckets t)\<rparr>) l = (if l = k then b else buckets_of t l)"
  by (simp_all add: buckets_of_def)

text \<open>One ingest, field by field.\<close>

lemma ingest_eq:
  "ingest link s0 persist t =
     (case ring_ingest s0 (ring_of t link) of
        (None, r) \<Rightarrow> (False, t\<lparr>td_by_link := hm_insert link r (td_by_link t)\<rparr>)
      | (Some (s, mf), r) \<Rightarrow> (True, publish (td_seq t) link s persist
          (t\<lparr>td_by_link := hm_insert link r (td_by_link t),
             td_buckets := hm_insert link (fst (bucket_ingest s mf (buckets_of t link))) (td_buckets t),
             td_dirty := hm_insert (link, bucket_ts_of (rs_ts s))
               (snd (bucket_ingest s mf (buckets_of t link))) (td_dirty t),
             td_seq := add64 (td_seq t) 1\<rparr>)))"
  by (simp add: ingest_def ingest_store_def Let_def split: prod.splits option.splits)

lemma ring_of_ingest [simp]:
  "ring_of (snd (ingest link s persist t)) l
    = (if l = link then snd (ring_ingest s (ring_of t link)) else ring_of t l)"
  by (simp add: ingest_eq publish_def split: prod.splits option.splits)

lemma buckets_of_ingest:
  "buckets_of (snd (ingest link s persist t)) l
    = (if l = link then (case fst (ring_ingest s (ring_of t link)) of
         None \<Rightarrow> buckets_of t l | Some (s', mf) \<Rightarrow> fst (bucket_ingest s' mf (buckets_of t l)))
       else buckets_of t l)"
  by (simp add: ingest_eq publish_def buckets_of_def split: prod.splits option.splits)

lemma fst_ingest: "fst (ingest link s persist t) \<longleftrightarrow> fst (ring_ingest s (ring_of t link)) \<noteq> None"
  by (simp add: ingest_eq split: prod.splits option.splits)

lemma recent_ingest:
  "td_recent (snd (ingest link s persist t)) = td_recent t @
     (case fst (ring_ingest s (ring_of t link)) of None \<Rightarrow> [] | Some (s', _) \<Rightarrow> [(td_seq t, link, s')])"
  by (simp add: ingest_eq publish_def split: prod.splits option.splits)

lemma seq_ingest:
  "td_seq (snd (ingest link s persist t))
    = (if fst (ingest link s persist t) then add64 (td_seq t) 1 else td_seq t)"
  by (simp add: ingest_eq publish_def split: prod.splits option.splits)

lemma hm_ok_ingest:
  "hm_ok (td_by_link t) \<Longrightarrow> hm_ok (td_by_link (snd (ingest link s persist t)))"
  "hm_ok (td_buckets t) \<Longrightarrow> hm_ok (td_buckets (snd (ingest link s persist t)))"
  by (simp_all add: ingest_eq publish_def split: prod.splits option.splits)

lemma tsdb_ok_ingest [model_inv]:
  assumes ok: "tsdb_ok t" and seq: "td_seq t + 1 < 2 ^ 64"
  shows "tsdb_ok (snd (ingest link s persist t))"
proof -
  let ?t' = "snd (ingest link s persist t)"
  have "sorted_by bk_bucket (buckets_of ?t' l)" for l
    using ok by (auto simp: tsdb_ok_def buckets_of_ingest split: option.splits)
  moreover have "sorted_by fst (td_recent ?t') \<and> list_all (\<lambda>e. fst e < td_seq ?t') (td_recent ?t')"
    using ok add64_small [OF seq]
    by (auto simp: tsdb_ok_def recent_ingest seq_ingest fst_ingest list_all_iff intro: less_SucI
        split: option.splits)
  ultimately show ?thesis
    using ok hm_ok_ingest [of t link s persist] by (simp add: tsdb_ok_def)
qed


section \<open>Buckets count the ring\<close>

definition cnt :: "dim \<Rightarrow> nat \<Rightarrow> raw_sample list \<Rightarrow> nat" where
  "cnt d bt xs = length (filter (\<lambda>s. bucket_ts_of (rs_ts s) = bt \<and> dim_of d s \<noteq> None) xs)"

lemma cnt_simps [simp]:
  "cnt d bt [] = 0"
  "cnt d bt (s # xs) = (if bucket_ts_of (rs_ts s) = bt \<and> dim_of d s \<noteq> None then 1 else 0) + cnt d bt xs"
  "cnt d bt (xs @ ys) = cnt d bt xs + cnt d bt ys"
  by (simp_all add: cnt_def)

lemma cnt_le: "cnt d bt xs \<le> length xs"
  by (simp add: cnt_def)

lemma cnt_0: "\<forall>s \<in> set xs. bucket_ts_of (rs_ts s) \<noteq> bt \<Longrightarrow> cnt d bt xs = 0"
  by (simp add: cnt_def filter_empty_conv)

text \<open>Each bucket counts the samples of its minute, and every sample has its bucket.\<close>

definition counted :: "raw_sample list \<Rightarrow> bucket list \<Rightarrow> bool" where
  "counted xs bs \<longleftrightarrow> sorted_by bk_bucket bs
     \<and> (\<forall>b \<in> set bs. \<forall>d. da_n (agg_of d b) = cnt d (bk_bucket b) xs)
     \<and> (\<forall>s \<in> set xs. bucket_ts_of (rs_ts s) \<in> bk_bucket ` set bs)"

lemma counted_Nil [simp]: "counted [] []"
  by (simp add: counted_def)

lemma da_n_default [simp]: "da_n dim_agg_default = 0"
  by (simp add: dim_agg_default_def)

lemma counted_step:
  assumes c: "counted xs bs" and room: "length xs < 2 ^ 32 - 1"
    and eff: "(mf = None \<and> set ys = insert s (set xs)
        \<and> (\<forall>d bt. cnt d bt ys = cnt d bt [s] + cnt d bt xs))
      \<or> (\<exists>us a vs. mf = Some a \<and> xs = us @ a # vs \<and> ys = us @ s # vs \<and> rs_ts s = rs_ts a
        \<and> (\<forall>d. dim_of d a \<noteq> None \<longrightarrow> dim_of d s \<noteq> None))"
  shows "counted ys (fst (bucket_ingest s mf bs))"
proof -
  let ?bt = "bucket_ts_of (rs_ts s)"
  have lt: "da_n (agg_of d b) + 1 < 2 ^ 32" if "b \<in> set bs" for d b
    using c cnt_le [of d "bk_bucket b" xs] room that by (simp add: counted_def)
  have srt: "sorted_by bk_bucket bs" using c by (simp add: counted_def)
  have other: "cnt d bt ys = cnt d bt xs" if "bt \<noteq> ?bt" for d bt
    using eff that by auto
  have ts: "bucket_ts_of (rs_ts x) \<in> insert ?bt (bk_bucket ` set bs)" if "x \<in> set ys" for x
    using eff c that by (auto simp: counted_def)
  from srt show ?thesis
  proof (cases rule: bucket_ingest_cases [where s = s and mf = mf])
    case (twin us b vs b')
    have b: "b \<in> set bs" using twin(1) by simp
    have "da_n (agg_of d b') = cnt d ?bt ys" for d
    proof -
      have "da_n (agg_of d b) = cnt d ?bt xs" using c b twin(2) by (simp add: counted_def)
      with eff lt [OF b, of d] show ?thesis
        by (auto simp: twin(3) agg_of_bk_add agg_of_bk_merge_into da_n_fold_new)
    qed
    moreover have "bk_bucket x \<noteq> ?bt" if "x \<in> set us \<union> set vs" for x
      using srt twin(2) that unfolding twin(1) by fastforce
    ultimately show ?thesis
      using c other ts sorted_bucket_ingest [OF srt, of s mf]
      unfolding twin(5) by (auto simp: counted_def twin(1) twin(4) twin(2))
  next
    case (fresh us vs)
    have new: "?bt \<notin> bk_bucket ` set bs" using fresh(1-3) by fastforce
    then have z: "cnt d ?bt xs = 0" for d
      using c by (intro cnt_0 ballI) (metis counted_def)
    have mf: "mf = None"
      using eff c new by (auto simp: counted_def)
    have "da_n (agg_of d (bk_add s bucket_default)) = cnt d ?bt ys" for d
      using eff z by (auto simp: mf agg_of_bk_add da_n_fold_new)
    moreover have "bk_bucket x \<noteq> ?bt" if "x \<in> set us \<union> set vs" for x
      using new that imageI [of x "set bs" bk_bucket] fresh(1) by (auto simp del: image_eqI)
    ultimately show ?thesis
      using c other ts sorted_bucket_ingest [OF srt, of s mf]
      unfolding fresh(4) by (auto simp: counted_def fresh(1))
  qed
qed

lemma counted_ingest:
  assumes "ring_ok r" "counted (rg_samples r) bs" "length (rg_samples r) < raw_ring_cap"
  shows "case ring_ingest s r of (None, r') \<Rightarrow> r' = r
    | (Some (s', mf), r') \<Rightarrow> counted (rg_samples r') (fst (bucket_ingest s' mf bs))
        \<and> length (rg_samples r') \<le> Suc (length (rg_samples r))"
proof -
  have room: "length (rg_samples r) < 2 ^ 32 - 1"
    using assms(3) by (simp add: raw_ring_cap_def)
  from assms(1) show ?thesis
  proof (cases rule: ring_ingest_cases [where s = s])
    case (twin us a vs)
    have "counted (us @ merged_with a s # vs) (fst (bucket_ingest (merged_with a s) (Some a) bs))"
      by (rule counted_step [OF assms(2) room], rule disjI2)
        (use twin(2) in \<open>auto simp: dim_of_merged\<close>)
    with twin show ?thesis by simp
  next
    case (fresh us vs)
    have "counted (us @ s # vs) (fst (bucket_ingest s None bs))"
      by (rule counted_step [OF assms(2) room], rule disjI1) (auto simp: fresh(2))
    moreover have "length (us @ s # vs) = Suc (length (rg_samples r))" by (simp add: fresh(2))
    ultimately show ?thesis using fresh(5) assms(3) by simp
  qed simp
qed


lemma counted_run:
  assumes "\<forall>l. ring_ok (ring_of t l) \<and> counted (rg_samples (ring_of t l)) (buckets_of t l)
      \<and> length (rg_samples (ring_of t l)) + length samples \<le> raw_ring_cap"
  shows "counted (rg_samples (ring_of (merge_delta samples t) l)) (buckets_of (merge_delta samples t) l)"
  using assms
proof (induction samples arbitrary: t)
  case Nil
  then show ?case by (simp add: merge_delta_def)
next
  case (Cons x samples)
  obtain link s where x: "x = (link, s)" by (cases x)
  let ?t = "append_sample link s t"
  have room: "length (rg_samples (ring_of t link)) < raw_ring_cap"
    using Cons.prems [rule_format, of link] by simp
  have "ring_ok (ring_of ?t l) \<and> counted (rg_samples (ring_of ?t l)) (buckets_of ?t l)
      \<and> length (rg_samples (ring_of ?t l)) + length samples \<le> raw_ring_cap" for l
  proof (cases "l = link")
    case False
    then show ?thesis using Cons.prems [rule_format, of l]
      by (simp add: append_sample_def buckets_of_ingest)
  next
    case True
    note p = Cons.prems [rule_format, of link]
    have "case ring_ingest s (ring_of t link) of (None, r') \<Rightarrow> r' = ring_of t link
      | (Some (s', mf), r') \<Rightarrow> counted (rg_samples r') (fst (bucket_ingest s' mf (buckets_of t link)))
        \<and> length (rg_samples r') \<le> Suc (length (rg_samples (ring_of t link)))"
      using p by (intro counted_ingest room) simp_all
    moreover have "ring_ok (snd (ring_ingest s (ring_of t link)))" using p by simp
    ultimately show ?thesis using p True
      by (cases "ring_ingest s (ring_of t link)")
        (auto simp: append_sample_def buckets_of_ingest split: option.splits)
  qed
  with Cons.IH [of ?t] show ?case by (simp add: merge_delta_def x)
qed

section \<open>Runs of the store\<close>

text \<open>Operations in any order; the sequence counter is assumed not to reach its width.\<close>

inductive tsdb_step :: "tsdb \<Rightarrow> tsdb \<Rightarrow> bool" where
  ingesting: "td_seq t + 1 < 2 ^ 64 \<Longrightarrow> tsdb_step t (snd (ingest link s persist t))"
| pruning: "tsdb_step t (tsdb_prune now t)"
| acknowledging: "tsdb_step t (note_sent peer w t)"
| flushing: "tsdb_step t (snd (flush_drain begin_ok t))"

inductive_cases tsdb_stepE: "tsdb_step t t'"

lemma ring_of_prune [simp]:
  "ring_of (tsdb_prune now t) l = ring_prune (now - ts_raw_retention_secs (td_cfg t)) (ring_of t l)"
  by (simp add: ring_of_def tsdb_prune_def Let_def ring_default_def ring_prune_def split: option.splits)

lemma buckets_of_prune:
  assumes "hm_ok (td_buckets t)"
  shows "buckets_of (tsdb_prune now t) l
    = dropWhile (\<lambda>b. bk_bucket b < now - ts_agg_retention_secs (td_cfg t)) (buckets_of t l)"
  using assms
  by (cases "hm_get (td_buckets t) l")
    (simp_all add: buckets_of_def tsdb_prune_def Let_def hm_get_retain del: dropWhile_eq_Nil_conv)

lemma tsdb_ok_prune [model_inv]:
  assumes ok: "tsdb_ok t" shows "tsdb_ok (tsdb_prune now t)"
proof -
  have "list_all (\<lambda>e. fst e < td_seq t)
      (dropWhile (\<lambda>(_, _, s). rs_ts s < now - ts_raw_retention_secs (td_cfg t)) (td_recent t))"
    using ok by (auto simp: tsdb_ok_def list_all_iff dest: set_dropWhileD)
  moreover have "hm_ok (td_buckets (tsdb_prune now t))" "hm_ok (td_by_link (tsdb_prune now t))"
    using ok by (simp_all add: tsdb_ok_def tsdb_prune_def Let_def)
  moreover have "td_recent (tsdb_prune now t)
      = dropWhile (\<lambda>(_, _, s). rs_ts s < now - ts_raw_retention_secs (td_cfg t)) (td_recent t)"
    "td_seq (tsdb_prune now t) = td_seq t"
    by (simp_all add: tsdb_prune_def Let_def)
  ultimately show ?thesis
    using ok by (simp add: tsdb_ok_def buckets_of_prune sorted_by_dropWhile)
qed

lemma tsdb_ok_step: "tsdb_ok t \<Longrightarrow> tsdb_step t t' \<Longrightarrow> tsdb_ok t'"
  by (erule tsdb_stepE)
    (auto simp: tsdb_ok_ingest tsdb_ok_prune, auto simp: tsdb_ok_def note_sent_def flush_drain_def Let_def)

lemma tsdb_ok_run: "tsdb_step\<^sup>*\<^sup>* t t' \<Longrightarrow> tsdb_ok t \<Longrightarrow> tsdb_ok t'"
  by (erule run_invariant) (auto intro: tsdb_ok_step)

section \<open>Floors\<close>

lemma floor_ingest: "ring_ok r \<Longrightarrow> rg_floor r \<le> rg_floor (snd (ring_ingest s r))"
  by (erule ring_ingest_cases [where s = s]) auto

lemma floor_prune: "rg_floor r \<le> rg_floor (ring_prune c r)"
  by (simp add: ring_prune_def prune_front_eq Let_def foldl_max_ge)

lemma floor_step:
  assumes "tsdb_ok t" "tsdb_step t t'" shows "rg_floor (ring_of t l) \<le> rg_floor (ring_of t' l)"
  using assms(2)
  by (rule tsdb_stepE)
    (use assms(1) in \<open>auto simp: floor_ingest floor_prune tsdb_ok_def note_sent_def flush_drain_def Let_def\<close>)

lemma floor_run:
  assumes "tsdb_step\<^sup>*\<^sup>* t t'" "tsdb_ok t"
  shows "tsdb_ok t' \<and> rg_floor (ring_of t l) \<le> rg_floor (ring_of t' l)"
  by (rule run_invariant [OF assms(1)])
    (use assms(2) tsdb_ok_step floor_step in \<open>auto intro: order_trans\<close>)

lemma floor_rejects:
  "rs_ts s \<le> rg_floor (ring_of t link) \<Longrightarrow> \<not> fst (ingest link s persist t)
    \<and> ring_of (snd (ingest link s persist t)) l = ring_of t l
    \<and> buckets_of (snd (ingest link s persist t)) l = buckets_of t l
    \<and> td_recent (snd (ingest link s persist t)) = td_recent t"
  by (simp add: fst_ingest buckets_of_ingest recent_ingest ring_ingest_def)

lemma pruned_floor:
  assumes "s \<in> set (rg_samples r)" "sorted_by rs_ts (rg_samples r)" "rs_ts s < c"
  shows "rs_ts s \<le> rg_floor (ring_prune c r)"
proof -
  have "s \<in> set (takeWhile (\<lambda>x. rs_ts x < c) (rg_samples r))"
    unfolding sorted_by_takeWhile_less [OF assms(2)] using assms(1,3) by simp
  then show ?thesis by (simp add: ring_prune_def prune_front_eq Let_def foldl_max_ge)
qed

end
