(* ===== verification/TsdbLaws.thy ===== *)
theory TsdbLaws
  imports Tsdb
begin

text \<open>
  What the time-series store promises its callers: resends change nothing, pruned history
  never returns, buckets count the ring, the classifier's window is the newest value of each
  dimension within its horizon, and gossip hands every peer the change log without gaps or
  repetition (the locale \<open>delta_log\<close>, interpreted on \<open>take_delta\<close>). The last section shows
  where the code falls short of its comments.
\<close>

section \<open>Resends\<close>

lemma ring_twin_ingest:
  assumes ok: "ring_ok r" and m: "m \<in> set (rg_samples r)" "rs_ts m = rs_ts s"
    and same: "merged_with m s = m" and nan: "nan_free m"
  shows "ring_ingest s r = (None, r)"
  using ok
proof (cases rule: ring_ingest_cases [where s = s])
  case old
  then show ?thesis by simp
next
  case (twin us a vs)
  have "a = m"
    using sorted_by_inj [of rs_ts "rg_samples r" a m] ok m twin(2,3) by (simp add: ring_ok_def)
  with twin(4) same nan show ?thesis by (simp add: sample_eq_iff)
next
  case (fresh us vs)
  with m show ?thesis by auto
qed

lemma ring_resend:
  assumes ok: "ring_ok r" and nan: "nan_free s" "list_all nan_free (rg_samples r)"
  shows "ring_ingest s (snd (ring_ingest s r)) = (None, snd (ring_ingest s r))"
proof -
  let ?r' = "snd (ring_ingest s r)"
  have ok': "ring_ok ?r'" using ok by simp
  from ok show ?thesis
  proof (cases rule: ring_ingest_cases [where s = s])
    case old
    then show ?thesis by simp
  next
    case (twin us a vs)
    show ?thesis
    proof (cases "sample_eq (merged_with a s) a")
      case True
      with twin(4) show ?thesis by simp
    next
      case False
      have "nan_free (merged_with a s)"
        using nan twin(2) by (intro nan_free_merged) simp_all
      moreover have "merged_with a s \<in> set (rg_samples ?r')" "rs_ts (merged_with a s) = rs_ts s"
        using twin False by simp_all
      ultimately show ?thesis
        using ring_twin_ingest [OF ok', of "merged_with a s" s] by (simp add: merged_with_resend)
    qed
  next
    case (fresh us vs)
    show ?thesis
    proof (cases "us = [] \<and> raw_ring_cap \<le> length (rg_samples r)")
      case True
      with fresh(5) show ?thesis by simp
    next
      case False
      then have "s \<in> set (rg_samples ?r')"
        unfolding fresh(5) using fresh(2) by (cases us) auto
      then show ?thesis using ring_twin_ingest [OF ok', of s s] nan(1) by simp
    qed
  qed
qed

lemma hm_get_by_link_ingest:
  "hm_get (td_by_link (snd (ingest link s persist t))) link = Some (snd (ring_ingest s (ring_of t link)))"
  by (simp add: ingest_eq publish_def split: prod.splits option.splits)

lemma ingest_rejected:
  assumes "hm_get (td_by_link t) link = Some r" "ring_ingest s r = (None, r)"
  shows "ingest link s persist t = (False, t)"
proof -
  have "ring_of t link = r" using assms(1) by (simp add: ring_of_def)
  with assms show ?thesis by (simp add: ingest_eq hm_insert_same)
qed

section \<open>The window\<close>

definition first_of :: "(raw_sample \<Rightarrow> 'a option) \<Rightarrow> raw_sample list \<Rightarrow> 'a option" where
  "first_of f xs = (case filter (\<lambda>s. f s \<noteq> None) xs of [] \<Rightarrow> None | s # _ \<Rightarrow> f s)"

lemma first_of_simps [simp]:
  "first_of f [] = None"
  "first_of f (s # ss) = opt_or (f s) (first_of f ss)"
  by (auto simp: first_of_def)

text \<open>The value of the newest sample that has the dimension and is at most \<open>h\<close> seconds old.\<close>

definition latest :: "(raw_sample \<Rightarrow> 'a option) \<Rightarrow> nat \<Rightarrow> nat \<Rightarrow> raw_sample list \<Rightarrow> 'a option" where
  "latest f h now ring =
     (case filter (\<lambda>s. f s \<noteq> None \<and> now - rs_ts s \<le> h) ring of [] \<Rightarrow> None | xs \<Rightarrow> f (last xs))"

lemma case_rev_last:
  "(case xs of [] \<Rightarrow> None | y # ys \<Rightarrow> f (last (y # ys))) = (case rev xs of [] \<Rightarrow> None | s # _ \<Rightarrow> f s)"
proof -
  have "(case rev xs of [] \<Rightarrow> None | s # _ \<Rightarrow> f s) = (if xs = [] then None else f (hd (rev xs)))"
    by (cases "rev xs") auto
  moreover have "(case xs of [] \<Rightarrow> None | y # ys \<Rightarrow> f (last (y # ys))) = (if xs = [] then None else f (last xs))"
    by (cases xs) simp_all
  ultimately show ?thesis by (simp add: hd_rev)
qed

lemma latest_first_of: "latest f h now ring = first_of f (rev (filter (\<lambda>s. now - rs_ts s \<le> h) ring))"
proof -
  have "filter (\<lambda>s. f s \<noteq> None) (rev (filter (\<lambda>s. now - rs_ts s \<le> h) ring))
      = rev (filter (\<lambda>s. f s \<noteq> None \<and> now - rs_ts s \<le> h) ring)"
    by (simp add: rev_filter conj_commute)
  then show ?thesis unfolding first_of_def latest_def by (simp only: case_rev_last)
qed

lemma takeWhile_rev_sorted:
  assumes "sorted_by f xs" "\<And>x y. P x \<Longrightarrow> f x < f y \<Longrightarrow> P y"
  shows "takeWhile P (rev xs) = rev (filter P xs)"
  using assms(1)
proof (induction xs)
  case (Cons a xs)
  show ?case
  proof (cases "\<forall>x \<in> set xs. P x")
    case True
    then have "filter P xs = xs" by (simp add: filter_id_conv)
    with True show ?thesis by (simp add: takeWhile_append)
  next
    case False
    with Cons.prems assms(2) have "\<not> P a" by auto
    with Cons False show ?thesis by (simp add: takeWhile_append)
  qed
qed simp

lemma scan_always_eq:
  "scan_always fresh now ss v = v
     \<lparr>wv_rtt_ms := opt_or (wv_rtt_ms v) (map_option of_f32 (first_of rs_rtt_ms (takeWhile (\<lambda>s. now - rs_ts s \<le> fresh) ss))),
      wv_loss_pct := opt_or (wv_loss_pct v) (map_option of_f32 (first_of rs_loss_pct (takeWhile (\<lambda>s. now - rs_ts s \<le> fresh) ss))),
      wv_jitter_ms := opt_or (wv_jitter_ms v) (map_option of_f32 (first_of rs_jitter_ms (takeWhile (\<lambda>s. now - rs_ts s \<le> fresh) ss)))\<rparr>"
proof (induction ss arbitrary: v)
  case (Cons s ss)
  have m: "map_option of_f32 (opt_or a b) = opt_or (map_option of_f32 a) (map_option of_f32 b)" for a b
    by (cases a) auto
  show ?case
    by (cases "now - rs_ts s \<le> fresh") (simp_all add: Cons.IH m opt_or_assoc not_le)
qed simp

definition udp_set :: "raw_sample \<Rightarrow> (f32 option \<times> f32 option \<times> f32 option) option" where
  "udp_set s = (if rs_udp_mbps s \<noteq> None \<or> rs_udp_loss_pct s \<noteq> None
     then Some (rs_udp_mbps s, rs_udp_jitter_ms s, rs_udp_loss_pct s) else None)"

definition tcp_aged :: "raw_sample \<Rightarrow> (f32 \<times> nat) option" where
  "tcp_aged s = map_option (\<lambda>v. (v, rs_ts s)) (rs_tcp_mbps s)"

lemma scan_tcp_eq:
  "scan_tcp spec now ss =
     (case first_of tcp_aged (takeWhile (\<lambda>s. now - rs_ts s \<le> ws_tcp_carry_secs spec) ss) of
        None \<Rightarrow> (None, False)
      | Some (v, ts) \<Rightarrow> (Some (of_f32 v), ws_tcp_fresh_secs spec < now - ts))"
  by (induction ss) (auto simp: Let_def tcp_aged_def not_le split: option.splits)

lemma scan_udp_eq:
  "scan_udp spec now ss v =
     (case first_of udp_set (takeWhile (\<lambda>s. now - rs_ts s \<le> ws_tcp_carry_secs spec) ss) of
        None \<Rightarrow> v
      | Some (m, j, l) \<Rightarrow> v\<lparr>wv_udp_mbps := map_option of_f32 m, wv_udp_jitter_ms := map_option of_f32 j,
          wv_udp_loss_pct := map_option of_f32 l\<rparr>)"
  by (induction ss) (auto simp: udp_set_def not_le)

text \<open>The window written declaratively.\<close>

definition window_reference :: "window_spec \<Rightarrow> nat \<Rightarrow> raw_sample list \<Rightarrow> window_view option" where
  "window_reference spec now ring =
     (let fresh = ws_always_fresh_secs spec; carry = ws_tcp_carry_secs spec in
      map_option (\<lambda>n.
        let udp = (case latest udp_set carry now ring of Some u \<Rightarrow> u | None \<Rightarrow> (None, None, None));
            tcp = latest tcp_aged carry now ring in
        window_view_default\<lparr>wv_ts := rs_ts n, wv_state := code_to_state (rs_state n),
          wv_util_mbps := of_f32 (rs_util_mbps n),
          wv_rtt_ms := map_option of_f32 (latest rs_rtt_ms fresh now ring),
          wv_loss_pct := map_option of_f32 (latest rs_loss_pct fresh now ring),
          wv_jitter_ms := map_option of_f32 (latest rs_jitter_ms fresh now ring),
          wv_tcp_mbps := map_option (of_f32 \<circ> fst) tcp,
          wv_tcp_carried := opt_any (\<lambda>(_, ts). ws_tcp_fresh_secs spec < now - ts) tcp,
          wv_udp_mbps := map_option of_f32 (fst udp),
          wv_udp_jitter_ms := map_option of_f32 (fst (snd udp)),
          wv_udp_loss_pct := map_option of_f32 (snd (snd udp))\<rparr>)
      (latest Some carry now ring))"

lemma find_first_of: "find P xs = first_of Some (filter P xs)"
  by (induction xs) auto

lemma age_mono: "now - rs_ts x \<le> h \<Longrightarrow> rs_ts x < rs_ts y \<Longrightarrow> now - rs_ts y \<le> (h::nat)"
  by linarith

lemma ring_window_eq:
  assumes "sorted_by rs_ts ring" shows "ring_window spec now ring = window_reference spec now ring"
proof -
  have tw: "takeWhile (\<lambda>s. now - rs_ts s \<le> h) (rev ring) = rev (filter (\<lambda>s. now - rs_ts s \<le> h) ring)" for h
    by (rule takeWhile_rev_sorted [OF assms]) (rule age_mono)
  have find: "find (\<lambda>s. now - rs_ts s \<le> h) (rev ring) = latest Some h now ring" for h
    by (simp add: find_first_of latest_first_of rev_filter)
  show ?thesis
    unfolding ring_window_def window_reference_def find
    by (cases "latest Some (ws_tcp_carry_secs spec) now ring")
      (simp_all add: Let_def scan_always_eq scan_tcp_eq scan_udp_eq tw latest_first_of window_view_default_def
        split: option.splits prod.splits)
qed


section \<open>Feeding a peer from the change log\<close>

text \<open>The contract between gossip and the store: a delta is the next stretch of a log with
  increasing numbers, and the watermark to acknowledge is the last number of the stretch.\<close>

locale delta_log =
  fixes entries :: "'s \<Rightarrow> (nat \<times> 'e) list" and next_no :: "'s \<Rightarrow> nat"
    and delta :: "nat \<Rightarrow> 's \<Rightarrow> (nat \<times> 'e) list \<times> nat" and valid :: "'s \<Rightarrow> bool"
  assumes entries_sorted: "valid s \<Longrightarrow> sorted_by fst (entries s)"
    and entries_below: "valid s \<Longrightarrow> e \<in> set (entries s) \<Longrightarrow> fst e < next_no s"
    and delta_stretch: "valid s \<Longrightarrow> \<exists>n. fst (delta w s) = take n (filter (\<lambda>e. w < fst e) (entries s))"
    and delta_mark: "valid s \<Longrightarrow> snd (delta w s) = (if fst (delta w s) = [] then w else fst (last (fst (delta w s))))"
begin

text \<open>State, watermark of the peer, what it has acknowledged so far.\<close>

inductive feed :: "'s \<times> nat \<times> (nat \<times> 'e) list \<Rightarrow> 's \<times> nat \<times> (nat \<times> 'e) list \<Rightarrow> bool" where
  grow: "valid s' \<Longrightarrow> entries s' = entries s @ new \<Longrightarrow> \<forall>e \<in> set new. next_no s \<le> fst e
    \<Longrightarrow> next_no s \<le> next_no s' \<Longrightarrow> feed (s, w, got) (s', w, got)"
| ack: "feed (s, w, got) (s, snd (delta w s), got @ fst (delta w s))"

definition fed :: "'s \<times> nat \<times> (nat \<times> 'e) list \<Rightarrow> bool" where
  "fed st \<longleftrightarrow> (case st of (s, w, got) \<Rightarrow> valid s \<and> w < next_no s
     \<and> got = filter (\<lambda>e. fst e \<le> w) (entries s))"

lemma stretch_split:
  fixes es :: "(nat \<times> 'e) list"
  assumes "sorted_by fst es" "us = take n (filter (\<lambda>e. w < fst e) es)" "us \<noteq> []"
  shows "filter (\<lambda>e. fst e \<le> w) es @ us = filter (\<lambda>e. fst e \<le> fst (last us)) es \<and> w < fst (last us)
    \<and> last us \<in> set es"
proof -
  let ?b = "filter (\<lambda>e. w < fst e) es"
  obtain vs where b: "?b = us @ vs" using assms(2) by (metis append_take_drop_id)
  have "takeWhile (\<lambda>e. fst e \<le> w) es = filter (\<lambda>e. fst e \<le> w) es"
    "dropWhile (\<lambda>e. fst e \<le> w) es = ?b"
    using sorted_by_takeWhile_less [OF assms(1), of "Suc w"] sorted_by_dropWhile_less [OF assms(1), of "Suc w"]
    by (simp_all add: less_Suc_eq_le Suc_le_eq)
  then have split: "es = filter (\<lambda>e. fst e \<le> w) es @ ?b"
    by (metis takeWhile_dropWhile_id)
  have srt: "sorted_by fst ?b" using assms(1) by (rule sorted_by_filter)
  have l: "last us \<in> set ?b" unfolding b using assms(3) by simp
  obtain us' x where us': "us = us' @ [x]" using assms(3) by (cases us rule: rev_cases) auto
  have u: "\<forall>e \<in> set us. fst e \<le> fst (last us)"
    using srt unfolding b us' by (auto simp: less_imp_le)
  have v: "\<forall>e \<in> set vs. fst (last us) < fst e"
    using srt assms(3) unfolding b by simp
  have "filter (\<lambda>e. fst e \<le> fst (last us)) es
      = filter (\<lambda>e. fst e \<le> fst (last us)) (filter (\<lambda>e. fst e \<le> w) es @ us @ vs)"
    using split b by simp
  also have "\<dots> = filter (\<lambda>e. fst e \<le> w) es @ us"
  proof -
    have "filter (\<lambda>e. fst e \<le> fst (last us)) (filter (\<lambda>e. fst e \<le> w) es) = filter (\<lambda>e. fst e \<le> w) es"
      by (rule filter_True) (use l in auto)
    moreover have "filter (\<lambda>e. fst e \<le> fst (last us)) us = us" by (rule filter_True) (rule u)
    moreover have "filter (\<lambda>e. fst e \<le> fst (last us)) vs = []"
      by (rule filter_False) (use v in auto)
    ultimately show ?thesis unfolding filter_append by (simp only: append_Nil2)
  qed
  finally show ?thesis using l by auto
qed

lemma fed_step: "fed st \<Longrightarrow> feed st st' \<Longrightarrow> fed st'"
proof (erule feed.cases)
  fix s s' w got and new :: "(nat \<times> 'e) list"
  assume f: "fed st" and st: "st = (s, w, got)" "st' = (s', w, got)"
    and v: "valid s'" and e: "entries s' = entries s @ new"
    and n: "\<forall>e \<in> set new. next_no s \<le> fst e" "next_no s \<le> next_no s'"
  have "filter (\<lambda>e. fst e \<le> w) new = []"
    using f n st by (auto simp: fed_def filter_empty_conv not_le)
  with f v e n(2) show "fed st'" by (simp add: fed_def st)
next
  fix s w got
  assume f: "fed st" and st: "st = (s, w, got)" "st' = (s, snd (delta w s), got @ fst (delta w s))"
  then have v: "valid s" by (simp add: fed_def)
  obtain n where n: "fst (delta w s) = take n (filter (\<lambda>e. w < fst e) (entries s))"
    using delta_stretch [OF v] by blast
  show "fed st'"
  proof (cases "fst (delta w s) = []")
    case True
    with f st delta_mark [OF v, of w] show ?thesis by (simp add: fed_def)
  next
    case False
    from stretch_split [OF entries_sorted [OF v] n False] f st v delta_mark [OF v, of w] False
      entries_below [OF v, of "last (fst (delta w s))"]
    show ?thesis by (simp add: fed_def)
  qed
qed

lemma fed_run: "feed\<^sup>*\<^sup>* st st' \<Longrightarrow> fed st \<Longrightarrow> fed st'"
  by (erule run_invariant) (auto intro: fed_step)

end

lemma take_delta_eq:
  assumes "sorted_by fst (td_recent t)"
  shows "fst (take_delta w n t) = take n (filter (\<lambda>e. w < fst e) (td_recent t))"
proof -
  have "drop (partition_point (\<lambda>e. fst e \<le> w) (td_recent t)) (td_recent t)
      = filter (\<lambda>e. w < fst e) (td_recent t)"
    using sorted_by_dropWhile_less [OF assms, of "Suc w"]
    by (simp add: drop_partition_point less_Suc_eq_le Suc_le_eq)
  moreover have "length (td_recent t) - partition_point (\<lambda>e. fst e \<le> w) (td_recent t)
      = length (drop (partition_point (\<lambda>e. fst e \<le> w) (td_recent t)) (td_recent t))"
    by simp
  ultimately show ?thesis by (simp add: take_delta_def Let_def min_def)
qed

interpretation gossip_log: delta_log td_recent td_seq "\<lambda>w t. take_delta w delta_limit t" tsdb_ok
proof
  fix t :: tsdb and w and e :: "nat \<times> link_key \<times> raw_sample"
  assume ok: "tsdb_ok t"
  then show s: "sorted_by fst (td_recent t)" by (simp add: tsdb_ok_def)
  show "\<exists>n. fst (take_delta w delta_limit t) = take n (filter (\<lambda>e. w < fst e) (td_recent t))"
    using take_delta_eq [OF s] by blast
  show "snd (take_delta w delta_limit t) = (if fst (take_delta w delta_limit t) = [] then w
      else fst (last (fst (take_delta w delta_limit t))))"
    by (simp only: take_delta_def Let_def fst_conv snd_conv)
  show "e \<in> set (td_recent t) \<Longrightarrow> fst e < td_seq t" using ok by (simp add: tsdb_ok_def list_all_iff)
qed

text \<open>The rounds with one peer: samples arrive, a round succeeds and is acknowledged, or it is
  lost and the watermark stays.\<close>

inductive feed_step ::
  "string \<Rightarrow> tsdb \<times> (nat \<times> link_key \<times> raw_sample) list \<Rightarrow> tsdb \<times> (nat \<times> link_key \<times> raw_sample) list \<Rightarrow> bool"
  for peer where
  arrives: "td_seq t + 1 < 2 ^ 64 \<Longrightarrow> feed_step peer (t, got) (snd (ingest link s persist t), got)"
| acked: "take_delta (sent_watermark t peer) delta_limit t = (out, mark)
    \<Longrightarrow> feed_step peer (t, got) (note_sent peer mark t, got @ out)"
| lost: "feed_step peer (t, got) (t, got)"

definition peer_view :: "string \<Rightarrow> tsdb \<times> (nat \<times> link_key \<times> raw_sample) list
    \<Rightarrow> tsdb \<times> nat \<times> (nat \<times> link_key \<times> raw_sample) list" where
  "peer_view peer = (\<lambda>(t, got). (t, sent_watermark t peer, got))"

lemma note_sent_simps [simp]:
  "td_recent (note_sent p w t) = td_recent t" "td_seq (note_sent p w t) = td_seq t"
  "sent_watermark (note_sent p w t) p = w"
  by (simp_all add: note_sent_def sent_watermark_def)

lemma tsdb_ok_note_sent [simp]: "tsdb_ok (note_sent p w t) = tsdb_ok t"
  by (simp add: tsdb_ok_def note_sent_def ring_of_def buckets_of_def)

lemma sent_watermark_ingest [simp]:
  "sent_watermark (snd (ingest link s persist t)) p = sent_watermark t p"
  by (simp add: sent_watermark_def ingest_eq publish_def split: prod.splits option.splits)

lemma fed_feed_step:
  assumes "gossip_log.fed (peer_view peer st)" "feed_step peer st st'"
  shows "gossip_log.fed (peer_view peer st')"
  using assms(2)
proof cases
  case (arrives t got link s persist)
  have ok: "tsdb_ok t" using assms(1) by (simp add: arrives peer_view_def gossip_log.fed_def)
  have "gossip_log.feed (t, sent_watermark t peer, got)
      (snd (ingest link s persist t), sent_watermark t peer, got)"
    by (rule gossip_log.grow [OF tsdb_ok_ingest [OF ok arrives(3)] recent_ingest])
      (auto simp: seq_ingest add64_small [OF arrives(3), simplified] split: option.splits)
  from gossip_log.fed_step [OF _ this] assms(1) show ?thesis by (simp add: arrives peer_view_def)
next
  case (acked t out mark got)
  from gossip_log.fed_step [OF _ gossip_log.ack [of t "sent_watermark t peer" got]] assms(1)
  show ?thesis by (simp add: acked peer_view_def gossip_log.fed_def)
next
  case lost
  with assms(1) show ?thesis by simp
qed

lemma fed_feed_run:
  "(feed_step peer)\<^sup>*\<^sup>* st st' \<Longrightarrow> gossip_log.fed (peer_view peer st) \<Longrightarrow> gossip_log.fed (peer_view peer st')"
  by (erule run_invariant) (auto intro: fed_feed_step)

lemma fed_empty: "gossip_log.fed (peer_view peer (tsdb_empty cfg, []))"
  by (simp add: peer_view_def gossip_log.fed_def) (simp add: tsdb_empty_def sent_watermark_def)


section \<open>Properties\<close>


text \<open>Ingest is idempotent: sending a sample again right after it was sent (accepted or not)
  is refused and leaves the whole store as it is, as long as no float involved is NaN.\<close>

theorem ingest_resend_noop:
  assumes "tsdb_ok t" "nan_free s" "list_all nan_free (rg_samples (ring_of t link))"
  shows "ingest link s persist' (snd (ingest link s persist t)) = (False, snd (ingest link s persist t))"
  by (rule ingest_rejected [OF hm_get_by_link_ingest ring_resend])
    (use assms in \<open>simp_all add: tsdb_ok_def\<close>)

text \<open>C29: pruned history never returns: once a prune has dropped a sample, then after any further
  operations no sample of the link at or before its time is accepted, and a refused sample
  touches neither ring, buckets nor the change log; a peer's replay is not counted twice.\<close>

theorem pruned_history_stays_out:
  assumes "tsdb_ok t" "old \<in> set (rg_samples (ring_of t link))"
    and "rs_ts old < now - ts_raw_retention_secs (td_cfg t)"
    and "tsdb_step\<^sup>*\<^sup>* (tsdb_prune now t) t'" and "rs_ts s \<le> rs_ts old"
  shows "\<not> fst (ingest link s persist t')
    \<and> ring_of (snd (ingest link s persist t')) l = ring_of t' l
    \<and> buckets_of (snd (ingest link s persist t')) l = buckets_of t' l
    \<and> td_recent (snd (ingest link s persist t')) = td_recent t'"
proof (rule floor_rejects)
  have "rs_ts old \<le> rg_floor (ring_of (tsdb_prune now t) link)"
    using assms(1-3) by (simp add: pruned_floor tsdb_ok_def ring_ok_def)
  also have "\<dots> \<le> rg_floor (ring_of t' link)"
    using floor_run [OF assms(4) tsdb_ok_prune [OF assms(1)]] by blast
  finally show "rs_ts s \<le> rg_floor (ring_of t' link)" using assms(5) by simp
qed

text \<open>C21: buckets are exact: after ingesting any samples for any links, in any order and with any
  repetition (fewer than evict from a ring), every bucket's count of a dimension is the number
  of ring samples of its minute that carry the dimension, so merges and resends are never
  counted twice.\<close>

theorem buckets_count_exactly:
  assumes "length samples \<le> raw_ring_cap"
    and "b \<in> set (buckets_of (merge_delta samples (tsdb_empty cfg)) l)"
  shows "da_n (agg_of d b) = cnt d (bk_bucket b) (rg_samples (ring_of (merge_delta samples (tsdb_empty cfg)) l))"
proof -
  have "counted (rg_samples (ring_of (merge_delta samples (tsdb_empty cfg)) l))
      (buckets_of (merge_delta samples (tsdb_empty cfg)) l)"
    by (rule counted_run)
      (use assms(1) in \<open>simp add: ring_of_def buckets_of_def tsdb_empty_def, simp add: ring_default_def\<close>)
  with assms(2) show ?thesis by (simp add: counted_def)
qed

text \<open>C27: the classifier's window is the declarative one: every dimension is the value of the newest
  sample that carries it within its horizon, the UDP leg travels as one set, throughput is
  flagged as carried exactly when it is older than its fresh window, and there is no window
  exactly when no sample is within the carry horizon.\<close>

theorem window_is_newest_in_horizon:
  assumes "tsdb_ok t"
  shows "tsdb_window t link spec now = window_reference spec now (rg_samples (ring_of t link))"
proof (cases "hm_get (td_by_link t) link")
  case None
  then show ?thesis
    by (simp add: tsdb_window_def ring_of_def ring_default_def window_reference_def latest_def Let_def)
next
  case (Some r)
  then have "ring_of t link = r" by (simp add: ring_of_def)
  with assms have "sorted_by rs_ts (rg_samples r)" by (auto simp: tsdb_ok_def ring_ok_def)
  with Some show ?thesis by (simp add: tsdb_window_def ring_of_def ring_window_eq)
qed


text \<open>The database key of a link is read back as the link, as long as node names carry no
  slash (the interface may).\<close>

theorem parse_link_id_round_trip:
  assumes "slash_free l" shows "parse_link_id (link_id l) = l"
  using assms
  by (cases l) (simp add: parse_link_id_def link_id_def slash_free_def split_once_append new_link_def)


section \<open>Where the code falls short\<close>

definition ts_small :: ts_cfg where
  "ts_small = \<lparr>ts_path = ''db'', ts_raw_retention_secs = 10, ts_agg_retention_secs = 100\<rparr>"

definition lossy :: "nat \<Rightarrow> rat \<Rightarrow> raw_sample" where
  "lossy ts x = raw_sample_default\<lparr>rs_ts := ts, rs_loss_pct := Some (Fin x)\<rparr>"

definition key_ab :: link_key where
  "key_ab = new_link ''hub-a'' ''hub-b'' ''awg0''"

definition key_ba :: link_key where
  "key_ba = new_link ''hub-b'' ''hub-a'' ''awg0''"

text \<open>A resend is not harmless when two reports of one second disagree: after the samples with
  1 and then 2 percent loss, sending the first again is accepted, overwrites the newer value
  and enters the change log again, and so does sending the second after it.\<close>

theorem conflicting_resends_alternate:
  "(let t0 = tsdb_empty ts_small; t1 = append_sample key_ab (lossy 5 1) t0;
        t2 = append_sample key_ab (lossy 5 2) t1; t3 = append_sample key_ab (lossy 5 1) t2;
        t4 = append_sample key_ab (lossy 5 2) t3
    in rg_samples (ring_of t2 key_ab) = [lossy 5 2] \<and> rg_samples (ring_of t3 key_ab) = [lossy 5 1]
       \<and> rg_samples (ring_of t4 key_ab) = [lossy 5 2] \<and> length (td_recent t4) = 4)"
  by code_simp

text \<open>Two threads: the first allocates number 1, the second stores and publishes number 2, a round
  with a peer succeeds, then the first publishes.\<close>

definition late_alloc :: "(nat \<times> raw_sample) option \<times> tsdb" where
  "late_alloc = ingest_store key_ab (lossy 5 1) (tsdb_empty ts_small)"

definition late_store :: tsdb where
  "late_store = append_sample key_ba (lossy 6 1) (snd late_alloc)"

definition late_delta :: "(nat \<times> link_key \<times> raw_sample) list \<times> nat" where
  "late_delta = take_delta (sent_watermark late_store ''hub-c'') 3 late_store"

definition late_log :: tsdb where
  "late_log = publish (fst (the (fst late_alloc))) key_ab (snd (the (fst late_alloc))) True
     (note_sent ''hub-c'' (snd late_delta) late_store)"

text \<open>A sample whose sequence number was allocated before a delta was taken but published after
  it is never sent: the delta carries the later number, the acknowledged watermark passes the
  earlier one, and the next delta is empty although the log holds the unsent sample.\<close>

theorem late_publish_never_sent:
  "map fst (fst late_delta) = [2] \<and> map fst (td_recent late_log) = [2, 1]
    \<and> fst (take_delta (sent_watermark late_log ''hub-c'') 3 late_log) = []"
  by (intro conjI; code_simp)

text \<open>When the transaction cannot be opened, the flush queues the raw samples again but drops
  every changed bucket, whatever the store held.\<close>

theorem failed_flush_loses_buckets:
  "flush_drain False (t\<lparr>td_open := True\<rparr>) = (None, t\<lparr>td_open := True, td_dirty := []\<rparr>)"
  by (simp add: flush_drain_def Let_def)

lemma td_open_ingest [simp]: "td_open (snd (ingest link s persist t)) = td_open t"
  by (simp add: ingest_eq publish_def split: prod.splits option.splits)

lemma dirty_ingest: "hm_get (td_dirty t) k \<noteq> None \<Longrightarrow> hm_get (td_dirty (snd (ingest link s persist t))) k \<noteq> None"
  by (auto simp: ingest_eq publish_def split: prod.splits option.splits)

lemma memory_mode_step:
  "\<not> td_open t \<and> hm_get (td_dirty t) k \<noteq> None \<Longrightarrow> tsdb_step t t'
    \<Longrightarrow> \<not> td_open t' \<and> hm_get (td_dirty t') k \<noteq> None"
  by (erule tsdb_stepE) (auto simp: dirty_ingest tsdb_prune_def note_sent_def flush_drain_def Let_def
      dest: dirty_ingest [simplified])

text \<open>Without a database the queue of changed buckets only grows: an entry, once queued, is
  never removed by any operation, pruning and flushing included, so a memory-only node keeps
  a copy of every bucket it ever touched.\<close>

theorem dirty_buckets_never_leave_memory_mode:
  assumes "\<not> td_open t" "hm_get (td_dirty t) (l, ts) \<noteq> None" "tsdb_step\<^sup>*\<^sup>* t t'"
  shows "hm_get (td_dirty t') (l, ts) \<noteq> None"
proof -
  have "\<not> td_open t' \<and> hm_get (td_dirty t') (l, ts) \<noteq> None"
    by (rule run_invariant [OF assms(3)]) (use assms(1,2) memory_mode_step in blast)+
  then show ?thesis ..
qed

text \<open>A restart forgets part of the oldest bucket: where raw retention starts inside a minute, the
  bucket rebuilt from the remaining raw rows takes the place of the stored one (here one
  sample instead of four) and is queued to overwrite it.\<close>

theorem restart_truncates_boundary_bucket:
  "(let full = fold (\<lambda>ts. bk_add (lossy ts 1)) [60, 61, 62, 70] bucket_default;
        t = tsdb_load 75 [((link_id key_ab, 70), lossy 70 1)] [((link_id key_ab, 60), full)] (tsdb_empty ts_small)
    in da_n (bk_loss full) = 4 \<and> map (\<lambda>b. (bk_bucket b, da_n (bk_loss b))) (buckets_of t key_ab) = [(60, 1)]
       \<and> map (\<lambda>(k, b). (snd k, da_n (bk_loss b))) (td_dirty t) = [(60, 1)])"
  by code_simp

section \<open>Witnesses\<close>

definition one_sample :: tsdb where
  "one_sample = snd (ingest key_ab (lossy 5 1) True (tsdb_empty ts_small))"

lemma step_one_sample: "tsdb_step (tsdb_empty ts_small) one_sample"
  unfolding one_sample_def by (rule ingesting) (simp add: tsdb_empty_def)

lemma tsdb_ok_one_sample: "tsdb_ok one_sample"
  by (rule tsdb_ok_step [OF tsdb_ok_empty step_one_sample])


theorem ingest_resend_noop_witness:
  "ingest key_ab (lossy 7 2) True (snd (ingest key_ab (lossy 7 2) True one_sample))
    = (False, snd (ingest key_ab (lossy 7 2) True one_sample))"
proof (rule ingest_resend_noop [OF tsdb_ok_one_sample])
  show "nan_free (lossy 7 2)" by (simp add: nan_free_def lossy_def raw_sample_default_def)
  have "rg_samples (ring_of one_sample key_ab) = [lossy 5 1]" by code_simp
  then show "list_all nan_free (rg_samples (ring_of one_sample key_ab))"
    by (simp add: nan_free_def lossy_def raw_sample_default_def)
qed

theorem pruned_history_stays_out_witness:
  "\<not> fst (ingest key_ab (lossy 5 2) True (tsdb_prune 30 one_sample))
    \<and> ring_of (snd (ingest key_ab (lossy 5 2) True (tsdb_prune 30 one_sample))) key_ab
      = ring_of (tsdb_prune 30 one_sample) key_ab
    \<and> buckets_of (snd (ingest key_ab (lossy 5 2) True (tsdb_prune 30 one_sample))) key_ab
      = buckets_of (tsdb_prune 30 one_sample) key_ab
    \<and> td_recent (snd (ingest key_ab (lossy 5 2) True (tsdb_prune 30 one_sample)))
      = td_recent (tsdb_prune 30 one_sample)"
proof (rule pruned_history_stays_out [OF tsdb_ok_one_sample])
  have "rg_samples (ring_of one_sample key_ab) = [lossy 5 1]" by code_simp
  then show "lossy 5 1 \<in> set (rg_samples (ring_of one_sample key_ab))" by simp
  show "rs_ts (lossy 5 1) < 30 - ts_raw_retention_secs (td_cfg one_sample)" by code_simp
  show "tsdb_step\<^sup>*\<^sup>* (tsdb_prune 30 one_sample) (tsdb_prune 30 one_sample)" by simp
  show "rs_ts (lossy 5 2) \<le> rs_ts (lossy 5 1)" by (simp add: lossy_def)
qed

definition three_reports :: "(link_key \<times> raw_sample) list" where
  "three_reports = [(key_ab, lossy 65 1), (key_ab, lossy 62 2), (key_ab, lossy 65 1)]"

definition first_bucket :: bucket where
  "first_bucket = hd (buckets_of (merge_delta three_reports (tsdb_empty ts_small)) key_ab)"

theorem buckets_count_exactly_witness:
  "da_n (agg_of DLoss first_bucket) = cnt DLoss (bk_bucket first_bucket)
      (rg_samples (ring_of (merge_delta three_reports (tsdb_empty ts_small)) key_ab))
    \<and> da_n (agg_of DLoss first_bucket) = 2"
proof
  have "buckets_of (merge_delta three_reports (tsdb_empty ts_small)) key_ab \<noteq> []" by code_simp
  then have "first_bucket \<in> set (buckets_of (merge_delta three_reports (tsdb_empty ts_small)) key_ab)"
    unfolding first_bucket_def by (rule hd_in_set)
  then show "da_n (agg_of DLoss first_bucket) = cnt DLoss (bk_bucket first_bucket)
      (rg_samples (ring_of (merge_delta three_reports (tsdb_empty ts_small)) key_ab))"
    by (rule buckets_count_exactly [rotated]) (simp add: three_reports_def raw_ring_cap_def)
  show "da_n (agg_of DLoss first_bucket) = 2" by code_simp
qed

theorem window_is_newest_in_horizon_witness:
  "tsdb_window one_sample key_ab \<lparr>ws_always_fresh_secs = 6, ws_tcp_fresh_secs = 20, ws_tcp_carry_secs = 30\<rparr> 9
    = window_reference \<lparr>ws_always_fresh_secs = 6, ws_tcp_fresh_secs = 20, ws_tcp_carry_secs = 30\<rparr> 9
        (rg_samples (ring_of one_sample key_ab))"
  by (rule window_is_newest_in_horizon) (rule tsdb_ok_one_sample)


theorem parse_link_id_round_trip_witness: "parse_link_id (link_id key_ab) = key_ab"
  by (rule parse_link_id_round_trip) code_simp

theorem dirty_buckets_never_leave_memory_mode_witness:
  "hm_get (td_dirty (snd (flush_drain True (tsdb_prune 9000 one_sample)))) (key_ab, 0) \<noteq> None"
proof (rule dirty_buckets_never_leave_memory_mode)
  show "\<not> td_open one_sample" by code_simp
  show "hm_get (td_dirty one_sample) (key_ab, 0) \<noteq> None" by code_simp
  show "tsdb_step\<^sup>*\<^sup>* one_sample (snd (flush_drain True (tsdb_prune 9000 one_sample)))"
    by (rule rtranclp.rtrancl_into_rtrancl [OF r_into_rtranclp [where r = tsdb_step, OF pruning] flushing])
qed

end
