(* ===== verification/Durability.thy ===== *)
theory Durability
  imports TsdbLaws "HOL-Library.List_Lexorder" "HOL-Library.Char_ord" "HOL-Library.Product_Lexorder"
begin

text \<open>
  The durable copy of the time-series store (\<open>flush\<close> and \<open>load\<close> of \<open>crates/controller/src/tsdb.rs\<close>) across
  restarts. The embedded database is two ordered tables whose values are encoded samples and buckets;
  \<open>tsdb_flush\<close> is a whole flush, with the two ways in which its transaction can fail, and \<open>tsdb_new\<close> the
  start of the store on what a database holds. The codec is an argument, of which only is used that a
  finite sample reads back.

  The lemmas follow one relation between the rings, the queue and the table through any run of appends,
  prunes, flushes and restarts (\<open>durable_step\<close>): above the replay floor and within retention, the table with the
  queue laid over it is the ring. So what a flush wrote is what a restart finds.
\<close>

section \<open>Tables\<close>

text \<open>A table of the database, in the order of its keys.\<close>

type_synonym 'v table = "((string \<times> nat) \<times> 'v) list"

definition row_put :: "'k :: linorder \<Rightarrow> 'v \<Rightarrow> ('k \<times> 'v) list \<Rightarrow> ('k \<times> 'v) list" where
  "row_put k v t = takeWhile (\<lambda>(k', _). k' < k) t @ (k, v) # dropWhile (\<lambda>(k', _). k' \<le> k) t"

definition row_del :: "'k \<Rightarrow> ('k \<times> 'v) list \<Rightarrow> ('k \<times> 'v) list" where
  "row_del k t = filter (\<lambda>(k', _). k' \<noteq> k) t"

record ('s, 'b) database =
  db_raw :: "'s table"
  db_agg :: "'b table"

definition db_empty :: "('s, 'b) database" where
  "db_empty = \<lparr>db_raw = [], db_agg = []\<rparr>"

text \<open>The codec of the values: \<open>serde_json::to_vec(..).unwrap_or_default()\<close> and \<open>serde_json::from_slice\<close>.\<close>

record ('s, 'b) codec =
  cd_raw :: "raw_sample \<Rightarrow> 's"
  cd_agg :: "bucket \<Rightarrow> 'b"
  cd_raw_of :: "'s \<Rightarrow> raw_sample option"
  cd_agg_of :: "'b \<Rightarrow> bucket option"

fun db_apply :: "('s, 'b) codec \<Rightarrow> db_op \<Rightarrow> ('s, 'b) database \<Rightarrow> ('s, 'b) database" where
  "db_apply c (RawPut l ts s) d = d\<lparr>db_raw := row_put (l, ts) (cd_raw c s) (db_raw d)\<rparr>"
| "db_apply c (RawDel l ts) d = d\<lparr>db_raw := row_del (l, ts) (db_raw d)\<rparr>"
| "db_apply c (AggPut l ts b) d = d\<lparr>db_agg := row_put (l, ts) (cd_agg c b) (db_agg d)\<rparr>"
| "db_apply c (AggDel l ts) d = d\<lparr>db_agg := row_del (l, ts) (db_agg d)\<rparr>"

text \<open>The transaction: the stale keys are collected from the tables after the inserts.\<close>

definition flush_commit :: "('s, 'b) codec \<Rightarrow> nat \<Rightarrow> ts_cfg \<Rightarrow> (link_key \<times> raw_sample) list
    \<Rightarrow> ((link_key \<times> nat) \<times> bucket) list \<Rightarrow> ('s, 'b) database \<Rightarrow> ('s, 'b) database" where
  "flush_commit c now cfg raw dirty d =
     (let raw_keys = map fst (fold (\<lambda>(l, s). row_put (link_id l, rs_ts s) (cd_raw c s)) raw (db_raw d));
          agg_keys = map fst (fold (\<lambda>((l, ts), b). row_put (link_id l, ts) (cd_agg c b)) dirty (db_agg d))
      in fold (db_apply c) (flush_ops now cfg raw dirty raw_keys agg_keys) d)"

section \<open>Flush and start\<close>

text \<open>A flush. When the transaction fails after it was opened, a warning is all that is left of it.\<close>

definition tsdb_flush ::
  "('s, 'b) codec \<Rightarrow> bool \<Rightarrow> bool \<Rightarrow> nat \<Rightarrow> tsdb \<times> ('s, 'b) database \<Rightarrow> tsdb \<times> ('s, 'b) database" where
  "tsdb_flush c begin_ok commit_ok now p =
     (let (t, d) = p in
      case flush_drain begin_ok t of
        (None, t') \<Rightarrow> (t', d)
      | (Some (raw, dirty), t') \<Rightarrow> (t', if commit_ok then flush_commit c now (td_cfg t) raw dirty d else d))"

text \<open>The rows of a table that decode, in its order.\<close>

definition rows_of :: "('v \<Rightarrow> 'a option) \<Rightarrow> 'v table \<Rightarrow> ((string \<times> nat) \<times> 'a) list" where
  "rows_of dec t = List.map_filter (\<lambda>(k, v). map_option (Pair k) (dec v)) t"

definition tsdb_new :: "('s, 'b) codec \<Rightarrow> bool \<Rightarrow> nat \<Rightarrow> ('s, 'b) database \<Rightarrow> ts_cfg \<Rightarrow> tsdb" where
  "tsdb_new c opened now d cfg =
     (if opened then tsdb_load now (rows_of (cd_raw_of c) (db_raw d)) (rows_of (cd_agg_of c) (db_agg d)) (tsdb_empty cfg)
      else tsdb_empty cfg)"

section \<open>Runs\<close>

definition finite_sample :: "raw_sample \<Rightarrow> bool" where
  "finite_sample s \<longleftrightarrow> is_finite (rs_util_mbps s) \<and> list_all (\<lambda>v. opt_all is_finite v)
     [rs_rtt_ms s, rs_loss_pct s, rs_jitter_ms s, rs_tcp_mbps s, rs_udp_mbps s, rs_udp_jitter_ms s,
      rs_udp_loss_pct s, rs_mark_loss_pct s, rs_mark_rate_mbps s]"

text \<open>What JSON keeps: finite numbers.\<close>

definition lossless :: "('s, 'b) codec \<Rightarrow> bool" where
  "lossless c \<longleftrightarrow> (\<forall>s. finite_sample s \<longrightarrow> cd_raw_of c (cd_raw c s) = Some s)"

text \<open>The store, its database and the clock. A restart may come at any moment: what was still queued is lost.\<close>

inductive durable_step :: "('s, 'b) codec \<Rightarrow> tsdb \<times> ('s, 'b) database \<times> nat \<Rightarrow> tsdb \<times> ('s, 'b) database \<times> nat \<Rightarrow> bool"
  for c :: "('s, 'b) codec" where
  clock: "now \<le> now' \<Longrightarrow> durable_step c (t, d, now) (t, d, now')"
| append: "slash_free l \<Longrightarrow> finite_sample s \<Longrightarrow> durable_step c (t, d, now) (append_sample l s t, d, now)"
| acknowledge: "durable_step c (t, d, now) (note_sent peer w t, d, now)"
| prune: "durable_step c (t, d, now) (tsdb_prune now t, d, now)"
| flush: "tsdb_flush c begin_ok True now (t, d) = (t', d') \<Longrightarrow> durable_step c (t, d, now) (t', d', now)"
| restart: "durable_step c (t, d, now) (tsdb_new c True now d (td_cfg t), d, now)"

inductive_cases durable_stepE: "durable_step c (t, d, now) x"

section \<open>Tables as maps\<close>

abbreviation table_ok :: "('k :: linorder \<times> 'v) list \<Rightarrow> bool" where
  "table_ok t \<equiv> sorted_wrt (<) (map fst t)"

lemma table_put_eq:
  assumes "table_ok t"
  shows "row_put k v t = filter (\<lambda>(k', _). k' < k) t @ (k, v) # filter (\<lambda>(k', _). k < k') t"
proof -
  have "takeWhile (\<lambda>(k', _). k' < k) t = filter (\<lambda>(k', _). k' < k) t"
    using assms by (induction t) (auto intro!: filter_False [symmetric])
  moreover have "dropWhile (\<lambda>(k', _). k' \<le> k) t = filter (\<lambda>(k', _). k < k') t"
    using assms by (induction t) (auto simp: not_le intro!: filter_True [symmetric])
  ultimately show ?thesis by (simp add: row_put_def)
qed

lemma table_ok_filter: "table_ok t \<Longrightarrow> table_ok (filter P t)"
  by (simp add: sorted_wrt_map sorted_wrt_filter)

lemma table_ok_put [simp]:
  assumes "table_ok t" shows "table_ok (row_put k v t)"
  using table_ok_filter [OF assms]
  by (auto simp: table_put_eq [OF assms] sorted_wrt_append split_beta intro: less_trans)

lemma table_ok_del [simp]: "table_ok t \<Longrightarrow> table_ok (row_del k t)"
  by (simp add: row_del_def table_ok_filter)

lemma map_of_filter_key: "map_of (filter (\<lambda>(k, _). P k) t) k = (if P k then map_of t k else None)"
  by (induction t) auto

lemma map_of_put [simp]:
  assumes "table_ok t" shows "map_of (row_put k v t) k' = (if k' = k then Some v else map_of t k')"
  by (cases k' k rule: linorder_cases)
    (auto simp: table_put_eq [OF assms] map_add_def map_of_filter_key split: option.split)

lemma map_of_del [simp]: "map_of (row_del k t) k' = (if k' = k then None else map_of t k')"
  by (simp add: row_del_def map_of_filter_key)

lemma set_put: "set (row_put k v t) \<subseteq> insert (k, v) (set t)"
  by (auto simp: row_put_def dest: set_takeWhileD set_dropWhileD)

lemma set_del: "set (row_del k t) \<subseteq> set t"
  by (auto simp: row_del_def)

lemma table_in_set: "table_ok t \<Longrightarrow> (k, v) \<in> set t \<longleftrightarrow> map_of t k = Some v"
  by (simp add: strict_sorted_iff)

section \<open>Loading a table\<close>

text \<open>The ring after the samples of a list arrived in ascending order: the newest ones that fit.\<close>

definition newest :: "raw_sample list \<Rightarrow> ring" where
  "newest xs = \<lparr>rg_samples = drop (length xs - raw_ring_cap) xs,
     rg_floor = (if length xs \<le> raw_ring_cap then 0 else rs_ts (xs ! (length xs - raw_ring_cap - 1)))\<rparr>"

lemma newest_small: "length xs \<le> raw_ring_cap \<Longrightarrow> newest xs = \<lparr>rg_samples = xs, rg_floor = 0\<rparr>"
  by (simp add: newest_def)

lemma raw_ring_cap_pos [simp]: "0 < raw_ring_cap"
  by (simp add: raw_ring_cap_def)

lemma ring_ingest_newer:
  assumes "ring_ok r" "rg_floor r < rs_ts s" "\<forall>x \<in> set (rg_samples r). rs_ts x < rs_ts s"
  shows "snd (ring_ingest s r) =
    (if length (rg_samples r) < raw_ring_cap then r\<lparr>rg_samples := rg_samples r @ [s]\<rparr>
     else \<lparr>rg_samples = tl (rg_samples r) @ [s], rg_floor = rs_ts (hd (rg_samples r))\<rparr>)"
  using assms(1)
proof (cases rule: ring_ingest_cases [where s = s])
  case old
  with assms(2) show ?thesis by simp
next
  case (twin us a vs)
  with assms(3) show ?thesis by auto
next
  case (fresh us vs)
  have "vs = []" using fresh(2,4) assms(3) by (cases vs) auto
  then have us: "us = rg_samples r" using fresh(2) by simp
  have len: "length (rg_samples r) \<le> raw_ring_cap" and fl: "list_all (\<lambda>s. rg_floor r < rs_ts s) (rg_samples r)"
    using assms(1) by (simp_all add: ring_ok_def)
  show ?thesis
  proof (cases "rg_samples r")
    case Nil
    then show ?thesis unfolding fresh(5) us \<open>vs = []\<close> using raw_ring_cap_pos by (simp del: raw_ring_cap_pos)
  next
    case (Cons x xs)
    then show ?thesis unfolding fresh(5) us \<open>vs = []\<close> using len fl by auto
  qed
qed

lemma ingest_ascending:
  assumes "sorted_by rs_ts xs" "\<forall>x \<in> set xs. 0 < rs_ts x"
  shows "ring_ok (newest xs) \<and> fold (\<lambda>s r. snd (ring_ingest s r)) xs ring_default = newest xs"
  using assms
proof (induction xs rule: rev_induct)
  case Nil
  then show ?case by (simp add: newest_def ring_default_def ring_ok_def)
next
  case (snoc s xs)
  then have ok: "ring_ok (newest xs)" and f: "fold (\<lambda>s r. snd (ring_ingest s r)) xs ring_default = newest xs"
    and lt: "\<forall>x \<in> set xs. rs_ts x < rs_ts s" by simp_all
  have n: "snd (ring_ingest s (newest xs)) = newest (xs @ [s])"
  proof (cases "length xs < raw_ring_cap")
    case True
    have "snd (ring_ingest s (newest xs)) = (newest xs)\<lparr>rg_samples := rg_samples (newest xs) @ [s]\<rparr>"
      using ring_ingest_newer [OF ok, of s] True lt snoc.prems(2) by (simp add: newest_small)
    with True show ?thesis by (simp add: newest_small)
  next
    case False
    let ?n = "length xs - raw_ring_cap"
    have n: "?n < length xs" using False raw_ring_cap_pos by linarith
    then have d: "drop ?n xs = xs ! ?n # drop (Suc ?n) xs" by (rule Cons_nth_drop_Suc [symmetric])
    have l: "length (rg_samples (newest xs)) = raw_ring_cap" using False by (simp add: newest_def)
    have "rg_floor (newest xs) < rs_ts s"
      using lt snoc.prems(2) raw_ring_cap_pos by (auto simp: newest_def)
    moreover have "\<forall>x \<in> set (rg_samples (newest xs)). rs_ts x < rs_ts s"
      using lt by (auto simp: newest_def dest: in_set_dropD)
    ultimately have "snd (ring_ingest s (newest xs))
        = \<lparr>rg_samples = tl (rg_samples (newest xs)) @ [s], rg_floor = rs_ts (hd (rg_samples (newest xs)))\<rparr>"
      using ring_ingest_newer [OF ok, of s] l by simp
    also have "\<dots> = newest (xs @ [s])"
      using False d n by (simp add: newest_def Suc_diff_le nth_append)
    finally show ?thesis .
  qed
  have "ring_ok (newest (xs @ [s]))" using ring_ok_ingest [OF ok, of s] by (simp only: n)
  then show ?case using f n by simp
qed

text \<open>The rows of one link, as the start reads them.\<close>

definition link_rows :: "nat \<Rightarrow> link_key \<Rightarrow> ((string \<times> nat) \<times> raw_sample) list \<Rightarrow> raw_sample list" where
  "link_rows since l rows = map snd (filter (\<lambda>((k, ts), _). since \<le> ts \<and> parse_link_id k = l) rows)"

lemma ring_of_load_raw:
  "ring_of (fold (\<lambda>((k, ts), s) u. if ts < since then u else snd (ingest (parse_link_id k) s False u)) rows t) l
    = fold (\<lambda>s r. snd (ring_ingest s r)) (link_rows since l rows) (ring_of t l)"
proof (induction rows arbitrary: t)
  case (Cons x rows)
  obtain k ts s where x: "x = ((k, ts), s)" by (cases x) auto
  show ?case by (cases "ts < since") (auto simp: x Cons.IH link_rows_def)
qed (simp add: link_rows_def)

lemma ring_of_load_bucket [simp]: "ring_of (load_bucket l' ts b t) l = ring_of t l"
  by (simp add: load_bucket_def Let_def ring_of_def)

lemma ring_of_load_agg:
  "ring_of (fold (\<lambda>((k, ts), b) u. if ts < since then u else load_bucket (parse_link_id k) ts b u) rows t) l = ring_of t l"
  by (induction rows arbitrary: t) auto

lemma ring_of_new:
  assumes "ts_path cfg \<noteq> []"
  shows "ring_of (tsdb_new c True now d cfg) l = fold (\<lambda>s r. snd (ring_ingest s r))
    (link_rows (now - ts_raw_retention_secs cfg) l (rows_of (cd_raw_of c) (db_raw d))) ring_default"
proof -
  have "ring_of (tsdb_empty cfg) l = ring_default" by (simp add: ring_of_def tsdb_empty_def)
  with assms show ?thesis
    by (simp add: tsdb_new_def tsdb_load_def Let_def ring_of_load_agg ring_of_load_raw tsdb_empty_def)
qed

section \<open>One ring and its rows\<close>

text \<open>Above the floor and within retention the rows are the samples; a floor within retention is one that an
  eviction left, and then the ring is full.\<close>

definition mirrors :: "nat \<Rightarrow> (nat \<Rightarrow> raw_sample option) \<Rightarrow> ring \<Rightarrow> bool" where
  "mirrors since look r \<longleftrightarrow> ring_ok r \<and> (\<forall>s \<in> set (rg_samples r). finite_sample s)
     \<and> (rg_floor r = 0 \<or> rg_floor r < since \<or> length (rg_samples r) = raw_ring_cap)
     \<and> (\<forall>ts s. rg_floor r < ts \<longrightarrow> since \<le> ts \<longrightarrow> (look ts = Some s \<longleftrightarrow> s \<in> set (rg_samples r) \<and> rs_ts s = ts))"

lemma is_finite_f_max: "is_finite x \<Longrightarrow> is_finite y \<Longrightarrow> is_finite (f_max x y)"
  by (cases x; cases y) auto

lemma opt_all_or: "opt_all P a \<Longrightarrow> opt_all P b \<Longrightarrow> opt_all P (opt_or a b)"
  by (cases a) auto

lemma finite_merged: "finite_sample a \<Longrightarrow> finite_sample b \<Longrightarrow> finite_sample (merged_with a b)"
  by (simp add: finite_sample_def merged_with_def is_finite_f_max opt_all_or)

definition look_after :: "(nat \<Rightarrow> raw_sample option) \<Rightarrow> (raw_sample \<times> raw_sample option) option \<Rightarrow> nat \<Rightarrow> raw_sample option" where
  "look_after look out = (case out of None \<Rightarrow> look | Some (s, _) \<Rightarrow> look(rs_ts s := Some s))"

lemma ingest_out:
  assumes "ring_ok r" "ring_ingest s r = (Some (s', mf), r')" "finite_sample s" "\<forall>x \<in> set (rg_samples r). finite_sample x"
  shows "rs_ts s' = rs_ts s \<and> 0 < rs_ts s' \<and> finite_sample s'"
  using assms(1)
  by (cases rule: ring_ingest_cases [where s = s])
    (use assms(2-4) in \<open>auto simp: finite_merged split: if_split_asm\<close>)

lemma mirrors_ingest:
  assumes m: "mirrors since look r" and f: "finite_sample s"
  shows "mirrors since (look_after look (fst (ring_ingest s r))) (snd (ring_ingest s r))"
proof -
  have ok: "ring_ok r" and fin: "\<forall>x \<in> set (rg_samples r). finite_sample x"
    and full: "rg_floor r = 0 \<or> rg_floor r < since \<or> length (rg_samples r) = raw_ring_cap"
    and look: "\<And>ts x. rg_floor r < ts \<Longrightarrow> since \<le> ts \<Longrightarrow> look ts = Some x \<longleftrightarrow> x \<in> set (rg_samples r) \<and> rs_ts x = ts"
    using m by (auto simp: mirrors_def)
  from ok show ?thesis
  proof (cases rule: ring_ingest_cases [where s = s])
    case old
    with m show ?thesis by (simp add: look_after_def)
  next
    case (twin us a vs)
    show ?thesis
    proof (cases "sample_eq (merged_with a s) a")
      case True
      with m twin(4) show ?thesis by (simp add: look_after_def)
    next
      case False
      let ?r = "r\<lparr>rg_samples := us @ merged_with a s # vs\<rparr>"
      have r: "ring_ingest s r = (Some (merged_with a s, Some a), ?r)" using False twin(4) by simp
      have "ring_ok ?r" using ring_ok_ingest [OF ok, of s] by (simp add: r)
      moreover have "sorted_by rs_ts (us @ a # vs)" using ok twin(2) by (simp add: ring_ok_def)
      ultimately show ?thesis
        unfolding r using fin full look twin(2,3) f
        by (auto simp: mirrors_def look_after_def finite_merged fun_upd_apply)
    qed
  next
    case (fresh us vs)
    show ?thesis
    proof (cases "us = [] \<and> raw_ring_cap \<le> length (rg_samples r)")
      case True
      with m fresh(5) show ?thesis by (simp add: look_after_def)
    next
      case False
      define xs where "xs = us @ s # vs"
      have set: "set xs = insert s (set (rg_samples r))" and len: "length xs = Suc (length (rg_samples r))"
        by (auto simp: xs_def fresh(2))
      have look': "(look(rs_ts s := Some s)) ts = Some x \<longleftrightarrow> x \<in> set xs \<and> rs_ts x = ts"
        if "rg_floor r < ts" "since \<le> ts" for ts x
        using look [OF that] fresh(2-4) by (auto simp: set)
      show ?thesis
      proof (cases "raw_ring_cap < length xs")
        case full': True
        obtain y ys where y: "xs = y # ys" by (cases xs) (auto simp: xs_def)
        let ?r = "\<lparr>rg_samples = ys, rg_floor = max (rg_floor r) (rs_ts y)\<rparr>"
        have r: "ring_ingest s r = (Some (s, None), ?r)"
          using False full' fresh(5) by (simp add: xs_def [symmetric] y)
        have ok': "ring_ok ?r" using ring_ok_ingest [OF ok, of s] by (simp add: r)
        have "length ys = raw_ring_cap" using full' len y ok by (simp add: ring_ok_def)
        moreover have "\<forall>x \<in> set ys. finite_sample x" using set fin f y by auto
        moreover have "(look(rs_ts s := Some s)) ts = Some x \<longleftrightarrow> x \<in> set ys \<and> rs_ts x = ts"
          if "max (rg_floor r) (rs_ts y) < ts" "since \<le> ts" for ts x
          using look' [of ts x] that y by auto
        ultimately show ?thesis unfolding r using ok' by (simp add: mirrors_def look_after_def)
      next
        case room: False
        let ?r = "r\<lparr>rg_samples := xs\<rparr>"
        have r: "ring_ingest s r = (Some (s, None), ?r)"
          using False room fresh(5) by (simp add: xs_def [symmetric])
        have "ring_ok ?r" using ring_ok_ingest [OF ok, of s] by (simp add: r)
        moreover have "rg_floor r = 0 \<or> rg_floor r < since" using full room len by auto
        ultimately show ?thesis unfolding r using set fin f look'
          by (auto simp: mirrors_def look_after_def)
      qed
    qed
  qed
qed

lemma mirrors_later:
  assumes "mirrors since look r" "since \<le> since'"
  shows "mirrors since' look r"
  using assms by (auto simp: mirrors_def)

lemma mirrors_prune:
  assumes "mirrors since look r" shows "mirrors since look (ring_prune since r)"
proof -
  have srt: "sorted_by rs_ts (rg_samples r)" using assms by (simp add: mirrors_def ring_ok_def)
  have p: "ring_prune since r = \<lparr>rg_samples = filter (\<lambda>s. since \<le> rs_ts s) (rg_samples r),
      rg_floor = foldl max (rg_floor r) (map rs_ts (filter (\<lambda>s. rs_ts s < since) (rg_samples r)))\<rparr>"
    by (simp add: ring_prune_def prune_front_eq sorted_by_dropWhile_less [OF srt] sorted_by_takeWhile_less [OF srt])
  show ?thesis
  proof (cases "\<forall>s \<in> set (rg_samples r). since \<le> rs_ts s")
    case True
    then have "ring_prune since r = r" by (simp add: p filter_id_conv [THEN iffD2] filter_empty_conv [THEN iffD2] not_less)
    with assms show ?thesis by simp
  next
    case False
    then obtain a where a: "a \<in> set (rg_samples r)" "rs_ts a < since" by force
    have "rg_floor r < since" using a assms by (force simp: mirrors_def ring_ok_def list_all_iff)
    then have fl: "rg_floor (ring_prune since r) < since" by (auto simp: p foldl_max_less)
    moreover have "rg_floor r \<le> rg_floor (ring_prune since r)" by (rule floor_prune)
    moreover have "ring_ok (ring_prune since r)" using assms by (simp add: mirrors_def)
    ultimately show ?thesis using assms by (auto simp: mirrors_def) (auto simp: p)
  qed
qed

section \<open>The store and its database\<close>

text \<open>What the queue, laid over the table, holds under a key.\<close>

definition queued :: "(link_key \<times> raw_sample) list \<Rightarrow> string \<times> nat \<Rightarrow> raw_sample option" where
  "queued pending = map_of (rev (map (\<lambda>(l, s). ((link_id l, rs_ts s), s)) pending))"

definition stored :: "('s, 'b) codec \<Rightarrow> tsdb \<Rightarrow> ('s, 'b) database \<Rightarrow> string \<times> nat \<Rightarrow> raw_sample option" where
  "stored c t d k = (case queued (td_pending t) k of
     Some s \<Rightarrow> Some s | None \<Rightarrow> Option.bind (map_of (db_raw d) k) (cd_raw_of c))"

definition row_fits :: "('s, 'b) codec \<Rightarrow> (string \<times> nat) \<times> 's \<Rightarrow> bool" where
  "row_fits c e \<longleftrightarrow> (\<exists>l s. slash_free l \<and> finite_sample s \<and> 0 < rs_ts s \<and> e = ((link_id l, rs_ts s), cd_raw c s))"

definition table_fits :: "('s, 'b) codec \<Rightarrow> 's table \<Rightarrow> bool" where
  "table_fits c t \<longleftrightarrow> table_ok t \<and> (\<forall>e \<in> set t. row_fits c e)"

definition queue_fits :: "(link_key \<times> raw_sample) list \<Rightarrow> bool" where
  "queue_fits q \<longleftrightarrow> (\<forall>(l, s) \<in> set q. slash_free l \<and> finite_sample s \<and> 0 < rs_ts s)"

definition mirrored :: "('s, 'b) codec \<Rightarrow> tsdb \<times> ('s, 'b) database \<times> nat \<Rightarrow> bool" where
  "mirrored c = (\<lambda>(t, d, now). ts_path (td_cfg t) \<noteq> [] \<and> td_open t \<and> table_fits c (db_raw d) \<and> queue_fits (td_pending t)
     \<and> (\<forall>l. slash_free l \<longrightarrow>
          mirrors (now - ts_raw_retention_secs (td_cfg t)) (\<lambda>ts. stored c t d (link_id l, ts)) (ring_of t l)))"

lemma stored_empty_queue: "td_pending t = [] \<Longrightarrow> stored c t d k = Option.bind (map_of (db_raw d) k) (cd_raw_of c)"
  by (simp add: stored_def queued_def)

lemma append_fields:
  assumes "ts_path (td_cfg t) \<noteq> []"
  shows "td_cfg (append_sample l s t) = td_cfg t" "td_open (append_sample l s t) = td_open t"
    "td_pending (append_sample l s t) = td_pending t @
       (case fst (ring_ingest s (ring_of t l)) of None \<Rightarrow> [] | Some (s', _) \<Rightarrow> [(l, s')])"
  using assms by (simp_all add: append_sample_def ingest_eq publish_def split: prod.splits option.splits)

lemma stored_append:
  assumes "ts_path (td_cfg t) \<noteq> []" "slash_free l" "slash_free k"
  shows "(\<lambda>ts. stored c (append_sample k s t) d (link_id l, ts)) =
    (if l = k then look_after (\<lambda>ts. stored c t d (link_id l, ts)) (fst (ring_ingest s (ring_of t l)))
     else (\<lambda>ts. stored c t d (link_id l, ts)))"
proof -
  have "link_id l = link_id k \<longleftrightarrow> l = k" using link_id_inject [OF assms(2,3)] by blast
  then show ?thesis
    by (auto simp: fun_eq_iff stored_def append_fields(3) [OF assms(1)] queued_def look_after_def split: option.split)
qed

lemma mirrored_append:
  assumes m: "mirrored c (t, d, now)" and k: "slash_free k" and s: "finite_sample s"
  shows "mirrored c (append_sample k s t, d, now)"
proof -
  have p: "ts_path (td_cfg t) \<noteq> []" using m by (simp add: mirrored_def)
  let ?since = "now - ts_raw_retention_secs (td_cfg t)"
  have mk: "mirrors ?since (\<lambda>ts. stored c t d (link_id l, ts)) (ring_of t l)" if "slash_free l" for l
    using m that by (simp add: mirrored_def)
  have "queue_fits (td_pending (append_sample k s t))"
  proof (cases "ring_ingest s (ring_of t k)")
    case (Pair out r')
    have "ring_ok (ring_of t k)" "\<forall>x \<in> set (rg_samples (ring_of t k)). finite_sample x"
      using mk [OF k] by (simp_all add: mirrors_def)
    with ingest_out [of "ring_of t k" s _ _ r'] s Pair m k show ?thesis
      by (cases out) (auto simp: mirrored_def queue_fits_def append_fields(3) [OF p])
  qed
  moreover have "mirrors ?since (\<lambda>ts. stored c (append_sample k s t) d (link_id l, ts)) (ring_of (append_sample k s t) l)"
    if "slash_free l" for l
    using mirrors_ingest [OF mk [OF k] s] mk [OF that]
    by (simp add: stored_append [OF p that k]) (simp add: append_sample_def)
  ultimately show ?thesis using m by (simp add: mirrored_def append_fields [OF p])
qed

lemma mirrored_prune:
  assumes "mirrored c (t, d, now)" shows "mirrored c (tsdb_prune now t, d, now)"
proof -
  have "stored c (tsdb_prune now t) d = stored c t d"
    by (simp add: fun_eq_iff stored_def tsdb_prune_def Let_def)
  moreover have "td_cfg (tsdb_prune now t) = td_cfg t" "td_open (tsdb_prune now t) = td_open t"
    "td_pending (tsdb_prune now t) = td_pending t" by (simp_all add: tsdb_prune_def Let_def)
  ultimately show ?thesis using assms by (simp add: mirrored_def mirrors_prune)
qed

subsection \<open>A flush\<close>

abbreviation put_rows :: "('s, 'b) codec \<Rightarrow> (link_key \<times> raw_sample) list \<Rightarrow> 's table \<Rightarrow> 's table" where
  "put_rows c \<equiv> fold (\<lambda>(l, s). row_put (link_id l, rs_ts s) (cd_raw c s))"

lemma table_ok_puts [simp]: "table_ok t \<Longrightarrow> table_ok (put_rows c raw t)"
  by (induction raw arbitrary: t) auto

lemma map_of_puts:
  "table_ok t \<Longrightarrow> map_of (put_rows c raw t) k = (case queued raw k of Some s \<Rightarrow> Some (cd_raw c s) | None \<Rightarrow> map_of t k)"
  by (induction raw arbitrary: t) (auto simp: queued_def map_add_def split: option.splits)

lemma set_puts: "set (put_rows c raw t) \<subseteq> set t \<union> (\<lambda>(l, s). ((link_id l, rs_ts s), cd_raw c s)) ` set raw"
  by (induction raw arbitrary: t) (use set_put in \<open>fastforce split: prod.splits\<close>)+

lemma table_ok_dels [simp]: "table_ok t \<Longrightarrow> table_ok (fold row_del ks t)"
  by (induction ks arbitrary: t) auto

lemma map_of_dels: "map_of (fold row_del ks t) k = (if k \<in> set ks then None else map_of t k)"
  by (induction ks arbitrary: t) auto

lemma set_dels: "set (fold row_del ks t) \<subseteq> set t"
  by (induction ks arbitrary: t) (use set_del in fastforce)+

lemma db_raw_puts: "db_raw (fold (db_apply c) (map (\<lambda>(l, s). RawPut (link_id l) (rs_ts s) s) raw) d) = put_rows c raw (db_raw d)"
  by (induction raw arbitrary: d) auto

lemma db_raw_dels: "db_raw (fold (db_apply c) (map (\<lambda>(l, ts). RawDel l ts) ks) d) = fold row_del ks (db_raw d)"
  by (induction ks arbitrary: d) auto

lemma db_raw_agg_puts: "db_raw (fold (db_apply c) (map (\<lambda>((l, ts), b). AggPut (link_id l) ts b) bs) d) = db_raw d"
  by (induction bs arbitrary: d) auto

lemma db_raw_agg_dels: "db_raw (fold (db_apply c) (map (\<lambda>(l, ts). AggDel l ts) ks) d) = db_raw d"
  by (induction ks arbitrary: d) auto

lemma db_raw_flush:
  "db_raw (flush_commit c now cfg raw dirty d) =
     (let t = put_rows c raw (db_raw d)
      in fold row_del (filter (\<lambda>(_, ts). ts < now - ts_raw_retention_secs cfg) (map fst t)) t)"
  by (simp add: flush_commit_def flush_ops_def Let_def db_raw_puts db_raw_dels db_raw_agg_puts db_raw_agg_dels)

lemma table_fits_flush:
  assumes "table_fits c (db_raw d)" "queue_fits raw"
  shows "table_fits c (db_raw (flush_commit c now cfg raw dirty d))"
proof -
  have "row_fits c e" if "e \<in> set (put_rows c raw (db_raw d))" for e
    using that set_puts [of c raw "db_raw d"] assms by (fastforce simp: table_fits_def queue_fits_def row_fits_def)
  then show ?thesis
    using assms(1) by (auto simp: table_fits_def db_raw_flush Let_def dest: set_dels [THEN subsetD])
qed

lemma map_of_flush:
  assumes "table_ok (db_raw d)" "now - ts_raw_retention_secs cfg \<le> ts"
  shows "map_of (db_raw (flush_commit c now cfg raw dirty d)) (k, ts)
    = (case queued raw (k, ts) of Some s \<Rightarrow> Some (cd_raw c s) | None \<Rightarrow> map_of (db_raw d) (k, ts))"
  using assms by (auto simp: db_raw_flush Let_def map_of_dels map_of_puts)

lemma queued_finite: "queue_fits q \<Longrightarrow> queued q k = Some s \<Longrightarrow> finite_sample s"
  by (auto simp: queued_def queue_fits_def dest!: map_of_SomeD)

lemma stored_flush:
  assumes "lossless c" "table_ok (db_raw d)" "queue_fits (td_pending t)" "td_pending t' = []"
    and "now - ts_raw_retention_secs cfg \<le> ts"
  shows "stored c t' (flush_commit c now cfg (td_pending t) dirty d) (k, ts) = stored c t d (k, ts)"
  unfolding stored_empty_queue [OF assms(4)] map_of_flush [OF assms(2,5)]
  using assms(1) queued_finite [OF assms(3)] by (auto simp: stored_def lossless_def split: option.split)

lemma mirrored_flush:
  assumes m: "mirrored c (t, d, now)" and c: "lossless c" and f: "tsdb_flush c b True now (t, d) = (t', d')"
  shows "mirrored c (t', d', now) \<and> td_cfg t' = td_cfg t \<and> (\<forall>l. ring_of t' l = ring_of t l)
    \<and> (b \<longrightarrow> td_pending t' = [])"
proof -
  have o: "td_open t" using m by (simp add: mirrored_def)
  show ?thesis
  proof (cases b)
    case True
    then have t': "t' = t\<lparr>td_pending := [], td_dirty := []\<rparr>"
      and d': "d' = flush_commit c now (td_cfg t) (td_pending t) (td_dirty t) d"
      using f o by (auto simp: tsdb_flush_def flush_drain_def Let_def)
    have "mirrors (now - ts_raw_retention_secs (td_cfg t)) (\<lambda>ts. stored c t' d' (link_id l, ts)) (ring_of t l)"
      if "slash_free l" for l
    proof -
      have "mirrors (now - ts_raw_retention_secs (td_cfg t)) (\<lambda>ts. stored c t d (link_id l, ts)) (ring_of t l)"
        using m that by (simp add: mirrored_def)
      moreover have "stored c t' d' (link_id l, ts) = stored c t d (link_id l, ts)"
        if "now - ts_raw_retention_secs (td_cfg t) \<le> ts" for ts
        unfolding d' by (rule stored_flush [OF c _ _ _ that]) (use m in \<open>auto simp: mirrored_def table_fits_def t'\<close>)
      ultimately show ?thesis by (simp add: mirrors_def)
    qed
    with m show ?thesis by (simp add: mirrored_def t' d' table_fits_flush) (simp add: queue_fits_def)
  next
    case False
    then have "t' = t\<lparr>td_dirty := []\<rparr>" "d' = d"
      using f o by (auto simp: tsdb_flush_def flush_drain_def Let_def)
    with m False show ?thesis by (simp add: mirrored_def stored_def)
  qed
qed

subsection \<open>A start\<close>

lemma ingest_unqueued [simp]:
  "td_pending (snd (ingest l s False t)) = td_pending t" "td_cfg (snd (ingest l s False t)) = td_cfg t"
  by (simp_all add: ingest_eq publish_def split: prod.splits option.splits)

lemma load_raw_fields:
  fixes t since rows
  defines "u \<equiv> fold (\<lambda>((k, ts), s) u. if ts < since then u else snd (ingest (parse_link_id k) s False u)) rows t"
  shows "td_pending u = td_pending t \<and> td_cfg u = td_cfg t"
  unfolding u_def by (induction rows arbitrary: t) (auto simp: split_beta)

lemma load_agg_fields:
  fixes t since rows
  defines "u \<equiv> fold (\<lambda>((k, ts), b) u. if ts < since then u else load_bucket (parse_link_id k) ts b u) rows t"
  shows "td_pending u = td_pending t \<and> td_cfg u = td_cfg t"
  unfolding u_def by (induction rows arbitrary: t) (auto simp: split_beta load_bucket_def Let_def)

lemma new_fields:
  assumes "ts_path cfg \<noteq> []"
  shows "td_pending (tsdb_new c True now d cfg) = []" "td_cfg (tsdb_new c True now d cfg) = cfg"
    "td_open (tsdb_new c True now d cfg)"
  using assms by (simp_all add: tsdb_new_def tsdb_load_def Let_def load_agg_fields load_raw_fields tsdb_empty_def)

lemma set_link_rows:
  assumes t: "table_fits c t" and c: "lossless c" and l: "slash_free l"
  shows "s \<in> set (link_rows since l (rows_of (cd_raw_of c) t))
    \<longleftrightarrow> since \<le> rs_ts s \<and> Option.bind (map_of t (link_id l, rs_ts s)) (cd_raw_of c) = Some s"
proof -
  have "s \<in> set (link_rows since l (rows_of (cd_raw_of c) t))
    \<longleftrightarrow> (\<exists>k ts v. ((k, ts), v) \<in> set t \<and> cd_raw_of c v = Some s \<and> since \<le> ts \<and> parse_link_id k = l)"
    by (force simp: link_rows_def rows_of_def List.map_filter_def)
  also have "\<dots> \<longleftrightarrow> (\<exists>v. ((link_id l, rs_ts s), v) \<in> set t \<and> cd_raw_of c v = Some s) \<and> since \<le> rs_ts s"
  proof -
    have "k = link_id l \<and> ts = rs_ts s"
      if "((k, ts), v) \<in> set t" "cd_raw_of c v = Some s" "parse_link_id k = l" for k ts v
      using t that c by (fastforce simp: table_fits_def row_fits_def lossless_def parse_link_id_round_trip)
    then have "(((k, ts), v) \<in> set t \<and> cd_raw_of c v = Some s \<and> since \<le> ts \<and> parse_link_id k = l)
      \<longleftrightarrow> k = link_id l \<and> ts = rs_ts s \<and> ((k, ts), v) \<in> set t \<and> cd_raw_of c v = Some s \<and> since \<le> ts" for k ts v
      using parse_link_id_round_trip [OF l] by blast
    then show ?thesis by auto
  qed
  also have "\<dots> \<longleftrightarrow> since \<le> rs_ts s \<and> Option.bind (map_of t (link_id l, rs_ts s)) (cd_raw_of c) = Some s"
    using t by (auto simp: table_fits_def table_in_set bind_eq_Some_conv)
  finally show ?thesis .
qed

lemma link_rows_ok:
  assumes "table_fits c t" "lossless c"
  shows "sorted_by rs_ts (link_rows since l (rows_of (cd_raw_of c) t))
    \<and> (\<forall>s \<in> set (link_rows since l (rows_of (cd_raw_of c) t)).
         0 < rs_ts s \<and> since \<le> rs_ts s \<and> finite_sample s \<and> (link_id l, rs_ts s) \<in> fst ` set t)"
  using assms(1)
proof (induction t)
  case Nil
  then show ?case by (simp add: link_rows_def rows_of_def)
next
  case (Cons e t)
  from Cons.prems have "table_fits c t" by (simp add: table_fits_def)
  note IH = Cons.IH [OF this]
  obtain l' s where e: "slash_free l'" "finite_sample s" "0 < rs_ts s" "e = ((link_id l', rs_ts s), cd_raw c s)"
    using Cons.prems by (auto simp: table_fits_def row_fits_def)
  have r: "link_rows since l (rows_of (cd_raw_of c) (e # t)) =
    (if since \<le> rs_ts s \<and> l' = l then s # link_rows since l (rows_of (cd_raw_of c) t)
     else link_rows since l (rows_of (cd_raw_of c) t))"
    using assms(2) e by (simp add: link_rows_def rows_of_def map_filter_simps lossless_def parse_link_id_round_trip)
  have "\<forall>k \<in> fst ` set t. (link_id l', rs_ts s) < k" using Cons.prems by (auto simp: table_fits_def e(4))
  then have lt: "rs_ts s < rs_ts x" if "l' = l" "x \<in> set (link_rows since l (rows_of (cd_raw_of c) t))" for x
    using IH that by fastforce
  show ?case
  proof (cases "since \<le> rs_ts s \<and> l' = l")
    case True
    then show ?thesis unfolding r using IH lt e by auto
  next
    case False
    then show ?thesis unfolding r using IH by auto
  qed
qed

text \<open>Above its floor the ring has what the list has.\<close>

lemma newest_above:
  assumes "sorted_by rs_ts xs" "rg_floor (newest xs) < rs_ts s"
  shows "s \<in> set (rg_samples (newest xs)) \<longleftrightarrow> s \<in> set xs"
proof (cases "length xs \<le> raw_ring_cap")
  case False
  let ?n = "length xs - raw_ring_cap"
  have n: "?n = Suc (?n - 1)" "?n - 1 < length xs" using False raw_ring_cap_pos by linarith+
  have "s \<notin> set (take ?n xs)"
  proof
    assume "s \<in> set (take ?n xs)"
    then have "s \<in> set (take (?n - 1) xs @ [xs ! (?n - 1)])"
      using take_Suc_conv_app_nth [OF n(2)] n(1) by simp
    moreover have "sorted_by rs_ts (take (?n - 1) xs @ xs ! (?n - 1) # drop ?n xs)"
      using assms(1) id_take_nth_drop [OF n(2)] n(1) by simp
    ultimately have "rs_ts s \<le> rs_ts (xs ! (?n - 1))" by (auto simp: less_imp_le)
    with assms(2) False show False by (simp add: newest_def)
  qed
  then have "s \<in> set (take ?n xs @ drop ?n xs) \<longleftrightarrow> s \<in> set (drop ?n xs)" unfolding set_append by blast
  then show ?thesis by (simp add: newest_def)
qed (simp add: newest_small)

lemma mirrored_restart:
  assumes m: "mirrored c (t, d, now)" and c: "lossless c"
  shows "mirrored c (tsdb_new c True now d (td_cfg t), d, now)"
proof -
  let ?t = "tsdb_new c True now d (td_cfg t)" and ?since = "now - ts_raw_retention_secs (td_cfg t)"
  have p: "ts_path (td_cfg t) \<noteq> []" and fits: "table_fits c (db_raw d)" using m by (simp_all add: mirrored_def)
  have "mirrors ?since (\<lambda>ts. stored c ?t d (link_id l, ts)) (ring_of ?t l)" if l: "slash_free l" for l
  proof -
    let ?rows = "link_rows ?since l (rows_of (cd_raw_of c) (db_raw d))"
    have rows: "sorted_by rs_ts ?rows" "\<forall>s \<in> set ?rows. 0 < rs_ts s \<and> finite_sample s"
      using link_rows_ok [OF fits c] by blast+
    have r: "ring_of ?t l = newest ?rows" and ok: "ring_ok (newest ?rows)"
      using ingest_ascending [OF rows(1)] rows(2) by (simp_all add: ring_of_new [OF p])
    have "stored c ?t d (link_id l, ts) = Some s \<longleftrightarrow> s \<in> set (rg_samples (newest ?rows)) \<and> rs_ts s = ts"
      if "rg_floor (newest ?rows) < ts" "?since \<le> ts" for ts s
    proof -
      have "rs_ts s = ts" if "Option.bind (map_of (db_raw d) (link_id l, ts)) (cd_raw_of c) = Some s"
        using that fits c by (fastforce simp: table_fits_def row_fits_def lossless_def bind_eq_Some_conv dest: map_of_SomeD)
      then show ?thesis
        using that set_link_rows [OF fits c l, of s ?since] newest_above [OF rows(1), of s]
        by (auto simp: stored_empty_queue new_fields(1) [OF p])
    qed
    moreover have "rg_floor (newest ?rows) = 0 \<or> length (rg_samples (newest ?rows)) = raw_ring_cap"
      by (simp add: newest_def)
    moreover have "\<forall>s \<in> set (rg_samples (newest ?rows)). finite_sample s"
      using rows(2) by (auto simp: newest_def dest: in_set_dropD)
    ultimately show ?thesis unfolding r mirrors_def using ok by blast
  qed
  then show ?thesis using p fits by (simp add: mirrored_def new_fields [OF p] queue_fits_def)
qed

section \<open>Any run\<close>

lemma mirrored_step:
  assumes "lossless c" shows "durable_step c x y \<Longrightarrow> mirrored c x \<Longrightarrow> mirrored c y"
proof (induction rule: durable_step.induct)
  case (clock now now' t d)
  then show ?case
    by (auto simp: mirrored_def intro: mirrors_later [OF _ diff_le_mono])
next
  case (acknowledge t d now peer w)
  have "stored c (note_sent peer w t) d = stored c t d" by (simp add: fun_eq_iff stored_def note_sent_def)
  with acknowledge show ?case by (simp add: mirrored_def) (simp add: note_sent_def)
next
  case (flush b now t d t' d')
  then show ?case using mirrored_flush [OF flush(2) assms flush(1)] by blast
qed (simp_all add: mirrored_append mirrored_prune mirrored_restart [OF _ assms])

text \<open>A store that starts on an empty database.\<close>

lemma db_raw_empty [simp]: "db_raw db_empty = []"
  by (simp add: db_empty_def)

lemma mirrored_new:
  assumes "ts_path cfg \<noteq> []" shows "mirrored c (tsdb_new c True now db_empty cfg, db_empty, now)"
proof -
  have r: "ring_of (tsdb_new c True now db_empty cfg) l = ring_default" for l
    by (simp add: ring_of_new [OF assms] rows_of_def map_filter_simps link_rows_def)
  have "mirrors since (\<lambda>ts. stored c (tsdb_new c True now db_empty cfg) db_empty (link_id l, ts)) ring_default" for since l
    by (simp add: mirrors_def stored_empty_queue new_fields(1) [OF assms]) (simp add: ring_default_def)
  then show ?thesis
    using assms by (simp add: mirrored_def r new_fields [OF assms] table_fits_def queue_fits_def)
qed

lemma mirrored_run:
  assumes "lossless c" "ts_path cfg \<noteq> []" "(durable_step c)\<^sup>*\<^sup>* (tsdb_new c True start db_empty cfg, db_empty, start) st"
  shows "mirrored c st"
  using assms(3)
  by (rule run_invariant) (use mirrored_new [OF assms(2)] mirrored_step [OF assms(1)] in blast)+

lemma sorted_by_unique: "sorted_by f xs \<Longrightarrow> sorted_by f ys \<Longrightarrow> set xs = set ys \<Longrightarrow> xs = ys"
proof (induction xs arbitrary: ys)
  case (Cons x xs)
  obtain y ys' where ys: "ys = y # ys'" using Cons.prems(3) by (cases ys) auto
  have "x = y"
  proof (rule ccontr)
    assume "x \<noteq> y"
    then have "f y < f x" "f x < f y" using Cons.prems by (auto simp: ys)
    then show False by simp
  qed
  moreover have "x \<notin> set xs" "y \<notin> set ys'" using Cons.prems by (auto simp: ys)
  ultimately have "set xs = set ys'" using Cons.prems(3) by (auto simp: ys)
  with Cons.IH [of ys'] Cons.prems ys \<open>x = y\<close> show ?case by simp
qed simp

lemma restart_ring:
  assumes m: "mirrored c (t, d, now)" and c: "lossless c" and q: "td_pending t = []" and l: "slash_free l"
  shows "rg_samples (ring_of (tsdb_new c True now d (td_cfg t)) l)
    = filter (\<lambda>s. now - ts_raw_retention_secs (td_cfg t) \<le> rs_ts s) (rg_samples (ring_of t l))"
proof -
  let ?since = "now - ts_raw_retention_secs (td_cfg t)" and ?r = "ring_of t l"
  let ?rows = "link_rows ?since l (rows_of (cd_raw_of c) (db_raw d))"
  let ?F = "filter (\<lambda>s. ?since \<le> rs_ts s) (rg_samples ?r)"
  have p: "ts_path (td_cfg t) \<noteq> []" and fits: "table_fits c (db_raw d)"
    and mr: "mirrors ?since (\<lambda>ts. stored c t d (link_id l, ts)) ?r"
    using m l by (simp_all add: mirrored_def)
  then have ok: "ring_ok ?r" by (simp add: mirrors_def)
  have rows: "sorted_by rs_ts ?rows" "\<forall>s \<in> set ?rows. 0 < rs_ts s \<and> ?since \<le> rs_ts s"
    using link_rows_ok [OF fits c] by blast+
  have r: "ring_of (tsdb_new c True now d (td_cfg t)) l = newest ?rows"
    using ingest_ascending [OF rows(1)] rows(2) by (simp add: ring_of_new [OF p])
  have "filter (\<lambda>s. Suc (rg_floor ?r) \<le> rs_ts s) ?rows = ?F"
  proof (rule sorted_by_unique [of rs_ts])
    show "set (filter (\<lambda>s. Suc (rg_floor ?r) \<le> rs_ts s) ?rows) = set ?F"
      using mr set_link_rows [OF fits c l] ok
      by (auto simp: mirrors_def stored_empty_queue [OF q] ring_ok_def list_all_iff Suc_le_eq)
  qed (use rows(1) ok in \<open>simp_all add: sorted_by_filter ring_ok_def\<close>)
  then have split: "?rows = filter (\<lambda>s. rs_ts s < Suc (rg_floor ?r)) ?rows @ ?F"
    using takeWhile_dropWhile_id [of "\<lambda>s. rs_ts s < Suc (rg_floor ?r)" ?rows]
    by (simp only: sorted_by_takeWhile_less [OF rows(1)] sorted_by_dropWhile_less [OF rows(1)])
  consider (low) "rg_floor ?r = 0 \<or> rg_floor ?r < ?since" | (full) "?since \<le> rg_floor ?r" "length (rg_samples ?r) = raw_ring_cap"
    using mr by (fastforce simp: mirrors_def)
  then show ?thesis
  proof cases
    case low
    then have "filter (\<lambda>s. rs_ts s < Suc (rg_floor ?r)) ?rows = []"
      using rows(2) by (fastforce simp: filter_empty_conv)
    with split have "?rows = ?F" by simp
    moreover have "length ?F \<le> raw_ring_cap" using ok le_trans [OF length_filter_le] by (auto simp: ring_ok_def)
    ultimately show ?thesis unfolding r by (simp add: newest_small)
  next
    case full
    then have F: "?F = rg_samples ?r" using ok by (force simp: ring_ok_def list_all_iff intro: filter_True)
    then have "newest ?rows = newest (filter (\<lambda>s. rs_ts s < Suc (rg_floor ?r)) ?rows @ rg_samples ?r)" using split by simp
    with full(2) show ?thesis unfolding r F by (simp add: newest_def)
  qed
qed

lemma restart_after_flush:
  assumes c: "lossless c" and m: "mirrored c (t, d, now)" and f: "tsdb_flush c True True now (t, d) = (t', d')"
    and le: "now \<le> now'" and l: "slash_free l"
  shows "rg_samples (ring_of (tsdb_new c True now' d' (td_cfg t)) l)
    = filter (\<lambda>s. now' - ts_raw_retention_secs (td_cfg t) \<le> rs_ts s) (rg_samples (ring_of t l))"
proof -
  have m': "mirrored c (t', d', now)" and t': "td_cfg t' = td_cfg t" "ring_of t' l = ring_of t l" "td_pending t' = []"
    using mirrored_flush [OF m c f] by simp_all
  have "mirrored c (t', d', now')" by (rule mirrored_step [OF c clock [OF le] m'])
  from restart_ring [OF this c t'(3) l] show ?thesis by (simp add: t')
qed


text \<open>The classifier does not notice the restart: when its horizons lie within the retention, the window of every
  link is the one from before.\<close>

lemma latest_filter:
  assumes "h \<le> ret" shows "latest f h now (filter (\<lambda>s. now - ret \<le> rs_ts s) xs) = latest f h now xs"
proof -
  have "(f s \<noteq> None \<and> now - rs_ts s \<le> h \<and> now - ret \<le> rs_ts s) = (f s \<noteq> None \<and> now - rs_ts s \<le> h)" for s
    using assms by linarith
  then show ?thesis by (simp add: latest_def conj_assoc conj_commute [of "now - ret \<le> _"])
qed

lemma tsdb_window_ring:
  assumes "ring_ok (ring_of t l)"
  shows "tsdb_window t l spec now = window_reference spec now (rg_samples (ring_of t l))"
proof (cases "hm_get (td_by_link t) l")
  case None
  then show ?thesis
    by (simp add: tsdb_window_def ring_of_def ring_default_def window_reference_def latest_def Let_def)
next
  case (Some r)
  with assms show ?thesis by (simp add: tsdb_window_def ring_of_def ring_ok_def ring_window_eq)
qed

theorem restart_keeps_window:
  assumes "lossless c" "ts_path cfg \<noteq> []"
    and "(durable_step c)\<^sup>*\<^sup>* (tsdb_new c True start db_empty cfg, db_empty, start) (t, d, now)"
    and "tsdb_flush c True True now (t, d) = (t', d')" "now \<le> now'" "slash_free l"
    and "ws_always_fresh_secs spec \<le> ts_raw_retention_secs (td_cfg t)" "ws_tcp_carry_secs spec \<le> ts_raw_retention_secs (td_cfg t)"
  shows "tsdb_window (tsdb_new c True now' d' (td_cfg t)) l spec now' = tsdb_window t l spec now'"
proof -
  have m: "mirrored c (t, d, now)" by (rule mirrored_run [OF assms(1-3)])
  then have ok: "ring_ok (ring_of t l)" using assms(6) by (simp add: mirrored_def mirrors_def)
  have m': "mirrored c (t', d', now)" and "td_cfg t' = td_cfg t"
    using mirrored_flush [OF m assms(1,4)] by simp_all
  then have "mirrored c (tsdb_new c True now' d' (td_cfg t), d', now')"
    using mirrored_step [OF assms(1) restart mirrored_step [OF assms(1) clock [OF assms(5)] m']] by simp
  then have ok': "ring_ok (ring_of (tsdb_new c True now' d' (td_cfg t)) l)"
    using assms(6) by (simp add: mirrored_def mirrors_def)
  show ?thesis
    unfolding tsdb_window_ring [OF ok] tsdb_window_ring [OF ok'] restart_after_flush [OF assms(1) m assms(4-6)]
    by (simp add: window_reference_def Let_def latest_filter assms(7,8))
qed

section \<open>Where the durable copy falls short\<close>

text \<open>A codec for examples: the value itself.\<close>

definition plain_codec :: "(raw_sample, bucket) codec" where
  "plain_codec = \<lparr>cd_raw = (\<lambda>s. s), cd_agg = (\<lambda>b. b), cd_raw_of = Some, cd_agg_of = Some\<rparr>"

definition start_db :: tsdb where
  "start_db = tsdb_new plain_codec True 0 db_empty ts_small"

text \<open>A transaction that fails after it was opened drops what was queued, samples too: the next flush, which
  succeeds, writes nothing, and a restart has an empty history. Only a transaction that cannot be opened is
  retried.\<close>

theorem failed_commit_loses_samples:
  "(let t = append_sample key_ab (lossy 5 1) start_db;
        p = tsdb_flush plain_codec True True 7 (tsdb_flush plain_codec True False 6 (t, db_empty));
        q = tsdb_flush plain_codec True True 7 (tsdb_flush plain_codec False True 6 (t, db_empty))
    in rg_samples (ring_of t key_ab) = [lossy 5 1] \<and> db_raw (snd p) = []
       \<and> rg_samples (ring_of (tsdb_new plain_codec True 8 (snd p) ts_small) key_ab) = []
       \<and> rg_samples (ring_of (tsdb_new plain_codec True 8 (snd q) ts_small) key_ab) = [lossy 5 1])"
  by code_simp

text \<open>The floor that keeps a replay of pruned history out is not durable: a sample that was pruned, and is refused
  when it is sent again, is accepted after a restart.\<close>

theorem restart_forgets_floor:
  "(let t = tsdb_prune 30 (append_sample key_ab (lossy 5 1) start_db);
        p = tsdb_flush plain_codec True True 30 (t, db_empty);
        t' = tsdb_new plain_codec True 30 (snd p) ts_small
    in \<not> fst (ingest key_ab (lossy 5 1) True t) \<and> fst (ingest key_ab (lossy 5 1) True t'))"
  by code_simp

section \<open>Witnesses\<close>

lemma lossless_plain: "lossless plain_codec"
  by (simp add: lossless_def plain_codec_def)

text \<open>A sample, a crash before it was flushed, another sample.\<close>

definition crashed_db :: tsdb where
  "crashed_db = append_sample key_ab (lossy 6 2) (tsdb_new plain_codec True 0 db_empty ts_small)"

lemma crashed_run:
  "(durable_step plain_codec)\<^sup>*\<^sup>* (tsdb_new plain_codec True 0 db_empty ts_small, db_empty, 0) (crashed_db, db_empty, 0)"
proof -
  have a: "durable_step plain_codec (t, db_empty, 0) (append_sample key_ab (lossy n x) t, db_empty, 0)" for n x t
    by (rule append) (code_simp, simp add: finite_sample_def lossy_def raw_sample_default_def)
  have "td_cfg (append_sample key_ab (lossy 5 1) start_db) = ts_small" by code_simp
  then have "durable_step plain_codec (append_sample key_ab (lossy 5 1) start_db, db_empty, 0)
      (tsdb_new plain_codec True 0 db_empty ts_small, db_empty, 0)"
    using restart [of plain_codec "append_sample key_ab (lossy 5 1) start_db" db_empty 0] by simp
  then show ?thesis
    using a [of start_db 5 1] a [of "tsdb_new plain_codec True 0 db_empty ts_small" 6 2]
    unfolding crashed_db_def start_db_def [symmetric] by (meson converse_rtranclp_into_rtranclp rtranclp.rtrancl_refl)
qed

definition flushed_db :: "tsdb \<times> (raw_sample, bucket) database" where
  "flushed_db = tsdb_flush plain_codec True True 0 (crashed_db, db_empty)"

lemma crashed_facts: "ts_path ts_small \<noteq> []" "td_cfg crashed_db = ts_small" "slash_free key_ab"
  "rg_samples (ring_of crashed_db key_ab) = [lossy 6 2]"
  by code_simp+


theorem restart_keeps_window_witness:
  "tsdb_window (tsdb_new plain_codec True 9 (snd flushed_db) ts_small) key_ab
     \<lparr>ws_always_fresh_secs = 5, ws_tcp_fresh_secs = 8, ws_tcp_carry_secs = 10\<rparr> 9
   = tsdb_window crashed_db key_ab \<lparr>ws_always_fresh_secs = 5, ws_tcp_fresh_secs = 8, ws_tcp_carry_secs = 10\<rparr> 9"
proof -
  have "tsdb_flush plain_codec True True 0 (crashed_db, db_empty) = (fst flushed_db, snd flushed_db)"
    by (simp add: flushed_db_def)
  from restart_keeps_window [OF lossless_plain crashed_facts(1) crashed_run this _ crashed_facts(3), of 9]
  show ?thesis by (simp add: crashed_facts) (simp add: ts_small_def)
qed

end
