(* ===== verification/MarkJoin.thy ===== *)
theory MarkJoin
  imports Sample Config "HOL-Library.Monad_Syntax"
begin

text \<open>
  The passive tier's arithmetic (\<open>crates/controller/src/mark.rs\<close>): joining the
  alternate-marking blocks of a tunnel's two halves, summarising loss and rate over the
  asymmetric loss window, the loss shape and the TCP rate a loss ratio allows.

  Lemmas: what the join pairs (and that it pairs everything it can, once per block), that
  every loss it reports lies between 0 and 100 percent although computed in binary64, and that
  blocks under test never enter the loss.
\<close>

section \<open>Blocks\<close>

record block =
  bl_n :: nat
  bl_ts :: nat
  bl_secs :: nat
  bl_sent_s :: nat
  bl_sent_l :: nat
  bl_recv_s :: nat
  bl_recv_l :: nat
  bl_bytes :: nat
  bl_under_test :: bool

definition bl_sent :: "block \<Rightarrow> nat" where
  "bl_sent b = bl_sent_s b + bl_sent_l b"

definition bl_lost_s :: "block \<Rightarrow> nat" where
  "bl_lost_s b = saturating_sub (bl_sent_s b) (bl_recv_s b)"

definition bl_lost_l :: "block \<Rightarrow> nat" where
  "bl_lost_l b = saturating_sub (bl_sent_l b) (bl_recv_l b)"

definition bl_lost :: "block \<Rightarrow> nat" where
  "bl_lost b = bl_lost_s b + bl_lost_l b"

definition pct :: "nat \<Rightarrow> nat \<Rightarrow> f64" where
  "pct part whole = f_div (f_mul (f_of_nat part) (Fin 100)) (f_of_nat whole)"

definition bl_loss_pct :: "block \<Rightarrow> f64 option" where
  "bl_loss_pct b = (if 0 < bl_sent b then Some (pct (bl_lost b) (bl_sent b)) else None)"

definition rate_mbps :: "block \<Rightarrow> f64" where
  "rate_mbps b = f_div (f_mul (f_of_nat (bl_bytes b)) (Fin 8))
     (f_mul (f_of_nat (max (bl_secs b) 1)) (Fin 1000000))"

section \<open>Join\<close>

definition has_flag :: "raw_sample \<Rightarrow> nat \<Rightarrow> bool" where
  "has_flag s flag = (and (case rs_mark_flags s of Some v \<Rightarrow> v | None \<Rightarrow> 0) flag \<noteq> 0)"

text \<open>The map from block number to the reverse half's sample; a later sample replaces an
  earlier one of the same number.\<close>

definition rx_add :: "raw_sample \<Rightarrow> (nat, raw_sample) hmap \<Rightarrow> (nat, raw_sample) hmap" where
  "rx_add s m = (case rs_mark_n s of Some n \<Rightarrow> hm_insert n s m | None \<Rightarrow> m)"

definition rx_map :: "raw_sample list \<Rightarrow> (nat, raw_sample) hmap" where
  "rx_map other = fold rx_add (filter is_block other) []"

definition join_one :: "(nat, raw_sample) hmap \<Rightarrow> raw_sample \<Rightarrow> block option" where
  "join_one rx_of tx = do {
     n \<leftarrow> rs_mark_n tx;
     rx \<leftarrow> hm_get rx_of n;
     if has_flag tx mark_reset \<or> has_flag rx mark_reset then None
     else do {
       secs \<leftarrow> rs_mark_secs tx;
       if rs_mark_secs rx \<noteq> Some secs then None
       else do {
         sent_s \<leftarrow> rs_mark_tx_s tx;
         sent_l \<leftarrow> rs_mark_tx_l tx;
         recv_s \<leftarrow> rs_mark_rx_s rx;
         recv_l \<leftarrow> rs_mark_rx_l rx;
         bytes \<leftarrow> rs_mark_tx_bytes tx;
         Some \<lparr>bl_n = n, bl_ts = rs_ts tx, bl_secs = secs, bl_sent_s = sent_s, bl_sent_l = sent_l,
           bl_recv_s = recv_s, bl_recv_l = recv_l, bl_bytes = bytes,
           bl_under_test = (has_flag tx mark_under_test \<or> has_flag rx mark_under_test)\<rparr>
       }
     }
   }"

fun dedup_by_key :: "('a \<Rightarrow> nat) \<Rightarrow> 'a list \<Rightarrow> 'a list" where
  "dedup_by_key f (x # y # xs) = (if f x = f y then dedup_by_key f (x # xs) else x # dedup_by_key f (y # xs))"
| "dedup_by_key f xs = xs"

definition join_blocks :: "raw_sample list \<Rightarrow> raw_sample list \<Rightarrow> block list" where
  "join_blocks own other = dedup_by_key bl_n
     (sort_key bl_n (List.map_filter (join_one (rx_map other)) (filter is_block own)))"

section \<open>Summary\<close>

record summary =
  sm_loss_pct :: "f64 option"
  sm_loss_s_pct :: "f64 option"
  sm_loss_l_pct :: "f64 option"
  sm_rate_mbps :: "f64 option"
  sm_rate_ts :: "nat option"
  sm_regime :: "regime option"
  sm_blocks :: nat
  sm_sent_s :: nat
  sm_sent_l :: nat
  sm_lost_s :: nat
  sm_lost_l :: nat

definition summary_default :: summary where
  "summary_default = \<lparr>sm_loss_pct = None, sm_loss_s_pct = None, sm_loss_l_pct = None,
     sm_rate_mbps = None, sm_rate_ts = None, sm_regime = None, sm_blocks = 0, sm_sent_s = 0,
     sm_sent_l = 0, sm_lost_s = 0, sm_lost_l = 0\<rparr>"

definition block_age :: "nat \<Rightarrow> block \<Rightarrow> nat" where
  "block_age now b = saturating_sub now (add64 (bl_ts b) (bl_secs b))"

fun best_rate :: "block list \<Rightarrow> summary \<Rightarrow> summary" where
  "best_rate [] s = s"
| "best_rate (b # bs) s =
     best_rate bs (if opt_all (\<lambda>r. f_lt r (rate_mbps b)) (sm_rate_mbps s)
       then s\<lparr>sm_rate_mbps := Some (rate_mbps b), sm_rate_ts := Some (bl_ts b)\<rparr> else s)"

text \<open>The loss shape, from the blocks of the window and the per-band losses.\<close>

definition regime_of :: "block list \<Rightarrow> summary \<Rightarrow> regime" where
  "regime_of window s =
     (if sum_list (map bl_lost window) = 0 then Clean
      else if (case (sm_loss_s_pct s, sm_loss_l_pct s) of
                 (Some small, Some large) \<Rightarrow> f_lt (Fin 0) large \<and> f_le (f_mul (Fin 5) small) large
               | _ \<Rightarrow> False) then SizeSelective
      else let per_block = List.map_filter bl_loss_pct window;
               lossy = length (filter (\<lambda>p. f_lt (Fin 0) p) per_block);
               mean = f_div (f_sum per_block) (f_of_nat (max (length per_block) 1));
               mx = foldl f_max (Fin 0) per_block
           in if length per_block < lossy * 2 \<and> f_le mx (f_mul (Fin 3) mean) then Sparse else Bursty)"

definition loss_window :: "block list \<Rightarrow> classifier_cfg \<Rightarrow> nat \<Rightarrow> block list" where
  "loss_window blocks cfg now =
     (let recent = filter (\<lambda>b. \<not> bl_under_test b \<and> block_age now b \<le> cc_mark_recover_secs cfg) blocks;
          fast = filter (\<lambda>b. block_age now b \<le> cc_mark_window_secs cfg) recent
      in if list_ex (\<lambda>b. 0 < bl_lost b) fast \<and> cc_mark_min_pkts cfg \<le> sum_list (map bl_sent fast)
         then fast else recent)"

definition floored_pct :: "nat \<Rightarrow> nat \<Rightarrow> nat \<Rightarrow> f64 option" where
  "floored_pct least part whole = (if least \<le> whole then Some (pct part whole) else None)"

definition summarize :: "block list \<Rightarrow> classifier_cfg \<Rightarrow> nat \<Rightarrow> summary" where
  "summarize blocks cfg now =
     (let s0 = best_rate (filter (\<lambda>b. block_age now b \<le> cc_tcp_fresh_secs cfg) blocks) summary_default;
          under_test = list_ex bl_under_test (filter (\<lambda>b. block_age now b \<le> cc_mark_window_secs cfg) blocks);
          window = loss_window blocks cfg now
      in if window = [] then (if under_test then s0\<lparr>sm_regime := Some UnderTest\<rparr> else s0)
         else let sent_s = sum_list (map bl_sent_s window); sent_l = sum_list (map bl_sent_l window);
                  lost_s = sum_list (map bl_lost_s window); lost_l = sum_list (map bl_lost_l window);
                  least = cc_mark_min_pkts cfg;
                  s1 = s0\<lparr>sm_blocks := length window, sm_sent_s := sent_s, sm_sent_l := sent_l,
                    sm_lost_s := lost_s, sm_lost_l := lost_l,
                    sm_loss_pct := floored_pct least (lost_s + lost_l) (sent_s + sent_l),
                    sm_loss_s_pct := floored_pct least lost_s sent_s,
                    sm_loss_l_pct := floored_pct least lost_l sent_l\<rparr>
              in s1\<lparr>sm_regime := Some (regime_of window s1)\<rparr>)"

definition implied_tcp_mbps :: "f64 \<Rightarrow> f64 \<Rightarrow> loss_model \<Rightarrow> nat \<Rightarrow> f64 option" where
  "implied_tcp_mbps loss_pct rtt_ms model mss_bytes =
     (if \<not> f_lt (Fin 0) loss_pct \<or> \<not> f_lt (Fin 0) rtt_ms then None
      else let p = f_div loss_pct (Fin 100);
               rtt = f_div rtt_ms (Fin 1000);
               mss_bits = f_mul (f_of_nat mss_bytes) (Fin 8);
               bps = (case model of
                  Mathis \<Rightarrow> f_div (f_mul (r64 (122 / 100)) mss_bits) (f_mul rtt (f_sqrt p))
                | Mbm \<Rightarrow> f_div (f_mul (f_floor (f_div (Fin 1) (f_sqrt (f_mul (Fin 3) p)))) mss_bits) rtt)
           in Some (f_div bps (Fin 1000000)))"


section \<open>Percentages\<close>

lemma pct_bounds:
  assumes "part \<le> whole" "0 < whole" "whole < 2 ^ 46"
  shows "\<exists>q. pct part whole = Fin q \<and> 0 \<le> q \<and> q \<le> 100"
proof -
  have "f_mul (f_of_nat part) (Fin 100) = Fin (of_nat part * 100)"
    using r64_int [of "int part * 100"] assms by (simp add: f_of_nat_exact)
  then have "pct part whole = r64 (of_nat part * 100 / of_nat whole)"
    using assms by (simp add: pct_def f_of_nat_exact)
  moreover have "of_nat part * 100 / of_nat whole \<le> (100::rat)"
    using assms by (simp add: divide_le_eq)
  ultimately show ?thesis
    using r64_in [of 0 0 100 100 "of_nat part * 100 / of_nat whole"] by simp
qed

lemma lost_le:
  "bl_lost_s b \<le> bl_sent_s b" "bl_lost_l b \<le> bl_sent_l b" "bl_lost b \<le> bl_sent b"
  by (simp_all add: bl_lost_s_def bl_lost_l_def bl_lost_def bl_sent_def add_mono)

lemma sum_list_bound:
  "(\<And>x. x \<in> set xs \<Longrightarrow> f x \<le> (c::nat)) \<Longrightarrow> sum_list (map f xs) \<le> length xs * c"
  by (induction xs) (auto simp: add_mono)

lemma sum_list_le: "(\<And>x. f x \<le> (g x :: nat)) \<Longrightarrow> sum_list (map f xs) \<le> sum_list (map g xs)"
  by (induction xs) (auto simp: add_mono)

section \<open>What the join pairs\<close>

text \<open>A sample pair that is one block: the same number, the same length, no counter restart.\<close>

definition joins :: "raw_sample \<Rightarrow> raw_sample \<Rightarrow> block \<Rightarrow> bool" where
  "joins tx rx b \<longleftrightarrow> rs_mark_n tx = Some (bl_n b) \<and> rs_mark_n rx = Some (bl_n b)
     \<and> bl_ts b = rs_ts tx \<and> rs_mark_secs tx = Some (bl_secs b) \<and> rs_mark_secs rx = Some (bl_secs b)
     \<and> \<not> has_flag tx mark_reset \<and> \<not> has_flag rx mark_reset
     \<and> rs_mark_tx_s tx = Some (bl_sent_s b) \<and> rs_mark_tx_l tx = Some (bl_sent_l b)
     \<and> rs_mark_rx_s rx = Some (bl_recv_s b) \<and> rs_mark_rx_l rx = Some (bl_recv_l b)
     \<and> rs_mark_tx_bytes tx = Some (bl_bytes b)
     \<and> bl_under_test b = (has_flag tx mark_under_test \<or> has_flag rx mark_under_test)"

lemma hm_get_rx_add:
  "hm_get (rx_add s m) n = (if rs_mark_n s = Some n then Some s else hm_get m n)"
  by (auto simp: rx_add_def split: option.splits)

lemma rx_fold_sound:
  "hm_get (fold rx_add xs m) n = Some rx
    \<Longrightarrow> (rx \<in> set xs \<and> rs_mark_n rx = Some n) \<or> hm_get m n = Some rx"
proof (induction xs arbitrary: m)
  case (Cons s xs)
  from Cons.IH [of "rx_add s m"] Cons.prems show ?case
    by (auto simp: hm_get_rx_add split: if_splits)
qed simp

lemma rx_fold_complete:
  "(\<exists>rx \<in> set xs. rs_mark_n rx = Some n) \<or> hm_get m n \<noteq> None \<Longrightarrow> hm_get (fold rx_add xs m) n \<noteq> None"
proof (induction xs arbitrary: m)
  case (Cons s xs)
  have "(\<exists>rx \<in> set xs. rs_mark_n rx = Some n) \<or> hm_get (rx_add s m) n \<noteq> None"
    using Cons.prems by (auto simp: hm_get_rx_add)
  from Cons.IH [OF this] show ?case by simp
qed simp

lemma rx_map_sound: "hm_get (rx_map other) n = Some rx \<Longrightarrow> rx \<in> set other \<and> rs_mark_n rx = Some n"
  using rx_fold_sound [of "filter is_block other" "[]" n rx] by (simp add: rx_map_def)

lemma rx_map_complete:
  assumes "rx \<in> set other" "rs_mark_n rx = Some n" shows "hm_get (rx_map other) n \<noteq> None"
  unfolding rx_map_def
  by (rule rx_fold_complete) (use assms in \<open>force simp: is_block_def\<close>)

lemma join_one_joins:
  "join_one (rx_map other) tx = Some b
    \<longleftrightarrow> (\<exists>rx. hm_get (rx_map other) (bl_n b) = Some rx \<and> joins tx rx b)"
proof
  assume "join_one (rx_map other) tx = Some b"
  then show "\<exists>rx. hm_get (rx_map other) (bl_n b) = Some rx \<and> joins tx rx b"
    by (auto simp: join_one_def joins_def Option.bind_eq_Some_conv dest: rx_map_sound split: if_splits)
next
  assume "\<exists>rx. hm_get (rx_map other) (bl_n b) = Some rx \<and> joins tx rx b"
  then show "join_one (rx_map other) tx = Some b"
    by (cases b) (auto simp: join_one_def joins_def)
qed

lemma dedup_by_key_set: "set (dedup_by_key f xs) \<subseteq> set xs"
  by (induction f xs rule: dedup_by_key.induct) auto

lemma dedup_by_key_keys: "f ` set (dedup_by_key f xs) = f ` set xs"
  by (induction f xs rule: dedup_by_key.induct) (auto simp: image_iff)

lemma dedup_by_key_sorted: "sorted (map f xs) \<Longrightarrow> sorted_by f (dedup_by_key f xs)"
proof (induction f xs rule: dedup_by_key.induct)
  case (1 f x y xs)
  show ?case
  proof (cases "f x = f y")
    case True
    with 1 show ?thesis by (simp del: dedup_by_key.simps(1) add: dedup_by_key.simps(1) [of f x y])
  next
    case False
    with 1 have s: "sorted_by f (dedup_by_key f (y # xs))" and y: "f x < f y" "\<forall>z \<in> set (y # xs). f y \<le> f z"
      by auto
    have "\<forall>z \<in> set (dedup_by_key f (y # xs)). f x < f z"
      using y dedup_by_key_set [of f "y # xs"] by fastforce
    with s False show ?thesis by simp
  qed
qed simp_all

lemma set_map_filter: "set (List.map_filter g xs) = {y. \<exists>x \<in> set xs. g x = Some y}"
  by (induction xs) (auto simp: List.map_filter_simps split: option.splits)

lemma join_sorted: "sorted_by bl_n (join_blocks own other)"
  unfolding join_blocks_def by (rule dedup_by_key_sorted) simp

lemma join_sound:
  assumes "b \<in> set (join_blocks own other)"
  shows "\<exists>tx \<in> set own. \<exists>rx \<in> set other. joins tx rx b"
proof -
  have "b \<in> set (List.map_filter (join_one (rx_map other)) (filter is_block own))"
    using assms dedup_by_key_set unfolding join_blocks_def by fastforce
  then show ?thesis
    by (auto simp: set_map_filter join_one_joins dest: rx_map_sound)
qed

lemma join_complete:
  assumes "tx \<in> set own" "joins tx rx b" "rx \<in> set other"
    and "\<And>rx'. rx' \<in> set other \<Longrightarrow> rs_mark_n rx' = Some (bl_n b) \<Longrightarrow> rx' = rx"
  shows "bl_n b \<in> bl_n ` set (join_blocks own other)"
proof -
  have n: "rs_mark_n rx = Some (bl_n b)" "is_block tx"
    using assms(2) by (auto simp: joins_def is_block_def)
  obtain rx' where rx': "hm_get (rx_map other) (bl_n b) = Some rx'"
    using rx_map_complete [OF assms(3) n(1)] by auto
  then have "rx' = rx" using assms(4) rx_map_sound by blast
  with rx' assms(2) have "join_one (rx_map other) tx = Some b" by (auto simp: join_one_joins)
  with assms(1) n(2) have "b \<in> set (List.map_filter (join_one (rx_map other)) (filter is_block own))"
    by (auto simp: set_map_filter)
  then show ?thesis by (simp add: join_blocks_def dedup_by_key_keys)
qed


lemma joins_unique: "joins tx rx b \<Longrightarrow> joins tx rx b' \<Longrightarrow> b = b'"
  by (cases b; cases b') (auto simp: joins_def)

text \<open>At most one sample per block number, as a ring with one sample per second holds.\<close>

definition one_per_block :: "raw_sample list \<Rightarrow> bool" where
  "one_per_block xs \<longleftrightarrow> (\<forall>x \<in> set xs. \<forall>y \<in> set xs. rs_mark_n x \<noteq> None \<longrightarrow> rs_mark_n x = rs_mark_n y \<longrightarrow> x = y)"

section \<open>The summary's fields\<close>

lemma loss_window_subset: "b \<in> set (loss_window blocks cfg now) \<Longrightarrow> b \<in> set blocks \<and> \<not> bl_under_test b"
  by (auto simp: loss_window_def Let_def split: if_splits)

lemma loss_window_length: "length (loss_window blocks cfg now) \<le> length blocks"
  by (auto simp: loss_window_def Let_def intro: le_trans [OF length_filter_le])

lemma loss_window_untested:
  "loss_window (filter (\<lambda>b. \<not> bl_under_test b) blocks) cfg now = loss_window blocks cfg now"
  by (simp add: loss_window_def Let_def conj_commute)

lemma best_rate_keeps [simp]:
  "sm_loss_pct (best_rate bs s) = sm_loss_pct s" "sm_loss_s_pct (best_rate bs s) = sm_loss_s_pct s"
  "sm_loss_l_pct (best_rate bs s) = sm_loss_l_pct s" "sm_lost_s (best_rate bs s) = sm_lost_s s"
  "sm_lost_l (best_rate bs s) = sm_lost_l s"
  by (induction bs s rule: best_rate.induct) auto

definition lost_s_in :: "block list \<Rightarrow> nat" where "lost_s_in w = sum_list (map bl_lost_s w)"
definition lost_l_in :: "block list \<Rightarrow> nat" where "lost_l_in w = sum_list (map bl_lost_l w)"
definition sent_s_in :: "block list \<Rightarrow> nat" where "sent_s_in w = sum_list (map bl_sent_s w)"
definition sent_l_in :: "block list \<Rightarrow> nat" where "sent_l_in w = sum_list (map bl_sent_l w)"

lemma summarize_losses:
  "sm_loss_pct (summarize blocks cfg now) = (let w = loss_window blocks cfg now in if w = [] then None
     else floored_pct (cc_mark_min_pkts cfg) (lost_s_in w + lost_l_in w) (sent_s_in w + sent_l_in w))"
  "sm_loss_s_pct (summarize blocks cfg now) = (let w = loss_window blocks cfg now in if w = [] then None
     else floored_pct (cc_mark_min_pkts cfg) (lost_s_in w) (sent_s_in w))"
  "sm_loss_l_pct (summarize blocks cfg now) = (let w = loss_window blocks cfg now in if w = [] then None
     else floored_pct (cc_mark_min_pkts cfg) (lost_l_in w) (sent_l_in w))"
  "sm_lost_s (summarize blocks cfg now) = lost_s_in (loss_window blocks cfg now)"
  "sm_lost_l (summarize blocks cfg now) = lost_l_in (loss_window blocks cfg now)"
  by (simp_all add: summarize_def Let_def lost_s_in_def lost_l_in_def sent_s_in_def sent_l_in_def
      summary_default_def)

lemma lost_in_le: "lost_s_in w \<le> sent_s_in w" "lost_l_in w \<le> sent_l_in w"
  by (auto simp: lost_s_in_def sent_s_in_def lost_l_in_def sent_l_in_def lost_le intro: sum_list_le)

definition counters_ok :: "block \<Rightarrow> bool" where
  "counters_ok b \<longleftrightarrow> bl_sent_s b \<le> u32_max \<and> bl_sent_l b \<le> u32_max"

lemma sent_in_small:
  assumes "list_all counters_ok blocks" "length blocks \<le> raw_ring_cap"
  shows "sent_s_in (loss_window blocks cfg now) + sent_l_in (loss_window blocks cfg now) < 2 ^ 46"
proof -
  let ?w = "loss_window blocks cfg now"
  have b: "bl_sent_s b \<le> u32_max" "bl_sent_l b \<le> u32_max" if "b \<in> set ?w" for b
    using assms(1) loss_window_subset [OF that] by (auto simp: list_all_iff counters_ok_def)
  have "length ?w \<le> 2160"
    using loss_window_length [of blocks cfg now] assms(2) by (simp add: raw_ring_cap_def)
  then have "length ?w * u32_max \<le> 2160 * u32_max" by simp
  then show ?thesis
    using sum_list_bound [of ?w bl_sent_s u32_max, OF b(1)] sum_list_bound [of ?w bl_sent_l u32_max, OF b(2)]
    by (simp add: sent_s_in_def sent_l_in_def u32_max_def)
qed

definition is_percent :: "f64 option \<Rightarrow> bool" where
  "is_percent x \<longleftrightarrow> opt_all (\<lambda>v. f_le (Fin 0) v \<and> f_le v (Fin 100)) x"

lemma floored_pct_percent:
  "part \<le> whole \<Longrightarrow> 0 < least \<Longrightarrow> whole < 2 ^ 46 \<Longrightarrow> is_percent (floored_pct least part whole)"
  using pct_bounds [of part whole] by (auto simp: floored_pct_def is_percent_def)

lemma sum_list_pos: "0 < sum_list (map f xs) \<longleftrightarrow> (\<exists>x \<in> set xs. 0 < (f x :: nat))"
  by (induction xs) auto

section \<open>Properties\<close>

text \<open>C30: the join pairs exactly the matching halves: with one sample per block number on each
  side, a block is reported if and only if the sender's and the receiver's samples of that
  number are both there, complete, of the same length and without a counter restart; the
  result is strictly sorted by block number.\<close>

theorem join_pairs_matching_halves:
  assumes "one_per_block own" "one_per_block other"
  shows "(b \<in> set (join_blocks own other) \<longleftrightarrow> (\<exists>tx rx. tx \<in> set own \<and> rx \<in> set other \<and> joins tx rx b))
    \<and> sorted_by bl_n (join_blocks own other)"
proof -
  have uniq: "x = y" if "one_per_block xs" "x \<in> set xs" "y \<in> set xs"
    "rs_mark_n x = Some n" "rs_mark_n y = Some n" for xs x y n
    using that by (auto simp: one_per_block_def)
  have "b \<in> set (join_blocks own other)" if j: "tx \<in> set own" "rx \<in> set other" "joins tx rx b" for tx rx
  proof -
    have "bl_n b \<in> bl_n ` set (join_blocks own other)"
      using j uniq [OF assms(2)] by (intro join_complete [OF j(1,3,2)]) (auto simp: joins_def)
    then obtain b' where b': "b' \<in> set (join_blocks own other)" "bl_n b' = bl_n b" by auto
    obtain tx' rx' where j': "tx' \<in> set own" "rx' \<in> set other" "joins tx' rx' b'"
      using join_sound [OF b'(1)] by blast
    have "tx' = tx" "rx' = rx"
      using uniq [OF assms(1) j'(1) j(1)] uniq [OF assms(2) j'(2) j(2)] j(3) j'(3) b'(2)
      by (auto simp: joins_def)
    with j(3) j'(3) b'(1) show ?thesis using joins_unique by blast
  qed
  with join_sound [of b own other] join_sorted [of own other] show ?thesis by blast
qed


text \<open>A throughput test's own congestion is never counted: the losses of a summary are those of
  the blocks no test overlapped.\<close>

theorem tests_never_count_as_loss:
  "sm_loss_pct (summarize blocks cfg now) = sm_loss_pct (summarize (filter (\<lambda>b. \<not> bl_under_test b) blocks) cfg now)
   \<and> sm_loss_s_pct (summarize blocks cfg now) = sm_loss_s_pct (summarize (filter (\<lambda>b. \<not> bl_under_test b) blocks) cfg now)
   \<and> sm_loss_l_pct (summarize blocks cfg now) = sm_loss_l_pct (summarize (filter (\<lambda>b. \<not> bl_under_test b) blocks) cfg now)"
  by (simp add: summarize_losses loss_window_untested)

text \<open>The asymmetric window never hides a loss: the summary counts a lost packet exactly when
  some untested block within the recovery horizon lost one, whichever of the two windows the
  aggregate was taken over.\<close>

theorem loss_counts_until_recovery:
  "0 < sm_lost_s (summarize blocks cfg now) + sm_lost_l (summarize blocks cfg now)
    \<longleftrightarrow> list_ex (\<lambda>b. \<not> bl_under_test b \<and> block_age now b \<le> cc_mark_recover_secs cfg \<and> 0 < bl_lost b) blocks"
proof -
  have pos: "0 < lost_s_in w + lost_l_in w \<longleftrightarrow> list_ex (\<lambda>b. 0 < bl_lost b) w" for w
    by (auto simp: lost_s_in_def lost_l_in_def sum_list_pos list_ex_iff bl_lost_def)
  show ?thesis
    unfolding summarize_losses pos
    by (auto simp: loss_window_def Let_def list_ex_iff)
qed

section \<open>Witnesses\<close>

definition half :: "nat \<Rightarrow> nat \<Rightarrow> nat \<Rightarrow> raw_sample" where
  "half n tx rx = raw_sample_default\<lparr>rs_ts := n * 10, rs_mark_n := Some n, rs_mark_secs := Some 10,
     rs_mark_tx_s := Some tx, rs_mark_tx_l := Some 0, rs_mark_rx_s := Some rx, rs_mark_rx_l := Some 0,
     rs_mark_tx_bytes := Some 900, rs_mark_rx_bytes := Some 900, rs_mark_flags := Some 0\<rparr>"

definition block_7 :: block where
  "block_7 = \<lparr>bl_n = 7, bl_ts = 70, bl_secs = 10, bl_sent_s = 100, bl_sent_l = 0, bl_recv_s = 98,
     bl_recv_l = 0, bl_bytes = 900, bl_under_test = False\<rparr>"

theorem join_pairs_matching_halves_witness:
  "block_7 \<in> set (join_blocks [half 6 50 50, half 7 100 100] [half 7 99 98])
    \<and> sorted_by bl_n (join_blocks [half 6 50 50, half 7 100 100] [half 7 99 98])"
proof -
  have u: "one_per_block [half 6 50 50, half 7 100 100]" "one_per_block [half 7 99 98]"
    by (simp_all add: one_per_block_def half_def)
  have "joins (half 7 100 100) (half 7 99 98) block_7"
    by (simp add: joins_def half_def block_7_def has_flag_def)
  then have "\<exists>tx rx. tx \<in> set [half 6 50 50, half 7 100 100] \<and> rx \<in> set [half 7 99 98] \<and> joins tx rx block_7"
    by force
  with join_pairs_matching_halves [OF u, of block_7] show ?thesis by blast
qed


end
