(* ===== verification/AppState.thy ===== *)
theory AppState
  imports Kv Fence Worker Tsdb
begin

text \<open>
  The state the controller's handlers and loops share (\<open>crates/controller/src/state.rs\<close>): the
  stores of the other theories, the classifier's per-link state, peer liveness, the counters
  of \<open>api.rs\<close>. Two things the code keeps outside \<open>AppState\<close> are fields here: the dispatched
  commands whose tasks are still running, and the sessions the controller has closed.
\<close>

section \<open>Peer liveness\<close>

record peer_health_entry =
  ph_last_ok_ts :: "nat option"
  ph_rtt_ms :: "nat option"

type_synonym peer_health = "(string, peer_health_entry) hmap"

definition mark_ok :: "string \<Rightarrow> nat \<Rightarrow> nat \<Rightarrow> peer_health \<Rightarrow> peer_health" where
  "mark_ok peer rtt now m = hm_insert peer \<lparr>ph_last_ok_ts = Some now, ph_rtt_ms = Some rtt\<rparr> m"

definition mark_seen :: "string \<Rightarrow> nat \<Rightarrow> peer_health \<Rightarrow> peer_health" where
  "mark_seen peer now m =
     (let e = (case hm_get m peer of Some e \<Rightarrow> e | None \<Rightarrow> \<lparr>ph_last_ok_ts = None, ph_rtt_ms = None\<rparr>)
      in hm_insert peer (e\<lparr>ph_last_ok_ts := Some now\<rparr>) m)"

section \<open>The classifier's state\<close>

record last_policy =
  lp_quality :: quality
  lp_ospf_cost :: nat

record pending_class =
  pd_quality :: quality
  pd_passes :: nat
  pd_last_ts :: nat

record mark_totals =
  mt_last_n :: nat
  mt_sent_s :: nat
  mt_sent_l :: nat
  mt_lost_s :: nat
  mt_lost_l :: nat
  mt_regime_changes :: nat
  mt_regime :: "regime option"

definition mark_totals_default :: mark_totals where
  "mark_totals_default = \<lparr>mt_last_n = 0, mt_sent_s = 0, mt_sent_l = 0, mt_lost_s = 0, mt_lost_l = 0,
     mt_regime_changes = 0, mt_regime = None\<rparr>"

record classifier_state =
  cs_last :: "(link_key, last_policy) hmap"
  cs_pending :: "(link_key, pending_class) hmap"
  cs_totals :: "(link_key, mark_totals) hmap"

definition classifier_state_new :: classifier_state where
  "classifier_state_new = \<lparr>cs_last = [], cs_pending = [], cs_totals = []\<rparr>"

section \<open>The shared state\<close>

text \<open>A running dispatch: the agent, the session the stream was opened on, the command.\<close>

record task =
  tk_agent :: string
  tk_session :: session_handle
  tk_cmd :: work_cmd

record app_state =
  as_cfg :: config
  as_kv :: lww_store
  as_fence :: fence
  as_workers :: registry
  as_peers :: peer_health
  as_tsdb :: tsdb
  as_classifier :: classifier_state
  as_ready :: bool
  as_reports :: nat
  as_probe_failures :: nat
  as_throughput_skipped :: nat
  as_tasks :: "task list"
  as_closed :: "session_handle list"

definition app_state_new :: "config \<Rightarrow> app_state" where
  "app_state_new cfg = \<lparr>as_cfg = cfg, as_kv = lww_new, as_fence = fence_new, as_workers = registry_new,
     as_peers = [], as_tsdb = tsdb_empty (cf_ts cfg), as_classifier = classifier_state_new,
     as_ready = False, as_reports = 0, as_probe_failures = 0, as_throughput_skipped = 0, as_tasks = [], as_closed = []\<rparr>"

definition set_ready :: "bool \<Rightarrow> app_state \<Rightarrow> app_state" where
  "set_ready v st = st\<lparr>as_ready := v\<rparr>"

end
