(* ===== verification/Classifier.thy ===== *)
theory Classifier
  imports AppState MarkJoin
begin

text \<open>
  The policy classifier (\<open>crates/controller/src/classifier.rs\<close>): pairing a tunnel's two halves,
  folding the passive tier into a link's window, the class hysteresis, the advertised cost and
  the derived record. \<open>classify_once\<close> is one pass over the links of this node's agents; the
  clock reading of the pass is an argument.
\<close>

section \<open>Pairing\<close>

definition dir_links :: "link_key list \<Rightarrow> string \<Rightarrow> string \<Rightarrow> link_key list" where
  "dir_links links f t = filter (\<lambda>l. lk_from l = f \<and> lk_to l = t) links"

definition pair_step :: "link_key list \<Rightarrow> link_key \<Rightarrow> (link_key, link_key) hmap \<Rightarrow> (link_key, link_key) hmap" where
  "pair_step links l m =
     (let fwd = dir_links links (lk_from l) (lk_to l); bwd = dir_links links (lk_to l) (lk_from l)
      in if length fwd = 1 \<and> length bwd = 1 \<and> lk_from l \<noteq> lk_to l then hm_insert l (hd bwd) m else m)"

definition pair_links :: "link_key list \<Rightarrow> (link_key, link_key) hmap" where
  "pair_links links = fold (pair_step links) links []"

definition worse_upper :: "f64 option \<Rightarrow> f64 option \<Rightarrow> f64 option" where
  "worse_upper a b = (case (a, b) of (Some x, Some y) \<Rightarrow> Some (f_max x y) | _ \<Rightarrow> opt_or a b)"

definition worse_lower :: "f64 option \<Rightarrow> f64 option \<Rightarrow> f64 option" where
  "worse_lower a b = (case (a, b) of (Some x, Some y) \<Rightarrow> Some (f_min x y) | _ \<Rightarrow> opt_or a b)"

definition merge_pair :: "window_view \<Rightarrow> window_view \<Rightarrow> pair_cost \<Rightarrow> window_view" where
  "merge_pair own other mode =
     (if mode = Off then own
      else let v = own\<lparr>wv_rtt_ms := worse_upper (wv_rtt_ms own) (wv_rtt_ms other),
                 wv_loss_pct := worse_upper (wv_loss_pct own) (wv_loss_pct other),
                 wv_jitter_ms := worse_upper (wv_jitter_ms own) (wv_jitter_ms other)\<rparr>
           in if mode = Symmetric then v\<lparr>
                wv_tcp_mbps := worse_lower (wv_tcp_mbps own) (wv_tcp_mbps other),
                wv_udp_mbps := worse_lower (wv_udp_mbps own) (wv_udp_mbps other),
                wv_udp_loss_pct := worse_upper (wv_udp_loss_pct own) (wv_udp_loss_pct other),
                wv_udp_jitter_ms := worse_upper (wv_udp_jitter_ms own) (wv_udp_jitter_ms other),
                wv_mark_loss_pct := worse_upper (wv_mark_loss_pct own) (wv_mark_loss_pct other),
                wv_implied_tcp_mbps := worse_lower (wv_implied_tcp_mbps own) (wv_implied_tcp_mbps other)\<rparr>
              else v)"

section \<open>The passive tier of one link\<close>

definition mark_view :: "summary \<Rightarrow> classifier_cfg \<Rightarrow> window_view \<Rightarrow> window_view" where
  "mark_view s cfg view = view\<lparr>wv_mark_loss_pct := sm_loss_pct s, wv_mark_loss_s_pct := sm_loss_s_pct s,
     wv_mark_loss_l_pct := sm_loss_l_pct s, wv_mark_rate_mbps := sm_rate_mbps s, wv_regime := sm_regime s,
     wv_implied_tcp_mbps := (case (sm_loss_pct s, wv_rtt_ms view) of
        (Some loss, Some rtt) \<Rightarrow> implied_tcp_mbps loss rtt (cc_loss_model cfg) (cc_mss_bytes cfg)
      | _ \<Rightarrow> None)\<rparr>"

text \<open>The joined loss and rate go back onto the samples of blocks that do not carry them yet.\<close>

definition write_back :: "link_key \<Rightarrow> raw_sample list \<Rightarrow> block list \<Rightarrow> tsdb \<Rightarrow> tsdb" where
  "write_back link own blocks t =
     (let joined = map rs_ts (filter (\<lambda>s. rs_mark_loss_pct s \<noteq> None) own)
      in fold (\<lambda>b u. case bl_loss_pct b of
             Some loss \<Rightarrow> append_sample link (block_result (bl_ts b) loss (rate_mbps b)) u | None \<Rightarrow> u)
           (filter (\<lambda>b. bl_ts b \<notin> set joined) blocks) t)"

definition advance_totals :: "block list \<Rightarrow> summary \<Rightarrow> mark_totals \<Rightarrow> mark_totals" where
  "advance_totals blocks s t0 =
     (let new = filter (\<lambda>b. mt_last_n t0 < bl_n b \<and> \<not> bl_under_test b) blocks;
          t = t0\<lparr>mt_sent_s := mt_sent_s t0 + sum_list (map bl_sent_s new),
                 mt_sent_l := mt_sent_l t0 + sum_list (map bl_sent_l new),
                 mt_lost_s := mt_lost_s t0 + sum_list (map bl_lost_s new),
                 mt_lost_l := mt_lost_l t0 + sum_list (map bl_lost_l new),
                 mt_last_n := max (mt_last_n t0) (if blocks = [] then 0 else bl_n (last blocks))\<rparr>
      in if sm_regime s \<noteq> None \<and> mt_regime t \<noteq> sm_regime s
         then t\<lparr>mt_regime_changes := mt_regime_changes t + of_bool (mt_regime t \<noteq> None),
                mt_regime := sm_regime s\<rparr>
         else t)"

definition fold_marking ::
  "app_state \<Rightarrow> link_key \<Rightarrow> link_key \<Rightarrow> window_view \<Rightarrow> nat \<Rightarrow> bool \<Rightarrow> app_state \<times> window_view" where
  "fold_marking st link other view now owned =
     (let cfg = cf_classifier (as_cfg st);
          since = saturating_sub now (add64 (max (cc_mark_recover_secs cfg) (cc_tcp_fresh_secs cfg)) 600);
          own_samples = tq_samples (tsdb_query (as_tsdb st) link since u64_max);
          other_samples = tq_samples (tsdb_query (as_tsdb st) other since u64_max);
          blocks = join_blocks own_samples other_samples
      in if blocks = [] then (st, view)
         else let s = summarize blocks cfg now; view' = mark_view s cfg view
              in if \<not> owned then (st, view')
                 else let cls = as_classifier st;
                          t = (case hm_get (cs_totals cls) link of Some t \<Rightarrow> t | None \<Rightarrow> mark_totals_default)
                      in (st\<lparr>as_tsdb := write_back link own_samples blocks (as_tsdb st),
                             as_classifier := cls\<lparr>cs_totals :=
                               hm_insert link (advance_totals blocks s t) (cs_totals cls)\<rparr>\<rparr>, view'))"

section \<open>Cost and derived record\<close>

definition policy_cost :: "config \<Rightarrow> link_key \<Rightarrow> quality \<Rightarrow> nat" where
  "policy_cost cfg link q =
     (let base = cost_for_quality (cf_quality cfg) q
      in if is_hub cfg (lk_from link) \<and> \<not> is_hub cfg (lk_to link)
         then saturating_add32 base (cc_hub_spoke_cost_offset (cf_classifier cfg)) else base)"

definition derived_record :: "window_view \<Rightarrow> quality option \<Rightarrow> nat option \<Rightarrow> quality_record" where
  "derived_record view q cost = \<lparr>qr_ts = wv_ts view, qr_rtt_ms = wv_rtt_ms view,
     qr_loss_pct = wv_loss_pct view, qr_jitter_ms = wv_jitter_ms view, qr_tcp_mbps = wv_tcp_mbps view,
     qr_udp_mbps = wv_udp_mbps view, qr_udp_jitter_ms = wv_udp_jitter_ms view,
     qr_udp_loss_pct = wv_udp_loss_pct view, qr_util_mbps = wv_util_mbps view, qr_state = wv_state view,
     qr_quality = q, qr_ospf_cost = cost, qr_mark_loss_pct = wv_mark_loss_pct view,
     qr_mark_rate_mbps = wv_mark_rate_mbps view, qr_implied_tcp_mbps = wv_implied_tcp_mbps view,
     qr_regime = wv_regime view\<rparr>"

definition write_derived ::
  "app_state \<Rightarrow> link_key \<Rightarrow> window_view \<Rightarrow> quality option \<Rightarrow> nat option \<Rightarrow> app_state" where
  "write_derived st link view q cost =
     st\<lparr>as_kv := snd (kv_put link (derived_record view q cost) (as_kv st))\<rparr>"

definition hold_last :: "app_state \<Rightarrow> link_key \<Rightarrow> window_view \<Rightarrow> app_state" where
  "hold_last st link view =
     (let l = hm_get (cs_last (as_classifier st)) link
      in write_derived st link view (map_option lp_quality l) (map_option lp_ospf_cost l))"

section \<open>Hysteresis\<close>

definition hysteresis ::
  "nat \<Rightarrow> quality \<Rightarrow> nat \<Rightarrow> quality option \<Rightarrow> pending_class option \<Rightarrow> quality \<times> pending_class option" where
  "hysteresis passes candidate ts current pending =
     (case current of
        None \<Rightarrow> (candidate, pending)
      | Some last_q \<Rightarrow>
          if last_q = candidate then (candidate, None)
          else let fresh = \<lparr>pd_quality = candidate, pd_passes = 0, pd_last_ts = 0\<rparr>;
                   e0 = (case pending of Some e \<Rightarrow> e | None \<Rightarrow> fresh);
                   e1 = (if pd_quality e0 \<noteq> candidate then fresh else e0);
                   e2 = (if pd_last_ts e1 \<noteq> ts
                         then e1\<lparr>pd_passes := add32 (pd_passes e1) 1, pd_last_ts := ts\<rparr> else e1)
               in if max passes 1 \<le> pd_passes e2 then (candidate, None) else (last_q, Some e2))"

definition set_opt :: "'k \<Rightarrow> 'v option \<Rightarrow> ('k, 'v) hmap \<Rightarrow> ('k, 'v) hmap" where
  "set_opt k v m = (case v of Some x \<Rightarrow> hm_insert k x m | None \<Rightarrow> hm_remove k m)"

section \<open>One pass\<close>

definition busy_held :: "config \<Rightarrow> window_view \<Rightarrow> nat \<Rightarrow> bool" where
  "busy_held cfg view now \<longleftrightarrow> (wv_state view = Busy \<or> wv_state view = Conflict)
     \<and> saturating_sub now (wv_ts view) < cc_busy_hold_secs (cf_classifier cfg)"

definition class_view ::
  "config \<Rightarrow> (link_key, link_key) hmap \<Rightarrow> (link_key, window_view) hmap \<Rightarrow> link_key \<Rightarrow> window_view \<Rightarrow> window_view" where
  "class_view cfg pairs views link view =
     (case Option.bind (hm_get pairs link) (hm_get views) of
        Some other \<Rightarrow> merge_pair view other (cc_pair_cost (cf_classifier cfg))
      | None \<Rightarrow> view)"

definition reclassify :: "app_state \<Rightarrow> link_key \<Rightarrow> window_view \<Rightarrow> quality \<Rightarrow> app_state" where
  "reclassify st link view candidate =
     (let cfg = as_cfg st; cls = as_classifier st;
          (effective, pending) = hysteresis (cc_hysteresis_passes (cf_classifier cfg)) candidate (wv_ts view)
            (map_option lp_quality (hm_get (cs_last cls) link)) (hm_get (cs_pending cls) link);
          cost = policy_cost cfg link effective
      in write_derived
           (st\<lparr>as_classifier := cls\<lparr>cs_pending := set_opt link pending (cs_pending cls),
              cs_last := hm_insert link \<lparr>lp_quality = effective, lp_ospf_cost = cost\<rparr> (cs_last cls)\<rparr>\<rparr>)
           link view (Some effective) (Some cost))"

definition classify_link ::
  "(link_key, link_key) hmap \<Rightarrow> (link_key, window_view) hmap \<Rightarrow> link_key list \<Rightarrow> nat \<Rightarrow> link_key
    \<Rightarrow> app_state \<Rightarrow> app_state" where
  "classify_link pairs views owned now link st =
     (if link \<notin> set owned then st
      else case hm_get views link of
             None \<Rightarrow> st
           | Some view \<Rightarrow>
               if busy_held (as_cfg st) view now then hold_last st link view
               else let cv = class_view (as_cfg st) pairs views link view
                    in if \<not> measured cv then hold_last st link view
                       else reclassify st link view (classify_window (cf_quality (as_cfg st)) cv))"

definition fold_pair ::
  "link_key list \<Rightarrow> nat \<Rightarrow> link_key \<times> link_key \<Rightarrow> app_state \<times> (link_key, window_view) hmap
    \<Rightarrow> app_state \<times> (link_key, window_view) hmap" where
  "fold_pair owned now = (\<lambda>(link, other) (st, views).
     if link \<notin> set owned \<and> other \<notin> set owned then (st, views)
     else case hm_get views link of
            None \<Rightarrow> (st, views)
          | Some view \<Rightarrow>
              let (st', view') = fold_marking st link other view now (link \<in> set owned)
              in (st', hm_insert link view' views))"

definition classify_once :: "nat \<Rightarrow> app_state \<Rightarrow> app_state" where
  "classify_once now st =
     (let cc = cf_classifier (as_cfg st);
          spec = \<lparr>ws_always_fresh_secs = cc_always_fresh_secs cc, ws_tcp_fresh_secs = cc_tcp_fresh_secs cc,
            ws_tcp_carry_secs = cc_tcp_carry_secs cc\<rparr>;
          links = tsdb_links (as_tsdb st);
          views = List.map_filter (\<lambda>l. map_option (\<lambda>v. (l, v)) (tsdb_window (as_tsdb st) l spec now)) links;
          all_pairs = pair_links links;
          pairs = (if cc_pair_cost cc = Off then [] else all_pairs);
          owned = map snd (owned_links (as_workers st));
          (st1, views1) = fold (fold_pair owned now) all_pairs (st, views)
      in fold (classify_link pairs views1 owned now) links st1)"


section \<open>Pairs\<close>

lemma hm_get_pair_fold:
  "hm_get (fold (pair_step links) xs m) l =
     (if l \<in> set xs \<and> length (dir_links links (lk_from l) (lk_to l)) = 1
        \<and> length (dir_links links (lk_to l) (lk_from l)) = 1 \<and> lk_from l \<noteq> lk_to l
      then Some (hd (dir_links links (lk_to l) (lk_from l))) else hm_get m l)"
  by (induction xs arbitrary: m) (auto simp: pair_step_def Let_def)

lemma pair_links_iff:
  "hm_get (pair_links links) l = Some r \<longleftrightarrow> l \<in> set links \<and> lk_from l \<noteq> lk_to l
     \<and> dir_links links (lk_from l) (lk_to l) = [l] \<and> dir_links links (lk_to l) (lk_from l) = [r]"
proof -
  have one: "length (dir_links links (lk_from l) (lk_to l)) = 1 \<longleftrightarrow> dir_links links (lk_from l) (lk_to l) = [l]"
    if "l \<in> set links"
  proof
    assume "length (dir_links links (lk_from l) (lk_to l)) = 1"
    then obtain x where x: "dir_links links (lk_from l) (lk_to l) = [x]" by (auto simp: length_Suc_conv)
    have "l \<in> set (dir_links links (lk_from l) (lk_to l))" using that by (simp add: dir_links_def)
    with x show "dir_links links (lk_from l) (lk_to l) = [l]" by simp
  qed simp
  have two: "length xs = 1 \<and> hd xs = r \<longleftrightarrow> xs = [r]" for xs :: "link_key list"
    by (auto simp: length_Suc_conv)
  show ?thesis
    unfolding pair_links_def hm_get_pair_fold using one two by auto
qed

lemma worse_upper_commute: "worse_upper a b = worse_upper b a"
  by (cases a; cases b) (simp_all add: worse_upper_def f_max_commute)

lemma worse_lower_commute: "worse_lower a b = worse_lower b a"
  by (cases a; cases b) (simp_all add: worse_lower_def f_min_commute)

lemma exceeds_worse_upper: "exceeds (worse_upper a b) t \<longleftrightarrow> exceeds a t \<or> exceeds b t"
  by (cases a; cases b; cases t) (simp_all add: worse_upper_def f_lt_f_max)

lemma falls_short_worse_lower: "falls_short (worse_lower a b) t \<longleftrightarrow> falls_short a t \<or> falls_short b t"
  by (cases a; cases b; cases t) (simp_all add: worse_lower_def f_min_f_lt)

lemma crosses_merge_mono: "crosses c own \<Longrightarrow> crosses c (merge_pair own other mode)"
  by (auto simp: crosses_def merge_pair_def Let_def exceeds_worse_upper falls_short_worse_lower)

lemma crosses_merge_symmetric:
  "crosses c (merge_pair own other Symmetric) \<longleftrightarrow> crosses c own \<or> crosses c other"
  by (auto simp: crosses_def merge_pair_def Let_def exceeds_worse_upper falls_short_worse_lower)

section \<open>Hysteresis over a history\<close>

text \<open>Observations (candidate class, newest sample's time), the newest first.\<close>

fun hyst_state :: "nat \<Rightarrow> quality \<Rightarrow> (quality \<times> nat) list \<Rightarrow> quality \<times> pending_class option" where
  "hyst_state n q0 [] = (q0, None)"
| "hyst_state n q0 ((c, ts) # h) = (case hyst_state n q0 h of (q, p) \<Rightarrow> hysteresis n c ts (Some q) p)"

text \<open>How many fresh samples at the head of the history agree on a class, and the last one's time:
  an observation of the sample counted last does not count again.\<close>

fun agreeing :: "quality \<Rightarrow> (quality \<times> nat) list \<Rightarrow> nat \<times> nat" where
  "agreeing c [] = (0, 0)"
| "agreeing c ((d, ts) # h) =
     (if d = c then (case agreeing c h of (k, l) \<Rightarrow> if l \<noteq> ts then (k + 1, ts) else (k, l)) else (0, 0))"

definition hyst_inv :: "nat \<Rightarrow> (quality \<times> nat) list \<Rightarrow> quality \<times> pending_class option \<Rightarrow> bool" where
  "hyst_inv n h st \<longleftrightarrow> (case snd st of
     Some e \<Rightarrow> h \<noteq> [] \<and> pd_quality e = fst (hd h) \<and> fst st \<noteq> fst (hd h)
       \<and> agreeing (pd_quality e) h = (pd_passes e, pd_last_ts e) \<and> pd_passes e < max n 1
   | None \<Rightarrow> h = [] \<or> fst st = fst (hd h))"

lemma agreeing_other: "h = [] \<or> fst (hd h) \<noteq> c \<Longrightarrow> agreeing c h = (0, 0)"
  by (cases h) auto

lemma hysteresis_step:
  assumes inv: "hyst_inv n h (q, p)" and n: "n < 2 ^ 32"
  shows "hyst_inv n ((c, ts) # h) (hysteresis n c ts (Some q) p)
    \<and> (q \<noteq> c \<longrightarrow> fst (hysteresis n c ts (Some q) p)
        = (if max n 1 \<le> fst (agreeing c ((c, ts) # h)) then c else q))"
proof (cases "q = c")
  case True
  then show ?thesis by (simp add: hysteresis_def hyst_inv_def)
next
  case False
  define e1 where "e1 = (case p of None \<Rightarrow> \<lparr>pd_quality = c, pd_passes = 0, pd_last_ts = 0\<rparr>
    | Some e \<Rightarrow> if pd_quality e = c then e else \<lparr>pd_quality = c, pd_passes = 0, pd_last_ts = 0\<rparr>)"
  have a: "agreeing c h = (pd_passes e1, pd_last_ts e1)" and q1: "pd_quality e1 = c"
    and small: "pd_passes e1 < max n 1"
    using inv False by (auto simp: e1_def hyst_inv_def agreeing_other split: option.splits)
  define e2 where "e2 = (if pd_last_ts e1 \<noteq> ts
    then e1\<lparr>pd_passes := add32 (pd_passes e1) 1, pd_last_ts := ts\<rparr> else e1)"
  have h: "hysteresis n c ts (Some q) p
      = (if max n 1 \<le> pd_passes e2 then (c, None) else (q, Some e2))"
    unfolding hysteresis_def Let_def e2_def e1_def using False
    by (cases p) simp_all
  have "add32 (pd_passes e1) 1 = pd_passes e1 + 1"
    using small n by (intro add32_small) auto
  then have "agreeing c ((c, ts) # h) = (pd_passes e2, pd_last_ts e2)" "pd_quality e2 = c"
    using a q1 by (auto simp: e2_def)
  then show ?thesis using False unfolding h by (auto simp: hyst_inv_def)
qed

lemma hyst_state_inv: "n < 2 ^ 32 \<Longrightarrow> hyst_inv n h (hyst_state n q0 h)"
proof (induction n q0 h rule: hyst_state.induct)
  case (1 n q0)
  then show ?case by (simp add: hyst_inv_def)
next
  case (2 n q0 c ts h)
  then show ?case using hysteresis_step by (auto split: prod.splits)
qed


section \<open>What a pass touches\<close>

text \<open>Per link: held policy, candidate under confirmation, derived record.\<close>

definition policy_at :: "app_state \<Rightarrow> link_key \<Rightarrow> last_policy option \<times> pending_class option \<times> quality_record option" where
  "policy_at st l = (hm_get (cs_last (as_classifier st)) l, hm_get (cs_pending (as_classifier st)) l,
     kv_get (as_kv st) l)"

lemma hm_get_set_opt [simp]: "hm_get (set_opt k v m) k' = (if k' = k then v else hm_get m k')"
  by (cases v) (simp_all add: set_opt_def)

lemma write_derived_simps [simp]:
  "as_cfg (write_derived st l v q c) = as_cfg st"
  "as_classifier (write_derived st l v q c) = as_classifier st"
  "as_tsdb (write_derived st l v q c) = as_tsdb st"
  "as_workers (write_derived st l v q c) = as_workers st"
  by (simp_all add: write_derived_def)

lemma rec_acc_derived [simp]: "rec_acc (derived_record v q c) = (\<lambda>p. qr_ts p \<le> wv_ts v)"
  by (rule ext) (simp add: rec_acc_def derived_record_def)

lemma kv_get_write_derived:
  "kv_get (as_kv (write_derived st l v q c)) l' =
     (if l' = l \<and> opt_all (\<lambda>p. qr_ts p \<le> wv_ts v) (kv_get (as_kv st) l)
      then Some (derived_record v q c) else kv_get (as_kv st) l')"
  by (simp add: write_derived_def kv_get_put)

lemma classify_link_cfg [simp]: "as_cfg (classify_link pairs views owned now l st) = as_cfg st"
  by (simp add: classify_link_def hold_last_def reclassify_def Let_def split: option.splits prod.splits)

lemma classify_link_other:
  "l \<noteq> link \<or> l \<notin> set owned \<Longrightarrow> policy_at (classify_link pairs views owned now l st) link = policy_at st link"
  by (auto simp: classify_link_def hold_last_def reclassify_def policy_at_def kv_get_write_derived Let_def
      split: option.splits prod.splits)

lemma classify_links_other:
  "link \<notin> set ls \<or> link \<notin> set owned
    \<Longrightarrow> policy_at (fold (classify_link pairs views owned now) ls st) link = policy_at st link"
proof (induction ls arbitrary: st)
  case (Cons l ls)
  then have "policy_at (classify_link pairs views owned now l st) link = policy_at st link"
    by (intro classify_link_other) auto
  with Cons show ?case by auto
qed simp

lemma classify_links_cfg [simp]: "as_cfg (fold (classify_link pairs views owned now) ls st) = as_cfg st"
  by (induction ls arbitrary: st) auto

text \<open>With distinct links, what the pass does to one link is what \<open>classify_link\<close> does to it.\<close>

lemma classify_links_at:
  assumes "distinct ls" "link \<in> set ls"
  shows "\<exists>st'. policy_at st' link = policy_at st link \<and> as_cfg st' = as_cfg st
    \<and> policy_at (fold (classify_link pairs views owned now) ls st) link
      = policy_at (classify_link pairs views owned now link st') link"
  using assms
proof (induction ls arbitrary: st)
  case (Cons l ls)
  show ?case
  proof (cases "l = link")
    case True
    with Cons.prems have "link \<notin> set ls" by auto
    then show ?thesis using True classify_links_other by fastforce
  next
    case False
    with Cons.prems have "distinct ls" "link \<in> set ls" by auto
    from Cons.IH [OF this, of "classify_link pairs views owned now l st"] False
    show ?thesis by (auto simp: classify_link_other)
  qed
qed simp

section \<open>The passive fold\<close>

definition measured_part :: "window_view \<Rightarrow> window_view" where
  "measured_part v = v\<lparr>wv_mark_loss_pct := None, wv_mark_loss_s_pct := None, wv_mark_loss_l_pct := None,
     wv_mark_rate_mbps := None, wv_regime := None, wv_implied_tcp_mbps := None\<rparr>"

lemma measured_part_mark_view [simp]: "measured_part (mark_view s cfg v) = measured_part v"
  by (simp add: measured_part_def mark_view_def)

lemma fold_marking_frame:
  "policy_at (fst (fold_marking st link other view now owned)) l = policy_at st l"
  "as_cfg (fst (fold_marking st link other view now owned)) = as_cfg st"
  "as_workers (fst (fold_marking st link other view now owned)) = as_workers st"
  "measured_part (snd (fold_marking st link other view now owned)) = measured_part view"
  by (simp_all add: fold_marking_def Let_def policy_at_def)

lemma fold_pair_frame:
  "policy_at (fst (fold_pair owned now p sv)) l = policy_at (fst sv) l
   \<and> as_cfg (fst (fold_pair owned now p sv)) = as_cfg (fst sv)
   \<and> map_option measured_part (hm_get (snd (fold_pair owned now p sv)) l)
     = map_option measured_part (hm_get (snd sv) l)"
  by (cases p; cases sv)
    (auto simp: fold_pair_def split_beta fold_marking_frame split: option.splits)

lemma fold_pairs_frame:
  "policy_at (fst (fold (fold_pair owned now) ps sv)) l = policy_at (fst sv) l
   \<and> as_cfg (fst (fold (fold_pair owned now) ps sv)) = as_cfg (fst sv)
   \<and> map_option measured_part (hm_get (snd (fold (fold_pair owned now) ps sv)) l)
     = map_option measured_part (hm_get (snd sv) l)"
  by (induction ps arbitrary: sv) (simp_all add: fold_pair_frame)

lemma hm_get_views:
  "hm_get (List.map_filter (\<lambda>l. map_option (\<lambda>v. (l, v)) (f l)) ls) l = (if l \<in> set ls then f l else None)"
  by (induction ls) (auto simp: List.map_filter_simps split: option.splits)

definition window_spec_of :: "classifier_cfg \<Rightarrow> window_spec" where
  "window_spec_of cc = \<lparr>ws_always_fresh_secs = cc_always_fresh_secs cc, ws_tcp_fresh_secs = cc_tcp_fresh_secs cc,
     ws_tcp_carry_secs = cc_tcp_carry_secs cc\<rparr>"

text \<open>One pass seen from one link: either nothing happens to it, or it is classified once with a
  view that differs from its window in the passive dimensions only.\<close>

lemma classify_once_at:
  assumes "hm_ok (td_by_link (as_tsdb st))"
  shows "policy_at (classify_once now st) link = policy_at st link
    \<or> link \<in> set (map snd (owned_links (as_workers st)))
      \<and> (\<exists>pairs views st' view w. policy_at st' link = policy_at st link \<and> as_cfg st' = as_cfg st
        \<and> hm_get views link = Some view
        \<and> tsdb_window (as_tsdb st) link (window_spec_of (cf_classifier (as_cfg st))) now = Some w
        \<and> measured_part view = measured_part w
        \<and> policy_at (classify_once now st) link
          = policy_at (classify_link pairs views (map snd (owned_links (as_workers st))) now link st') link)"
proof -
  define cc where "cc = cf_classifier (as_cfg st)"
  define links where "links = tsdb_links (as_tsdb st)"
  define views where "views = List.map_filter
    (\<lambda>l. map_option (\<lambda>v. (l, v)) (tsdb_window (as_tsdb st) l (window_spec_of cc) now)) links"
  define pairs where "pairs = (if cc_pair_cost cc = Off then [] else pair_links links)"
  define owned where "owned = map snd (owned_links (as_workers st))"
  obtain st1 views1 where sv: "fold (fold_pair owned now) (pair_links links) (st, views) = (st1, views1)"
    by fastforce
  have once: "classify_once now st = fold (classify_link pairs views1 owned now) links st1"
    unfolding classify_once_def Let_def
    by (simp add: sv [unfolded views_def links_def owned_def cc_def window_spec_of_def] pairs_def links_def owned_def cc_def)
  have fr: "policy_at st1 link = policy_at st link" "as_cfg st1 = as_cfg st"
    "map_option measured_part (hm_get views1 link) = map_option measured_part (hm_get views link)"
    using fold_pairs_frame [of owned now "pair_links links" "(st, views)" link] by (simp_all add: sv)
  show ?thesis
  proof (cases "link \<in> set links \<and> link \<in> set owned \<and> hm_get views1 link \<noteq> None")
    case False
    then have "policy_at (classify_once now st) link = policy_at st1 link"
      unfolding once
    proof (cases "link \<in> set links \<and> link \<in> set owned")
      case True
      with False have "hm_get views1 link = None" by simp
      then have c: "classify_link pairs views1 owned now link s = s" for s
        by (simp add: classify_link_def)
      have "distinct links"
        using assms by (simp add: links_def tsdb_links_def hm_ok_def distinct_map_filter)
      from classify_links_at [OF this, of link st1 pairs views1 owned now] True c
      show "policy_at (fold (classify_link pairs views1 owned now) links st1) link = policy_at st1 link"
        by auto
    qed (auto intro: classify_links_other)
    with fr(1) show ?thesis by simp
  next
    case True
    then obtain view where v: "hm_get views1 link = Some view" by auto
    with fr(3) obtain w where w: "hm_get views link = Some w" "measured_part view = measured_part w"
      by (cases "hm_get views link") auto
    have win: "tsdb_window (as_tsdb st) link (window_spec_of cc) now = Some w"
      using w(1) True unfolding views_def hm_get_views by simp
    have "distinct links"
      using assms by (simp add: links_def tsdb_links_def hm_ok_def distinct_map_filter)
    from classify_links_at [OF this, of link st1 pairs views1 owned now] True
    obtain st' where "policy_at st' link = policy_at st1 link" "as_cfg st' = as_cfg st1"
      "policy_at (classify_once now st) link = policy_at (classify_link pairs views1 owned now link st') link"
      unfolding once by auto
    with fr v w(2) win True show ?thesis unfolding owned_def cc_def by metis
  qed
qed

lemma measured_part_eq:
  "measured_part v = measured_part w \<Longrightarrow> wv_ts v = wv_ts w \<and> wv_state v = wv_state w
    \<and> wv_rtt_ms v = wv_rtt_ms w \<and> wv_loss_pct v = wv_loss_pct w \<and> wv_jitter_ms v = wv_jitter_ms w"
  by (cases v; cases w) (simp add: measured_part_def)


section \<open>Properties\<close>

text \<open>C32: pairing is a matching: a link's partner is its only reverse link, the partner's partner is
  the link itself, and no two links share a partner.\<close>

theorem pairing_is_a_matching:
  assumes "hm_get (pair_links links) l = Some r"
  shows "hm_get (pair_links links) r = Some l \<and> lk_from r = lk_to l \<and> lk_to r = lk_from l \<and> r \<noteq> l
    \<and> (hm_get (pair_links links) l' = Some r \<longrightarrow> l' = l)"
proof -
  have l: "l \<in> set links" "lk_from l \<noteq> lk_to l" "dir_links links (lk_from l) (lk_to l) = [l]"
    "dir_links links (lk_to l) (lk_from l) = [r]"
    using assms by (auto simp: pair_links_iff)
  then have "r \<in> set (dir_links links (lk_to l) (lk_from l))" by simp
  then have r: "r \<in> set links" "lk_from r = lk_to l" "lk_to r = lk_from l" by (auto simp: dir_links_def)
  have "hm_get (pair_links links) r = Some l" using l r by (simp add: pair_links_iff)
  moreover have "l' = l" if "hm_get (pair_links links) l' = Some r"
  proof -
    have l': "dir_links links (lk_from l') (lk_to l') = [l']" "dir_links links (lk_to l') (lk_from l') = [r]"
      using that by (auto simp: pair_links_iff)
    then have "r \<in> set (dir_links links (lk_to l') (lk_from l'))" by simp
    then have "lk_from r = lk_to l'" "lk_to r = lk_from l'" by (auto simp: dir_links_def)
    then have "lk_to l' = lk_to l" "lk_from l' = lk_from l" using r(2,3) by metis+
    then have "[l'] = [l]" using l'(1) l(3) by metis
    then show ?thesis by simp
  qed
  moreover have "r \<noteq> l" using r(2) l(2) by metis
  ultimately show ?thesis using r(2,3) by blast
qed

text \<open>Pairing only makes a class worse, and in the symmetric mode both halves of a tunnel get the
  same class, whatever each of them measured.\<close>

theorem paired_class:
  "classify_window qcfg own \<le> classify_window qcfg (merge_pair own other mode)
   \<and> classify_window qcfg (merge_pair own other Symmetric) = classify_window qcfg (merge_pair other own Symmetric)"
proof
  show "classify_window qcfg own \<le> classify_window qcfg (merge_pair own other mode)"
    unfolding classify_eq_crossing by (rule class_by_crossing_mono) (rule crosses_merge_mono)
  show "classify_window qcfg (merge_pair own other Symmetric) = classify_window qcfg (merge_pair other own Symmetric)"
    unfolding classify_eq_crossing class_by_crossing_def crosses_merge_symmetric by auto
qed

text \<open>C2: hysteresis is exact: after any history of observations, a differing candidate takes over
  if and only if the last \<open>hysteresis_passes\<close> fresh samples (at least one) agree on it; a pass
  that sees the sample counted last again does not count.\<close>

theorem class_changes_after_agreeing_samples:
  assumes "n < 2 ^ 32"
  shows "fst (hyst_state n q0 ((c, ts) # h)) =
    (if fst (hyst_state n q0 h) = c \<or> max n 1 \<le> fst (agreeing c ((c, ts) # h)) then c
     else fst (hyst_state n q0 h))"
proof (cases "hyst_state n q0 h")
  case (Pair q p)
  have "hyst_inv n h (q, p)" using hyst_state_inv [OF assms, of h q0] Pair by simp
  from hysteresis_step [OF this assms, of c ts] show ?thesis
    by (simp only: Pair hyst_state.simps prod.case fst_conv) (auto simp: hysteresis_def)
qed

text \<open>A hub never prefers a detour over a spoke: when the offset exceeds every class cost, any
  hub-to-spoke link costs more than any link between hubs, whatever their classes.\<close>

theorem spoke_detour_costs_more:
  assumes "is_hub cfg (lk_from a)" "\<not> is_hub cfg (lk_to a)" "is_hub cfg (lk_to b)"
    and "cost_for_quality (cf_quality cfg) q' < cc_hub_spoke_cost_offset (cf_classifier cfg)"
    and "cost_for_quality (cf_quality cfg) q' < u32_max"
  shows "policy_cost cfg b q' < policy_cost cfg a q"
  using assms by (simp add: policy_cost_def Let_def saturating_add32_def)

text \<open>C6: a link in use is never re-classified: while the newest sample in its window is busy or
  conflict and younger than \<open>busy_hold_secs\<close>, a pass leaves its held class and its
  confirmation state alone, and the derived record is either kept or rewritten with the held
  cost.\<close>

theorem busy_link_keeps_its_cost:
  assumes "hm_ok (td_by_link (as_tsdb st))"
    and "tsdb_window (as_tsdb st) link (window_spec_of (cf_classifier (as_cfg st))) now = Some w"
    and "busy_held (as_cfg st) w now"
  shows "hm_get (cs_last (as_classifier (classify_once now st))) link = hm_get (cs_last (as_classifier st)) link
    \<and> hm_get (cs_pending (as_classifier (classify_once now st))) link = hm_get (cs_pending (as_classifier st)) link
    \<and> (kv_get (as_kv (classify_once now st)) link = kv_get (as_kv st) link
      \<or> (\<exists>r. kv_get (as_kv (classify_once now st)) link = Some r
          \<and> qr_ospf_cost r = map_option lp_ospf_cost (hm_get (cs_last (as_classifier st)) link)))"
  using classify_once_at [OF assms(1), of now link]
proof
  assume "policy_at (classify_once now st) link = policy_at st link"
  then show ?thesis by (simp add: policy_at_def)
next
  assume "link \<in> set (map snd (owned_links (as_workers st)))
      \<and> (\<exists>pairs views st' view w. policy_at st' link = policy_at st link \<and> as_cfg st' = as_cfg st
        \<and> hm_get views link = Some view
        \<and> tsdb_window (as_tsdb st) link (window_spec_of (cf_classifier (as_cfg st))) now = Some w
        \<and> measured_part view = measured_part w
        \<and> policy_at (classify_once now st) link
          = policy_at (classify_link pairs views (map snd (owned_links (as_workers st))) now link st') link)"
  then obtain pairs views st' view where o: "link \<in> set (map snd (owned_links (as_workers st)))"
    and p: "policy_at st' link = policy_at st link" "as_cfg st' = as_cfg st"
    and v: "hm_get views link = Some view" "measured_part view = measured_part w"
    and c: "policy_at (classify_once now st) link
      = policy_at (classify_link pairs views (map snd (owned_links (as_workers st))) now link st') link"
    using assms(2) by auto
  have "busy_held (as_cfg st') view now"
    using assms(3) measured_part_eq [OF v(2)] by (simp add: busy_held_def p(2))
  then have "classify_link pairs views (map snd (owned_links (as_workers st))) now link st' = hold_last st' link view"
    using o v(1) by (simp add: classify_link_def)
  then show ?thesis
    using c p(1) by (auto simp: policy_at_def hold_last_def Let_def kv_get_write_derived derived_record_def)
qed

text \<open>A derived record has one writer: a pass leaves the record, the held class and the
  confirmation state of every link not owned by this node's agents as they are.\<close>

theorem pass_writes_owned_links_only:
  assumes "hm_ok (td_by_link (as_tsdb st))" "link \<notin> set (map snd (owned_links (as_workers st)))"
  shows "policy_at (classify_once now st) link = policy_at st link"
  using classify_once_at [OF assms(1), of now link] assms(2) by blast

section \<open>Witnesses\<close>

definition ab :: link_key where "ab = new_link ''a'' ''b'' ''i''"
definition ba :: link_key where "ba = new_link ''b'' ''a'' ''j''"

theorem pairing_is_a_matching_witness:
  "hm_get (pair_links [ab, ba]) ba = Some ab \<and> lk_from ba = lk_to ab \<and> lk_to ba = lk_from ab \<and> ba \<noteq> ab"
proof -
  have "hm_get (pair_links [ab, ba]) ab = Some ba"
    by (simp add: pair_links_iff dir_links_def ab_def ba_def new_link_def)
  from pairing_is_a_matching [OF this] show ?thesis by blast
qed

theorem class_changes_after_agreeing_samples_witness:
  "fst (hyst_state 2 Good [(Poor, 30), (Poor, 20), (Poor, 20)]) = Poor"
  using class_changes_after_agreeing_samples [of 2 Good Poor 30 "[(Poor, 20), (Poor, 20)]"]
  by (simp add: max_def)

definition hub_cfg :: config where
  "hub_cfg = config_default\<lparr>cf_members := [''a'', ''b'']\<rparr>"

theorem spoke_detour_costs_more_witness:
  "policy_cost hub_cfg (new_link ''a'' ''b'' ''i'') Bad < policy_cost hub_cfg (new_link ''a'' ''spoke'' ''k'') Good"
  by (rule spoke_detour_costs_more)
    (simp_all add: is_hub_def hub_cfg_def config_default_def cluster_cfg_default_def new_link_def
      quality_cfg_default_def class_with_def classifier_cfg_default_def u32_max_def)

definition busy_sample :: raw_sample where
  "busy_sample = from_dims Busy 50 None None None None (Fin 4)"

definition busy_state :: app_state where
  "busy_state = (let st = app_state_new hub_cfg in
     st\<lparr>as_tsdb := append_sample ab busy_sample (as_tsdb st),
        as_workers := snd (register_worker ''a'' [ab] None [] None (as_workers st)),
        as_classifier := (as_classifier st)\<lparr>cs_last := [(ab, \<lparr>lp_quality = Poor, lp_ospf_cost = 50\<rparr>)]\<rparr>\<rparr>)"

lemma busy_state_ok: "hm_ok (td_by_link (as_tsdb busy_state))" by code_simp

theorem busy_link_keeps_its_cost_witness:
  "hm_get (cs_last (as_classifier (classify_once 60 busy_state))) ab = hm_get (cs_last (as_classifier busy_state)) ab
    \<and> hm_get (cs_pending (as_classifier (classify_once 60 busy_state))) ab = hm_get (cs_pending (as_classifier busy_state)) ab
    \<and> (kv_get (as_kv (classify_once 60 busy_state)) ab = kv_get (as_kv busy_state) ab
      \<or> (\<exists>r. kv_get (as_kv (classify_once 60 busy_state)) ab = Some r
          \<and> qr_ospf_cost r = map_option lp_ospf_cost (hm_get (cs_last (as_classifier busy_state)) ab)))"
proof (rule busy_link_keeps_its_cost [OF busy_state_ok])
  let ?w = "tsdb_window (as_tsdb busy_state) ab (window_spec_of (cf_classifier (as_cfg busy_state))) 60"
  show "?w = Some (the ?w)" by code_simp
  show "busy_held (as_cfg busy_state) (the ?w) 60" by code_simp
qed

theorem pass_writes_owned_links_only_witness:
  "policy_at (classify_once 60 (busy_state\<lparr>as_workers := registry_new\<rparr>)) ab
    = policy_at (busy_state\<lparr>as_workers := registry_new\<rparr>) ab"
  by (rule pass_writes_owned_links_only)
    (simp_all add: busy_state_ok, simp add: owned_links_def registry_new_def)

end
