(* ===== verification/Session.thy ===== *)
theory Session
  imports AppState
begin

text \<open>
  Agent sessions (\<open>crates/controller/src/session.rs\<close>) and the measurement ingest they feed
  (\<open>api.rs\<close>): registration, the dispatch of a command as a running task, the reply or
  failure that ends it, the directory sync. The transport is outside: a session is a handle,
  a task's result is an argument. The clock reading of a call and the fresh command ids
  (uuids) are arguments too; the trace context only labels spans and is \<open>None\<close>.
\<close>

section \<open>Measurement ingest\<close>

record measure =
  me_link :: link_key
  me_ts :: "nat option"
  me_rtt_ms :: "f64 option"
  me_loss_pct :: "f64 option"
  me_jitter_ms :: "f64 option"
  me_tcp_mbps :: "f64 option"
  me_udp :: "f64 option \<times> f64 option \<times> f64 option"
  me_util_mbps :: f64
  me_probe_state :: probe_state
  me_token :: "string option"

definition measure_sample :: "nat \<Rightarrow> measure \<Rightarrow> raw_sample" where
  "measure_sample now m =
     (let ts = (case me_ts m of Some t \<Rightarrow> t | None \<Rightarrow> now); (mbps, jitter, loss) = me_udp m
      in with_udp (from_dims (me_probe_state m) ts (me_rtt_ms m) (me_loss_pct m) (me_jitter_ms m)
           (me_tcp_mbps m) (me_util_mbps m)) mbps jitter loss)"

definition ingest_quality :: "nat \<Rightarrow> measure \<Rightarrow> app_state \<Rightarrow> app_state" where
  "ingest_quality now m st =
     (let st = st\<lparr>as_tsdb := append_sample (me_link m) (measure_sample now m) (as_tsdb st)\<rparr>;
          st = st\<lparr>as_reports := add64 (as_reports st) 1\<rparr>
      in case me_token m of
           Some t \<Rightarrow> st\<lparr>as_fence := snd (release (link_id (me_link m)) t (as_fence st))\<rparr>
         | None \<Rightarrow> st)"

section \<open>Commands\<close>

fun deadline :: "work_cmd \<Rightarrow> nat" where
  "deadline (Probe _ Always _ _ _) = 30"
| "deadline (Probe _ Throughput _ _ _) = 120"
| "deadline (ApplyCost _ _ _ _) = 60"
| "deadline (Trace _ _ _) = 30"

text \<open>The command is refused without a session or while its slot is taken; otherwise its task
  starts on the session the agent has now.\<close>

definition start_task :: "string \<Rightarrow> session_handle \<Rightarrow> work_cmd \<Rightarrow> app_state \<Rightarrow> app_state" where
  "start_task agent s cmd st =
     st\<lparr>as_tasks := \<lparr>tk_agent = agent, tk_session = s, tk_cmd = cmd\<rparr> # as_tasks st\<rparr>"

definition dispatch :: "string \<Rightarrow> work_cmd \<Rightarrow> app_state \<Rightarrow> bool \<times> app_state" where
  "dispatch agent cmd st =
     (case session_of (as_workers st) agent of
        None \<Rightarrow> (False, st)
      | Some s \<Rightarrow>
          (case track_key cmd of
             None \<Rightarrow> (True, start_task agent s cmd st)
           | Some (link, k) \<Rightarrow>
               let (free, w) = begin_cmd agent link k (as_workers st); st = st\<lparr>as_workers := w\<rparr>
               in if free then (True, start_task agent s cmd st) else (False, st)))"

fun on_failure :: "string \<Rightarrow> nat \<Rightarrow> work_cmd \<Rightarrow> app_state \<Rightarrow> app_state" where
  "on_failure agent now (Probe _ Throughput (Some token) link _) st =
     st\<lparr>as_fence := snd (release (link_id link) token (as_fence st))\<rparr>"
| "on_failure agent now (Probe _ _ _ _ _) st = st"
| "on_failure agent now (ApplyCost _ link _ _) st =
     st\<lparr>as_workers := note_apply_failed agent link now (as_workers st)\<rparr>"
| "on_failure agent now (Trace _ _ _) st = st"

definition append_block :: "link_key \<Rightarrow> mark_block \<Rightarrow> tsdb \<Rightarrow> tsdb" where
  "append_block link b t = (case from_block b of Some s \<Rightarrow> append_sample link s t | None \<Rightarrow> t)"

definition reply_link :: "probe_reply \<Rightarrow> app_state \<Rightarrow> link_key" where
  "reply_link p st = (pr_link p)\<lparr>lk_to := canonical_peer (as_workers st) (lk_to (pr_link p))\<rparr>"

definition probe_measure :: "probe_reply \<Rightarrow> link_key \<Rightarrow> measure" where
  "probe_measure p link = \<lparr>me_link = link, me_ts = pr_ts p, me_rtt_ms = pr_rtt_ms p,
     me_loss_pct = pr_loss_pct p, me_jitter_ms = pr_jitter_ms p, me_tcp_mbps = pr_tcp_mbps p,
     me_udp = (pr_udp_mbps p, pr_udp_jitter_ms p, pr_udp_loss_pct p), me_util_mbps = pr_util_mbps p,
     me_probe_state = pr_state p, me_token = pr_token p\<rparr>"

fun handle_reply :: "nat \<Rightarrow> agent_reply \<Rightarrow> app_state \<Rightarrow> app_state" where
  "handle_reply now (RProbe p) st =
     (let link = reply_link p st;
          st = st\<lparr>as_tsdb := fold (append_block link) (pr_blocks p) (as_tsdb st)\<rparr>;
          st = (if pr_note p \<noteq> None then st\<lparr>as_probe_failures := add64 (as_probe_failures st) 1\<rparr> else st)
      in ingest_quality now (probe_measure p link) st)"
| "handle_reply now (RApplied agent _ link cost note _) st =
     (case note of
        None \<Rightarrow> st\<lparr>as_workers := set_applied_sent agent link cost (as_workers st)\<rparr>
      | Some _ \<Rightarrow> st\<lparr>as_workers := note_apply_failed agent link now (as_workers st)\<rparr>)"
| "handle_reply now (RTrace _ _ _ _ _ _) st = st"

text \<open>The task of a dispatched command: its reply or its failure, then the slot. The result is
  the error's text or the reply.\<close>

definition end_task :: "task \<Rightarrow> app_state \<Rightarrow> app_state" where
  "end_task t st =
     (case track_key (tk_cmd t) of
        Some (link, k) \<Rightarrow> st\<lparr>as_workers := end_cmd (tk_agent t) link k (as_workers st)\<rparr>
      | None \<Rightarrow> st)"

definition finish_task :: "task \<Rightarrow> string + agent_reply \<Rightarrow> nat \<Rightarrow> app_state \<Rightarrow> app_state" where
  "finish_task t res now st0 =
     (let st = st0\<lparr>as_tasks := remove1 t (as_tasks st0)\<rparr>
      in end_task t (case res of
           Inr reply \<Rightarrow> handle_reply now reply st
         | Inl err \<Rightarrow> on_failure (tk_agent t) now (tk_cmd t) st))"

section \<open>Registration\<close>

definition sync_entry ::
  "nat \<Rightarrow> string \<times> string option \<times> link_key list \<Rightarrow> lww_store \<Rightarrow> lww_store" where
  "sync_entry now = (\<lambda>(agent, rid, links) kv.
     case rid of
       None \<Rightarrow> kv
     | Some rid \<Rightarrow>
         if opt_all (\<lambda>e. ne_name e \<noteq> agent \<or> ne_links e \<noteq> links) (kv_node kv rid)
         then snd (set_node rid agent links now kv) else kv)"

definition sync_directory :: "nat \<Rightarrow> app_state \<Rightarrow> app_state" where
  "sync_directory now st =
     (let w = snd (resolve_peers (node_name (as_kv st)) (as_workers st))
      in st\<lparr>as_workers := w, as_kv := fold (sync_entry now) (entries w) (as_kv st)\<rparr>)"

definition reseed_link :: "(link_key \<Rightarrow> string) \<Rightarrow> string \<Rightarrow> link_key \<Rightarrow> app_state \<Rightarrow> app_state" where
  "reseed_link ids agent link st =
     (case Option.bind (kv_get (as_kv st) link) qr_ospf_cost of
        None \<Rightarrow> st
      | Some cost \<Rightarrow>
          let (sent, st) = dispatch agent (ApplyCost (ids link) link cost None) st
          in if sent then st\<lparr>as_workers := set_applied_sent agent link cost (as_workers st)\<rparr> else st)"

definition filter_rid :: "string option \<Rightarrow> string option" where
  "filter_rid rid = Option.bind rid (\<lambda>r. if r = [] then None else Some r)"

text \<open>The steps of a registration that reaches the registry, in the order of the code.\<close>

definition publish_node :: "register_req \<Rightarrow> nat \<Rightarrow> app_state \<Rightarrow> app_state" where
  "publish_node req now st =
     (case filter_rid (rq_router_id req) of
        Some rid \<Rightarrow> st\<lparr>as_kv := snd (set_node rid (rq_agent req) (links_of (as_workers st) (rq_agent req)) now
           (as_kv st))\<rparr>
      | None \<Rightarrow> st)"

definition register_links :: "register_req \<Rightarrow> nat \<Rightarrow> app_state \<Rightarrow> app_state" where
  "register_links req now st =
     sync_directory now (publish_node req now
       (st\<lparr>as_workers := snd (register_worker (rq_agent req) (rq_links req) (filter_rid (rq_router_id req))
          (rq_peer_rids req) (rq_loopback req) (as_workers st))\<rparr>))"

definition attach_session ::
  "string \<Rightarrow> session_handle \<Rightarrow> nat option \<Rightarrow> app_state \<Rightarrow> nat \<times> app_state" where
  "attach_session agent s own st =
     (let ((generation, old), w) = attach agent s own (as_workers st);
          st = st\<lparr>as_workers := w\<rparr>
      in (generation, case old of Some o_s \<Rightarrow> st\<lparr>as_closed := o_s # as_closed st\<rparr> | None \<Rightarrow> st))"

definition register ::
  "session_handle \<Rightarrow> (string \<times> nat) option \<Rightarrow> register_req \<Rightarrow> nat \<Rightarrow> (link_key \<Rightarrow> string) \<Rightarrow> app_state
    \<Rightarrow> (register_resp \<times> (string \<times> nat) option) \<times> app_state" where
  "register s identity req now ids st =
     (if rq_agent req = [] then
        ((\<lparr>rs_ok = False, rs_error = Some ''empty agent name''\<rparr>, None), st)
      else if opt_any (\<lambda>(name, _). name \<noteq> rq_agent req) identity then
        ((\<lparr>rs_ok = False, rs_error = Some (''session belongs to '' @ fst (the identity))\<rparr>, None), st)
      else
        let st = register_links req now st;
            (generation, st) = attach_session (rq_agent req) s (map_option snd identity) st;
            st = fold (reseed_link ids (rq_agent req)) (links_of (as_workers st) (rq_agent req)) st
        in ((\<lparr>rs_ok = True, rs_error = None\<rparr>, Some (rq_agent req, generation)), st))"

text \<open>One stream an agent opens, and the end of its session.\<close>

definition serve_stream ::
  "session_handle \<Rightarrow> (string \<times> nat) option \<Rightarrow> register_req \<Rightarrow> nat \<Rightarrow> (link_key \<Rightarrow> string) \<Rightarrow> app_state
    \<Rightarrow> register_resp \<times> (string \<times> nat) option \<times> app_state" where
  "serve_stream s identity req now ids st =
     (let ((resp, outcome), st) = register s identity req now ids st
      in (resp, opt_or outcome identity, st))"

definition session_end :: "(string \<times> nat) option \<Rightarrow> app_state \<Rightarrow> app_state" where
  "session_end identity st =
     (case identity of
        Some (agent, generation) \<Rightarrow> st\<lparr>as_workers := snd (detach agent generation (as_workers st))\<rparr>
      | None \<Rightarrow> st)"

section \<open>Which part of the state an operation touches\<close>

named_theorems session_frame \<open>fields an operation of the session leaves alone\<close>

lemma frame_ingest [simp, session_frame]:
  "as_workers (ingest_quality now m st) = as_workers st"
  "as_tasks (ingest_quality now m st) = as_tasks st"
  "as_kv (ingest_quality now m st) = as_kv st"
  by (simp_all add: ingest_quality_def Let_def split: option.split)

lemma frame_on_failure [simp, session_frame]:
  "as_tasks (on_failure agent now cmd st) = as_tasks st"
  "as_kv (on_failure agent now cmd st) = as_kv st"
  by (induction agent now cmd st rule: on_failure.induct) simp_all

lemma frame_handle_reply [simp, session_frame]:
  "as_tasks (handle_reply now reply st) = as_tasks st"
  "as_kv (handle_reply now reply st) = as_kv st"
  by (induction now reply st rule: handle_reply.induct) (simp_all add: Let_def split: option.split)

lemma frame_end_task [simp, session_frame]:
  "as_tasks (end_task t st) = as_tasks st"
  "as_fence (end_task t st) = as_fence st"
  "as_kv (end_task t st) = as_kv st"
  by (simp_all add: end_task_def split: option.split)

lemma frame_register_links [simp, session_frame]:
  "as_tasks (sync_directory now st) = as_tasks st"
  "as_fence (sync_directory now st) = as_fence st"
  "as_tasks (register_links req now st) = as_tasks st"
  "as_fence (register_links req now st) = as_fence st"
  by (simp_all add: sync_directory_def register_links_def publish_node_def Let_def split: option.split)

lemma frame_attach_session [simp, session_frame]:
  "as_tasks (snd (attach_session agent s own st)) = as_tasks st"
  "as_fence (snd (attach_session agent s own st)) = as_fence st"
  "as_kv (snd (attach_session agent s own st)) = as_kv st"
  "as_workers (snd (attach_session agent s own st)) = snd (attach agent s own (as_workers st))"
  "fst (attach_session agent s own st) = fst (fst (attach agent s own (as_workers st)))"
  by (simp_all add: attach_session_def Let_def split: option.split prod.split)

lemma frame_session_end [simp, session_frame]:
  "as_tasks (session_end identity st) = as_tasks st"
  "as_fence (session_end identity st) = as_fence st"
  by (simp_all add: session_end_def split: option.split)

section \<open>Slots after an operation\<close>

lemma busy_slots_same:
  assumes "\<And>a. map_option wk_in_flight (wr_get r' a) = map_option wk_in_flight (wr_get r a)"
  shows "busy_slots r' = busy_slots r"
proof -
  have "opt_any (\<lambda>w. (i, k) \<in> wk_in_flight w) (wr_get r' a) = opt_any (\<lambda>w. (i, k) \<in> wk_in_flight w) (wr_get r a)"
    for a i k using assms [of a] by (cases "wr_get r' a"; cases "wr_get r a") auto
  then show ?thesis by (simp add: busy_slots_def)
qed

lemma busy_slots_keep [simp]:
  "busy_slots (set_applied_sent agent link cost r) = busy_slots r"
  "busy_slots (note_apply_failed agent link now r) = busy_slots r"
  "busy_slots (mark_issued agent link t now r) = busy_slots r"
  "busy_slots (snd (resolve_peers lookup r)) = busy_slots r"
  by (rule busy_slots_same;
      simp add: set_applied_sent_def note_apply_failed_def mark_issued_def wr_get_resolve
        resolve_worker_def option.map_comp comp_def)+

lemma busy_slots_shrink:
  "busy_slots (snd (register_worker agent links rid rids lb r)) \<subseteq> busy_slots r"
  "busy_slots (snd (attach agent s own r)) \<subseteq> busy_slots r"
  "busy_slots (snd (detach agent g r)) \<subseteq> busy_slots r"
  by (auto simp: in_busy_slots wr_get_register wr_get_attach wr_get_detach wr_worker_get worker_default_def
      opt_any_def Let_def split: if_splits option.splits)

section \<open>Running commands\<close>

text \<open>The slots the running tasks hold: agent, link and kind of every tracked command.\<close>

definition task_slot :: "task \<Rightarrow> (string \<times> link_key \<times> kind) option" where
  "task_slot t = map_option (\<lambda>(link, k). (tk_agent t, link, k)) (track_key (tk_cmd t))"

definition running :: "app_state \<Rightarrow> (string \<times> link_key \<times> kind) list" where
  "running st = List.map_filter task_slot (as_tasks st)"

definition running_slots :: "app_state \<Rightarrow> (string \<times> string \<times> kind) list" where
  "running_slots st = map slot_key (running st)"

lemma dispatch_cases [case_names no_session untracked refused started]:
  obtains "session_of (as_workers st) agent = None" "dispatch agent cmd st = (False, st)"
  | s where "session_of (as_workers st) agent = Some s" "track_key cmd = None"
      "dispatch agent cmd st = (True, start_task agent s cmd st)"
  | s link k where "session_of (as_workers st) agent = Some s" "track_key cmd = Some (link, k)"
      "\<not> fst (claim_slot (agent, link, k) (as_workers st))"
      "dispatch agent cmd st = (False, st\<lparr>as_workers := snd (claim_slot (agent, link, k) (as_workers st))\<rparr>)"
  | s link k where "session_of (as_workers st) agent = Some s" "track_key cmd = Some (link, k)"
      "fst (claim_slot (agent, link, k) (as_workers st))"
      "dispatch agent cmd st = (True, start_task agent s cmd
         (st\<lparr>as_workers := snd (claim_slot (agent, link, k) (as_workers st))\<rparr>))"
proof (cases "session_of (as_workers st) agent")
  case (Some s)
  show thesis
  proof (cases "track_key cmd")
    case (Some p)
    moreover obtain link k where "p = (link, k)" by (cases p)
    ultimately show thesis
      using that(3) [of s link k] that(4) [of s link k] \<open>session_of _ _ = Some s\<close>
      by (cases "fst (begin_cmd agent link k (as_workers st))")
        (simp_all add: dispatch_def claim_slot_def split_beta Let_def)
  qed (use Some that(2) in \<open>simp add: dispatch_def\<close>)
qed (use that(1) in \<open>simp add: dispatch_def\<close>)

lemma running_start:
  "running (start_task agent s cmd st) =
     (case track_key cmd of Some (link, k) \<Rightarrow> (agent, link, k) # running st | None \<Rightarrow> running st)"
  by (simp add: running_def start_task_def task_slot_def List.map_filter_def split: option.split)

lemma workers_start [simp]: "as_workers (start_task agent s cmd st) = as_workers st"
  by (simp add: start_task_def)

lemma running_same: "as_tasks st' = as_tasks st \<Longrightarrow> running st' = running st"
  by (simp add: running_def)

lemma running_workers [simp]: "running (st\<lparr>as_workers := r\<rparr>) = running st"
  by (simp add: running_def)

lemma tasks_finish [simp]: "as_tasks (finish_task t res now st) = remove1 t (as_tasks st)"
  by (simp add: finish_task_def Let_def split: sum.split)

lemma busy_on_failure [simp]:
  "busy_slots (as_workers (on_failure agent now cmd st)) = busy_slots (as_workers st)"
  by (induction agent now cmd st rule: on_failure.induct) simp_all

lemma busy_handle_reply [simp]:
  "busy_slots (as_workers (handle_reply now reply st)) = busy_slots (as_workers st)"
  by (induction now reply st rule: handle_reply.induct) (simp_all add: Let_def split: option.split)

lemma busy_end_task:
  "as_workers (end_task t st) =
     (case task_slot t of Some c \<Rightarrow> free_slot c (as_workers st) | None \<Rightarrow> as_workers st)"
  by (simp add: end_task_def task_slot_def free_slot_def split: option.split)

text \<open>A finished task is a change that leaves the slots alone followed by the free of its slot.\<close>

lemma finish_workers:
  obtains r where "busy_slots r = busy_slots (as_workers st)"
    "as_workers (finish_task t res now st) =
       (case task_slot t of Some c \<Rightarrow> free_slot c r | None \<Rightarrow> r)"
proof -
  let ?st = "st\<lparr>as_tasks := remove1 t (as_tasks st)\<rparr>"
  let ?mid = "case res of Inr reply \<Rightarrow> handle_reply now reply ?st
    | Inl err \<Rightarrow> on_failure (tk_agent t) now (tk_cmd t) ?st"
  show thesis
  proof (rule that [of "as_workers ?mid"])
    show "busy_slots (as_workers ?mid) = busy_slots (as_workers st)" by (simp split: sum.split)
    show "as_workers (finish_task t res now st) =
        (case task_slot t of Some c \<Rightarrow> free_slot c (as_workers ?mid) | None \<Rightarrow> as_workers ?mid)"
      unfolding finish_task_def Let_def by (rule busy_end_task)
  qed
qed

section \<open>Dispatching and finishing\<close>

text \<open>Two registries with the same agents, sessions and commands in flight; every operation on
  links, costs, cadence and names leaves the registry alike.\<close>

definition sessions :: "registry \<Rightarrow> string \<Rightarrow> (nat \<times> session_handle) option option" where
  "sessions r agent = map_option wk_session (wr_get r agent)"

definition registry_alike :: "registry \<Rightarrow> registry \<Rightarrow> bool" where
  "registry_alike r r' \<longleftrightarrow> sessions r' = sessions r \<and> busy_slots r' = busy_slots r
     \<and> wr_generation r' = wr_generation r"

text \<open>What happens while the agents stay connected: commands are dispatched, tasks finish,
  and the rest of the controller works on the other parts of the state.\<close>

inductive work_step :: "app_state \<Rightarrow> app_state \<Rightarrow> bool" where
  dispatching: "work_step st (snd (dispatch agent cmd st))"
| finishing: "t \<in> set (as_tasks st) \<Longrightarrow> work_step st (finish_task t res now st)"
| elsewhere: "registry_alike (as_workers st) (as_workers st') \<Longrightarrow> as_tasks st' = as_tasks st
    \<Longrightarrow> as_closed st' = as_closed st \<Longrightarrow> work_step st st'"

lemma work_step_slots:
  assumes "work_step st st'"
  shows "in_flight.task_step\<^sup>*\<^sup>* (as_workers st, running st) (as_workers st', running st')"
  using assms
proof (cases rule: work_step.cases)
  case (dispatching agent cmd)
  then show ?thesis
    by (cases rule: dispatch_cases [of st agent cmd])
      (auto simp: running_start running_workers intro: in_flight.start in_flight.refused)
next
  case (finishing t res now)
  obtain us vs where s: "as_tasks st = us @ t # vs" "t \<notin> set us"
    using split_list_first [OF finishing(2)] by blast
  then have r: "remove1 t (as_tasks st) = us @ vs" by (simp add: remove1_append)
  obtain r where b: "busy_slots r = busy_slots (as_workers st)"
    "as_workers st' = (case task_slot t of Some c \<Rightarrow> free_slot c r | None \<Rightarrow> r)"
    unfolding finishing(1) by (rule finish_workers)
  have o: "in_flight.task_step (as_workers st, running st) (r, running st)"
    using b(1) by (rule in_flight.other)
  have st': "running st' = List.map_filter task_slot us @ List.map_filter task_slot vs"
    by (simp add: running_def finishing(1) r List.map_filter_def)
  show ?thesis
  proof (cases "task_slot t")
    case None
    with b(2) s st' o show ?thesis by (simp add: running_def List.map_filter_def r_into_rtranclp)
  next
    case (Some c)
    with s have "running st = List.map_filter task_slot us @ c # List.map_filter task_slot vs"
      by (cases c) (simp add: running_def List.map_filter_def)
    with in_flight.finish [of r "List.map_filter task_slot us" c "List.map_filter task_slot vs"]
    have "in_flight.task_step (r, running st) (as_workers st', running st')"
      by (simp add: b(2) Some st')
    with o show ?thesis by (meson r_into_rtranclp rtranclp_trans)
  qed
next
  case elsewhere
  then have "running st' = running st" by (intro running_same)
  moreover have "busy_slots (as_workers st') = busy_slots (as_workers st)"
    using elsewhere(1) by (simp add: registry_alike_def)
  ultimately show ?thesis
    using in_flight.other [of "as_workers st'" "as_workers st" "running st"] by (simp add: r_into_rtranclp)
qed

lemma work_run_slots:
  "work_step\<^sup>*\<^sup>* st st' \<Longrightarrow> in_flight.task_step\<^sup>*\<^sup>* (as_workers st, running st) (as_workers st', running st')"
  by (induction rule: rtranclp_induct) (auto intro: rtranclp_trans work_step_slots)

section \<open>Sessions after an operation\<close>

lemma sessions_keep [simp]:
  "sessions (set_applied_sent agent link cost r) = sessions r"
  "sessions (note_apply_failed agent link now r) = sessions r"
  "sessions (mark_issued agent link t now r) = sessions r"
  "sessions (snd (resolve_peers lookup r)) = sessions r"
  "sessions (snd (begin_cmd agent link k r)) = sessions r"
  "sessions (end_cmd agent link k r) = sessions r"
  by (rule ext; simp add: sessions_def set_applied_sent_def note_apply_failed_def mark_issued_def
      wr_get_resolve resolve_worker_def wr_get_begin end_cmd_def option.map_comp comp_def)+

lemma wk_session_worker: "wk_session (wr_worker r a) = Option.bind (sessions r a) id"
  by (simp add: sessions_def wr_worker_get worker_default_def split: option.split)

lemma sessions_register:
  "sessions (snd (register_worker agent links rid rids lb r)) b
    = (if b = agent then Some (Option.bind (sessions r agent) id) else sessions r b)"
  by (simp add: sessions_def wr_get_register option.map_comp comp_def flip: wk_session_worker [unfolded sessions_def])

lemma sessions_attach:
  "sessions (snd (attach agent s own r)) b
    = (if b \<noteq> agent then sessions r b
       else if own \<noteq> None \<and> own = map_option fst (Option.bind (sessions r agent) id)
         then Some (Option.bind (sessions r agent) id)
         else Some (Some (next_generation r, s)))"
  unfolding wk_session_worker [symmetric]
  by (cases "wk_session (wr_worker r agent)") (auto simp: sessions_def wr_get_attach Let_def)

lemma sessions_detach:
  "sessions (snd (detach agent g r)) b
    = (if b = agent \<and> map_option fst (Option.bind (sessions r agent) id) = Some g then None else sessions r b)"
  by (auto simp: sessions_def wr_get_detach opt_any_def split: option.splits)

lemma session_of_sessions: "session_of r a = map_option snd (Option.bind (sessions r a) id)"
  by (cases "hm_get (wr_inner r) a") (simp_all add: session_of_def sessions_def wr_get_def)

lemma has_agent_sessions: "has_agent r a \<longleftrightarrow> sessions r a \<noteq> None"
  by (simp add: has_agent_def hm_has_def sessions_def wr_get_def)

lemma generation_keep [simp]:
  "wr_generation (set_applied_sent agent link cost r) = wr_generation r"
  "wr_generation (note_apply_failed agent link now r) = wr_generation r"
  "wr_generation (mark_issued agent link t now r) = wr_generation r"
  "wr_generation (snd (resolve_peers lookup r)) = wr_generation r"
  "wr_generation (snd (begin_cmd agent link k r)) = wr_generation r"
  "wr_generation (end_cmd agent link k r) = wr_generation r"
  "wr_generation (snd (register_worker agent links rid rids lb r)) = wr_generation r"
  "wr_generation (snd (detach agent g r)) = wr_generation r"
  by (auto simp: set_applied_sent_def note_apply_failed_def mark_issued_def resolve_peers_def
      begin_cmd_def end_cmd_def register_worker_def detach_def Let_def wr_set_def split: option.splits)

text \<open>Registries after the composed operations.\<close>

lemma alike_refl [simp]: "registry_alike r r"
  by (simp add: registry_alike_def)

lemma alike_trans: "registry_alike a b \<Longrightarrow> registry_alike b c \<Longrightarrow> registry_alike a c"
  by (simp add: registry_alike_def)

lemma alike_sync_directory: "registry_alike (as_workers st) (as_workers (sync_directory now st))"
  by (simp add: registry_alike_def sync_directory_def Let_def)

lemma sessions_register_links:
  "sessions (as_workers (register_links req now st)) b
    = (if b = rq_agent req then Some (Option.bind (sessions (as_workers st) (rq_agent req)) id)
       else sessions (as_workers st) b)"
  "wr_generation (as_workers (register_links req now st)) = wr_generation (as_workers st)"
  "busy_slots (as_workers (register_links req now st)) \<subseteq> busy_slots (as_workers st)"
  using busy_slots_shrink(1)
  by (auto simp: register_links_def sync_directory_def publish_node_def sessions_register Let_def
      split: option.splits)

lemma closed_simps [simp]:
  "as_closed (snd (dispatch agent cmd st)) = as_closed st"
  "as_closed (reseed_link ids agent link st) = as_closed st"
  "as_closed (register_links req now st) = as_closed st"
  "as_closed (session_end identity st) = as_closed st"
  by (auto simp: dispatch_def reseed_link_def start_task_def register_links_def sync_directory_def
      publish_node_def session_end_def Let_def split: option.splits prod.splits)

lemma sessions_dispatch [simp]:
  "sessions (as_workers (snd (dispatch agent cmd st))) = sessions (as_workers st)"
  "wr_generation (as_workers (snd (dispatch agent cmd st))) = wr_generation (as_workers st)"
  by (cases rule: dispatch_cases [of st agent cmd]; simp add: claim_slot_def)+

lemma sessions_reseed_link [simp]:
  "sessions (as_workers (reseed_link ids agent link st)) = sessions (as_workers st)"
  "wr_generation (as_workers (reseed_link ids agent link st)) = wr_generation (as_workers st)"
  using sessions_dispatch [of agent _ st] by (simp_all add: reseed_link_def split_beta Let_def split: option.split)

lemma reseed_fold [simp]:
  "sessions (as_workers (fold (reseed_link ids agent) ls st)) = sessions (as_workers st)"
  "wr_generation (as_workers (fold (reseed_link ids agent) ls st)) = wr_generation (as_workers st)"
  "as_closed (fold (reseed_link ids agent) ls st) = as_closed st"
  by (induction ls arbitrary: st) simp_all

lemma closed_attach_session:
  "as_closed (snd (attach_session agent s own st)) =
     (case snd (fst (attach agent s own (as_workers st))) of Some o_s \<Rightarrow> o_s # as_closed st | None \<Rightarrow> as_closed st)"
  by (simp add: attach_session_def split_beta Let_def split: option.split)

lemma finish_keeps [simp]:
  "sessions (as_workers (on_failure agent now cmd st)) = sessions (as_workers st)"
  "wr_generation (as_workers (on_failure agent now cmd st)) = wr_generation (as_workers st)"
  "as_closed (on_failure agent now cmd st) = as_closed st"
  by (induction agent now cmd st rule: on_failure.induct) simp_all

lemma reply_keeps [simp]:
  "sessions (as_workers (handle_reply now reply st)) = sessions (as_workers st)"
  "wr_generation (as_workers (handle_reply now reply st)) = wr_generation (as_workers st)"
  "as_closed (handle_reply now reply st) = as_closed st"
  by (induction now reply st rule: handle_reply.induct)
    (simp_all add: Let_def ingest_quality_def split: option.split)

lemma finish_task_keeps [simp]:
  "sessions (as_workers (finish_task t res now st)) = sessions (as_workers st)"
  "wr_generation (as_workers (finish_task t res now st)) = wr_generation (as_workers st)"
  "as_closed (finish_task t res now st) = as_closed st"
  by (auto simp: finish_task_def end_task_def Let_def split: sum.splits option.splits)

lemma work_step_keeps:
  assumes "work_step st st'"
  shows "sessions (as_workers st') = sessions (as_workers st)"
    and "wr_generation (as_workers st') = wr_generation (as_workers st)" and "as_closed st' = as_closed st"
  using assms by (auto elim!: work_step.cases simp: registry_alike_def)

section \<open>The outcome of a registration\<close>

lemma register_cases [case_names empty foreign ok]:
  obtains "rq_agent req = []"
      "register s ident req now ids st = ((\<lparr>rs_ok = False, rs_error = Some ''empty agent name''\<rparr>, None), st)"
  | name g where "rq_agent req \<noteq> []" "ident = Some (name, g)" "name \<noteq> rq_agent req"
      "register s ident req now ids st
        = ((\<lparr>rs_ok = False, rs_error = Some (''session belongs to '' @ name)\<rparr>, None), st)"
  | st1 g st2 where "rq_agent req \<noteq> []" "\<And>i. ident = Some i \<Longrightarrow> fst i = rq_agent req"
      "st1 = register_links req now st"
      "(g, st2) = attach_session (rq_agent req) s (map_option snd ident) st1"
      "register s ident req now ids st = ((\<lparr>rs_ok = True, rs_error = None\<rparr>, Some (rq_agent req, g)),
        fold (reseed_link ids (rq_agent req)) (links_of (as_workers st2) (rq_agent req)) st2)"
proof (cases "rq_agent req = []")
  case False
  show thesis
  proof (cases "\<exists>name g. ident = Some (name, g) \<and> name \<noteq> rq_agent req")
    case True
    with \<open>rq_agent req \<noteq> []\<close> that(2) show thesis by (auto simp: register_def)
  next
    case False
    then have same: "fst i = rq_agent req" if "ident = Some i" for i using that by (cases i) auto
    obtain g st2 where a: "(g, st2) = attach_session (rq_agent req) s (map_option snd ident) (register_links req now st)"
      by (metis surj_pair)
    with \<open>rq_agent req \<noteq> []\<close> same show thesis
      by (intro that(3) [OF _ _ refl a]) (auto simp: register_def opt_any_def Let_def simp flip: a split: option.split)
  qed
qed (use that(1) in \<open>simp add: register_def\<close>)

section \<open>Connections\<close>

text \<open>The open sessions with the identity each one has settled on, and the controller's state.
  A fresh session has a handle no open session has; a step of the work leaves the sessions
  alone. The generation counter is taken to stay below its width: \<open>2 ^ 64\<close> registrations.\<close>

type_synonym connections = "(session_handle, (string \<times> nat) option) hmap"

inductive conn_step :: "app_state \<times> connections \<Rightarrow> app_state \<times> connections \<Rightarrow> bool" where
  accept: "hm_get conns s = None \<Longrightarrow> conn_step (st, conns) (st, hm_insert s None conns)"
| serve: "hm_get conns s = Some ident \<Longrightarrow> wr_generation (as_workers st) + 1 < 2 ^ 64
    \<Longrightarrow> serve_stream s ident req now ids st = (resp, ident', st')
    \<Longrightarrow> conn_step (st, conns) (st', hm_insert s ident' conns)"
| session_closed: "hm_get conns s = Some ident \<Longrightarrow> conn_step (st, conns) (session_end ident st, hm_remove s conns)"
| working: "work_step st st' \<Longrightarrow> conn_step (st, conns) (st', conns)"

text \<open>Every registered agent has a session, which is open and settled on that agent with that
  generation; generations are handed out once; a session that was superseded has been closed.\<close>

definition conn_ok :: "app_state \<times> connections \<Rightarrow> bool" where
  "conn_ok = (\<lambda>(st, conns).
     (\<forall>a x. sessions (as_workers st) a = Some x \<longrightarrow> (\<exists>g s. x = Some (g, s) \<and> hm_get conns s = Some (Some (a, g))))
     \<and> (\<forall>s a g. hm_get conns s = Some (Some (a, g)) \<longrightarrow> g \<le> wr_generation (as_workers st)
          \<and> (sessions (as_workers st) a = Some (Some (g, s)) \<or> s \<in> set (as_closed st)))
     \<and> (\<forall>s s' a a' g. hm_get conns s = Some (Some (a, g)) \<and> hm_get conns s' = Some (Some (a', g)) \<longrightarrow> s = s'))"

lemma conn_okD:
  assumes "conn_ok (st, conns)"
  shows "sessions (as_workers st) a = Some x \<Longrightarrow> \<exists>g s. x = Some (g, s) \<and> hm_get conns s = Some (Some (a, g))"
    and "hm_get conns s = Some (Some (a, g)) \<Longrightarrow> g \<le> wr_generation (as_workers st)"
    and "hm_get conns s = Some (Some (a, g)) \<Longrightarrow> sessions (as_workers st) a = Some (Some (g, s)) \<or> s \<in> set (as_closed st)"
    and "hm_get conns s = Some (Some (a, g)) \<Longrightarrow> hm_get conns s' = Some (Some (a', g)) \<Longrightarrow> s' = s"
  using assms unfolding conn_ok_def by blast+

lemma conn_ok_new: "conn_ok (app_state_new cfg, [])"
  by (simp add: conn_ok_def app_state_new_def sessions_def wr_get_def registry_new_def)

lemma conn_ok_same:
  assumes "conn_ok (st, conns)"
    and "\<And>t i. hm_get conns' t = Some (Some i) \<longleftrightarrow> hm_get conns t = Some (Some i)"
    and "sessions (as_workers st') = sessions (as_workers st)"
    and "wr_generation (as_workers st') = wr_generation (as_workers st)" "as_closed st' = as_closed st"
  shows "conn_ok (st', conns')"
  using assms(1) by (simp only: conn_ok_def prod.case assms(2-5))

lemma conn_okI:
  assumes "\<And>a x. sessions (as_workers st) a = Some x \<Longrightarrow> \<exists>g s. x = Some (g, s) \<and> hm_get conns s = Some (Some (a, g))"
    and "\<And>s a g. hm_get conns s = Some (Some (a, g)) \<Longrightarrow> g \<le> wr_generation (as_workers st)"
    and "\<And>s a g. hm_get conns s = Some (Some (a, g))
      \<Longrightarrow> sessions (as_workers st) a = Some (Some (g, s)) \<or> s \<in> set (as_closed st)"
    and "\<And>s a g s' a'. hm_get conns s = Some (Some (a, g)) \<Longrightarrow> hm_get conns s' = Some (Some (a', g)) \<Longrightarrow> s = s'"
  shows "conn_ok (st, conns)"
  unfolding conn_ok_def prod.case using assms by blast

text \<open>What a successful registration leaves: the session kept, or replaced by this one.\<close>

lemma register_outcome:
  assumes "register s ident req now ids st = ((resp, Some (a, g)), st')"
    and "wr_generation (as_workers st) + 1 < 2 ^ 64"
  defines "c \<equiv> Option.bind (sessions (as_workers st) a) id"
  shows "a = rq_agent req \<and> (\<forall>i. ident = Some i \<longrightarrow> fst i = a)
    \<and> (if ident \<noteq> None \<and> map_option snd ident = map_option fst c
       then Some g = map_option snd ident \<and> sessions (as_workers st') = (sessions (as_workers st))(a := Some c)
         \<and> wr_generation (as_workers st') = wr_generation (as_workers st) \<and> as_closed st' = as_closed st
       else g = wr_generation (as_workers st) + 1
         \<and> sessions (as_workers st') = (sessions (as_workers st))(a := Some (Some (g, s)))
         \<and> wr_generation (as_workers st') = g
         \<and> set (as_closed st') = snd ` set_option c \<union> set (as_closed st))"
    (is "_ \<and> _ \<and> (if _ then ?same g else ?fresh g)")
proof (cases rule: register_cases [of req s ident now ids st])
  case (ok st1 g' st2)
  have a: "a = rq_agent req" "g' = g"
    and st': "st' = fold (reseed_link ids a) (links_of (as_workers st2) a) st2"
    using assms(1) ok(5) by auto
  have s1: "sessions (as_workers st1) = (sessions (as_workers st))(a := Some c)"
    "wr_generation (as_workers st1) = wr_generation (as_workers st)" "as_closed st1 = as_closed st"
    by (auto simp: ok(3) a(1) c_def sessions_register_links fun_eq_iff)
  have g: "g = fst (attach_session a s (map_option snd ident) st1)"
    and st2: "st2 = snd (attach_session a s (map_option snd ident) st1)"
    using arg_cong [OF ok(4), of fst] arg_cong [OF ok(4), of snd] a by simp_all
  have w: "wk_session (wr_worker (as_workers st1) a) = c" by (simp add: wk_session_worker s1)
  have n: "next_generation (as_workers st1) = wr_generation (as_workers st) + 1"
    using assms(2) by (simp add: next_generation_small s1)
  have i: "fst j = a" if "ident = Some j" for j using ok(2) that a(1) by simp
  have "if ident \<noteq> None \<and> map_option snd ident = map_option fst c then ?same g else ?fresh g"
    by (cases c; cases ident) (auto simp: g st' st2 s1 w n attach_result attach_generation sessions_attach
        closed_attach_session fun_eq_iff)
  with i a(1) show ?thesis by simp
qed (use assms(1) in auto)

lemma conn_ok_serve:
  assumes ok: "conn_ok (st, conns)" and s: "hm_get conns s = Some ident"
    and small: "wr_generation (as_workers st) + 1 < 2 ^ 64"
    and srv: "serve_stream s ident req now ids st = (resp, ident', st')"
  shows "conn_ok (st', hm_insert s ident' conns)"
proof (cases "snd (fst (register s ident req now ids st))")
  case None
  then have "st' = st" "ident' = ident"
    using srv by (cases rule: register_cases [of req s ident now ids st]; simp add: serve_stream_def)+
  with s show ?thesis by (intro conn_ok_same [OF ok]) auto
next
  case (Some i)
  obtain a g where i: "i = (a, g)" by (cases i)
  obtain resp' where reg: "register s ident req now ids st = ((resp', Some (a, g)), st')"
    and id': "ident' = Some (a, g)"
    using srv Some i by (auto simp: serve_stream_def split: prod.splits)
  let ?c = "Option.bind (sessions (as_workers st) a) id"
  note out = register_outcome [OF reg small]
  have own: "fst j = a" if "ident = Some j" for j using out that by simp
  have c: "hm_get conns t = Some (Some (a, h))" if "?c = Some (h, t)" for h t
    using that conn_okD(1) [OF ok, of a] by (auto split: option.splits simp: bind_eq_Some_conv)
  show ?thesis
  proof (cases "ident \<noteq> None \<and> map_option snd ident = map_option fst ?c")
    case True
    then have w: "Some g = map_option snd ident" "sessions (as_workers st') = (sessions (as_workers st))(a := Some ?c)"
      "wr_generation (as_workers st') = wr_generation (as_workers st)" "as_closed st' = as_closed st"
      using out by simp_all
    then have i: "ident = Some (a, g)" using own by (cases ident) auto
    with True obtain t where t: "?c = Some (g, t)" by (cases ?c) auto
    then have "sessions (as_workers st) a = Some ?c" by (cases "sessions (as_workers st) a") auto
    then have e: "sessions (as_workers st') = sessions (as_workers st)" unfolding w(2) by (rule fun_upd_idem)
    show ?thesis
      by (rule conn_ok_same [OF ok _ e w(3,4)]) (simp add: id' s [unfolded i])
  next
    case False
    with out have w: "sessions (as_workers st') = (sessions (as_workers st))(a := Some (Some (g, s)))"
      "g = wr_generation (as_workers st) + 1" "wr_generation (as_workers st') = g"
      "set (as_closed st') = snd ` set_option ?c \<union> set (as_closed st)" by simp_all
    have new: "hm_get conns t \<noteq> Some (Some (b, g))" for t b
      using conn_okD(2) [OF ok, of t b g] w(2) by auto
    have "\<exists>h t. x = Some (h, t) \<and> hm_get (hm_insert s ident' conns) t = Some (Some (b, h))"
      if "sessions (as_workers st') b = Some x" for b x
    proof (cases "b = a")
      case False
      with that obtain h t where t: "x = Some (h, t)" "hm_get conns t = Some (Some (b, h))"
        using conn_okD(1) [OF ok, of b x] by (auto simp: w(1))
      with s own False have "t \<noteq> s" by (cases ident) auto
      with t show ?thesis by simp
    qed (use that in \<open>auto simp: w(1) id'\<close>)
    moreover have "h \<le> wr_generation (as_workers st')
        \<and> (sessions (as_workers st') b = Some (Some (h, t)) \<or> t \<in> set (as_closed st'))"
      if "hm_get (hm_insert s ident' conns) t = Some (Some (b, h))" for t b h
      using that conn_okD(2,3) [OF ok, of t b h] by (auto simp: w id' image_iff split: if_splits)
    moreover have "t = u" if "hm_get (hm_insert s ident' conns) t = Some (Some (b, h))"
      "hm_get (hm_insert s ident' conns) u = Some (Some (b', h))" for t u b b' h
      using that conn_okD(4) [OF ok, of t b h u b'] new by (auto simp: id' split: if_splits)
    ultimately show ?thesis by (intro conn_okI) blast+
  qed
qed

lemma conn_ok_close:
  assumes ok: "conn_ok (st, conns)" and s: "hm_get conns s = Some ident"
  shows "conn_ok (session_end ident st, hm_remove s conns)"
    and "sessions (as_workers (session_end ident st)) b
      = (if session_of (as_workers st) b = Some s then None else sessions (as_workers st) b)"
proof -
  have cur: "session_of (as_workers st) b = Some s \<longleftrightarrow> (\<exists>g. sessions (as_workers st) b = Some (Some (g, s)))" for b
    by (auto simp: session_of_sessions bind_eq_Some_conv)
  have d: "sessions (as_workers (session_end ident st)) b
      = (if session_of (as_workers st) b = Some s then None else sessions (as_workers st) b)" for b
  proof (cases ident)
    case None
    with s conn_okD(1) [OF ok, of b] show ?thesis by (auto simp: session_end_def cur)
  next
    case (Some i)
    obtain a g where i: "i = (a, g)" by (cases i)
    have s': "hm_get conns s = Some (Some (a, g))" using s Some i by simp
    have m: "map_option fst (Option.bind (sessions (as_workers st) a) id) = Some g
        \<longleftrightarrow> session_of (as_workers st) a = Some s"
    proof (cases "sessions (as_workers st) a")
      case (Some x)
      then obtain g' t where "x = Some (g', t)" "hm_get conns t = Some (Some (a, g'))"
        using conn_okD(1) [OF ok] by blast
      moreover from this have "g' = g \<longleftrightarrow> t = s" using conn_okD(4) [OF ok s', of t a] s' by auto
      ultimately show ?thesis using Some by (simp add: session_of_sessions)
    qed (simp add: session_of_sessions)
    have only: "b = a" if "session_of (as_workers st) b = Some s"
    proof -
      from that obtain g' where "sessions (as_workers st) b = Some (Some (g', s))" unfolding cur ..
      then have "hm_get conns s = Some (Some (b, g'))" using conn_okD(1) [OF ok, of b] by auto
      with s' show ?thesis by simp
    qed
    have e: "sessions (as_workers (session_end ident st)) = sessions (snd (detach a g (as_workers st)))"
      by (simp add: session_end_def Some i)
    show ?thesis
    proof (cases "b = a")
      case False
      with only have "session_of (as_workers st) b \<noteq> Some s" by blast
      with False show ?thesis by (simp add: e sessions_detach)
    qed (simp add: e sessions_detach m del: map_option_eq_Some)
  qed
  then show "sessions (as_workers (session_end ident st)) b
      = (if session_of (as_workers st) b = Some s then None else sessions (as_workers st) b)" .
  have g: "wr_generation (as_workers (session_end ident st)) = wr_generation (as_workers st)"
    by (simp add: session_end_def split: option.split)
  have old: "t \<noteq> s" "hm_get conns t = Some (Some i)" if "hm_get (hm_remove s conns) t = Some (Some i)" for t i
    using that by (simp_all split: if_splits)
  show "conn_ok (session_end ident st, hm_remove s conns)"
  proof (rule conn_okI)
    fix b x assume "sessions (as_workers (session_end ident st)) b = Some x"
    then have o: "sessions (as_workers st) b = Some x" "session_of (as_workers st) b \<noteq> Some s"
      unfolding d by (simp_all split: if_splits)
    then obtain h t where t: "x = Some (h, t)" "hm_get conns t = Some (Some (b, h))"
      using conn_okD(1) [OF ok] by blast
    with o have "t \<noteq> s" unfolding cur by simp
    with t show "\<exists>h t. x = Some (h, t) \<and> hm_get (hm_remove s conns) t = Some (Some (b, h))" by simp
  next
    fix t b h assume t: "hm_get (hm_remove s conns) t = Some (Some (b, h))"
    show "h \<le> wr_generation (as_workers (session_end ident st))"
      unfolding g by (rule conn_okD(2) [OF ok old(2) [OF t]])
    show "sessions (as_workers (session_end ident st)) b = Some (Some (h, t)) \<or> t \<in> set (as_closed (session_end ident st))"
      using conn_okD(3) [OF ok old(2) [OF t]] old(1) [OF t] unfolding d cur by auto
  next
    fix t b h u c
    assume "hm_get (hm_remove s conns) t = Some (Some (b, h))" "hm_get (hm_remove s conns) u = Some (Some (c, h))"
    then show "t = u" by (intro conn_okD(4) [OF ok, symmetric] old(2))
  qed
qed

lemma conn_ok_step:
  assumes "conn_step cn cn'" "conn_ok cn" shows "conn_ok cn'"
  using assms
proof (cases rule: conn_step.cases)
  case (accept conns s st)
  with assms(2) have "conn_ok (st, conns)" by simp
  then show ?thesis unfolding accept(2) by (rule conn_ok_same) (use accept(3) in simp_all)
next
  case (serve conns s ident st req now ids resp ident' st')
  with assms(2) show ?thesis by (simp add: conn_ok_serve)
next
  case (session_closed conns s ident st)
  with assms(2) show ?thesis by (simp add: conn_ok_close)
next
  case (working st st' conns)
  with assms(2) have "conn_ok (st, conns)" by simp
  then show ?thesis
    unfolding working(2) by (rule conn_ok_same) (simp_all add: work_step_keeps [OF working(3)])
qed

lemma conn_ok_run: "conn_step\<^sup>*\<^sup>* (app_state_new cfg, []) cn \<Longrightarrow> conn_ok cn"
  by (erule run_invariant) (auto intro: conn_ok_new conn_ok_step)

section \<open>Slots across registrations and disconnects\<close>

lemma work_run_reseed: "work_step\<^sup>*\<^sup>* st (reseed_link ids agent link st)"
proof (cases "Option.bind (kv_get (as_kv st) link) qr_ospf_cost")
  case (Some cost)
  let ?d = "dispatch agent (ApplyCost (ids link) link cost None) st"
  have "work_step st (snd ?d)" by (rule dispatching)
  moreover have "work_step (snd ?d) ((snd ?d)\<lparr>as_workers := set_applied_sent agent link cost (as_workers (snd ?d))\<rparr>)"
    by (rule elsewhere) (simp_all add: registry_alike_def)
  ultimately show ?thesis
    by (auto simp: reseed_link_def Some split_beta Let_def intro: rtranclp.rtrancl_into_rtrancl)
qed (simp add: reseed_link_def)

lemma work_run_reseed_fold: "work_step\<^sup>*\<^sup>* st (fold (reseed_link ids agent) ls st)"
  by (induction ls arbitrary: st) (auto intro: rtranclp_trans work_run_reseed)

definition slots_covered :: "app_state \<Rightarrow> bool" where
  "slots_covered st \<longleftrightarrow> busy_slots (as_workers st) \<subseteq> set (running_slots st)"

lemma slots_covered_locale: "slots_covered st \<longleftrightarrow> in_flight.covered (as_workers st, running st)"
  by (simp add: slots_covered_def running_slots_def in_flight.covered_def)

lemma slots_covered_work: "slots_covered st \<Longrightarrow> work_step\<^sup>*\<^sup>* st st' \<Longrightarrow> slots_covered st'"
  unfolding slots_covered_locale by (blast intro: in_flight.covered_run work_run_slots)

lemma slots_covered_shrink:
  assumes "slots_covered st" "busy_slots (as_workers st') \<subseteq> busy_slots (as_workers st)" "as_tasks st' = as_tasks st"
  shows "slots_covered st'"
  using in_flight.covered_shrink [of "as_workers st" "running st" "as_workers st'"] assms
  unfolding slots_covered_locale by (simp add: running_same [OF assms(3)])

lemma slots_covered_register:
  assumes "slots_covered st" shows "slots_covered (snd (register s ident req now ids st))"
proof (cases rule: register_cases [of req s ident now ids st])
  case (ok st1 g st2)
  have st2: "st2 = snd (attach_session (rq_agent req) s (map_option snd ident) st1)"
    using arg_cong [OF ok(4), of snd] by simp
  have "slots_covered st1"
    by (rule slots_covered_shrink [OF assms]) (simp_all add: ok(3) sessions_register_links)
  then have "slots_covered st2"
    by (rule slots_covered_shrink) (simp_all add: st2 busy_slots_shrink)
  then show ?thesis unfolding ok(5) snd_conv by (rule slots_covered_work [OF _ work_run_reseed_fold])
qed (use assms in simp_all)

lemma slots_covered_step:
  assumes "conn_step cn cn'" "slots_covered (fst cn)" shows "slots_covered (fst cn')"
  using assms
proof (cases rule: conn_step.cases)
  case (serve conns s ident st req now ids resp ident' st')
  with assms(2) slots_covered_register [of st s ident req now ids] show ?thesis
    by (simp add: serve_stream_def split: prod.splits)
next
  case (session_closed conns s ident st)
  have "busy_slots (as_workers (session_end ident st)) \<subseteq> busy_slots (as_workers st)"
    using busy_slots_shrink(3) by (auto simp: session_end_def split: option.splits)
  with session_closed assms(2) slots_covered_shrink [of st "session_end ident st"] show ?thesis by simp
qed (use assms(2) in \<open>auto intro: slots_covered_work\<close>)

lemma slots_covered_new: "slots_covered (app_state_new cfg)"
  by (auto simp: slots_covered_def app_state_new_def registry_new_def busy_slots_def wr_get_def)

lemma slots_covered_run: "conn_step\<^sup>*\<^sup>* (app_state_new cfg, []) cn \<Longrightarrow> slots_covered (fst cn)"
  by (erule run_invariant [where P = "\<lambda>cn. slots_covered (fst cn)"])
    (simp_all add: slots_covered_new slots_covered_step)

end
