(* ===== verification/SessionLaws.thy ===== *)
theory SessionLaws
  imports Session
begin

text \<open>
  What holds of agent sessions: who is registered and who is connected, how many commands are
  outstanding, what a registration refuses and what it sends, what ending a task settles; and
  two interleavings the code does not exclude.
\<close>

section \<open>Costs sent again after a registration\<close>

lemma applied_sent_get: "applied_sent r a l = Option.bind (wr_get r a) (\<lambda>w. hm_get (wk_applied_sent w) (link_id l))"
  by (simp add: applied_sent_def wr_get_def)

text \<open>The command carrying a cost runs on the session and the cost counts as sent.\<close>

definition cost_sent :: "(link_key \<Rightarrow> string) \<Rightarrow> string \<Rightarrow> session_handle \<Rightarrow> link_key \<Rightarrow> nat \<Rightarrow> app_state \<Rightarrow> bool" where
  "cost_sent ids agent s l c st \<longleftrightarrow>
     \<lparr>tk_agent = agent, tk_session = s, tk_cmd = ApplyCost (ids l) l c None\<rparr> \<in> set (as_tasks st)
     \<and> applied_sent (as_workers st) agent l = Some c"

abbreviation known_cost :: "app_state \<Rightarrow> link_key \<Rightarrow> nat option" where
  "known_cost st l \<equiv> Option.bind (kv_get (as_kv st) l) qr_ospf_cost"

lemma session_of_wr_get: "session_of r a = Some s \<longleftrightarrow> (\<exists>w g. wr_get r a = Some w \<and> wk_session w = Some (g, s))"
  by (auto simp: session_of_def bind_eq_Some_conv simp flip: wr_get_def)

lemma reseed_link_sends:
  assumes "session_of (as_workers st) agent = Some s" "known_cost st l = Some c"
  defines "r \<equiv> snd (claim_slot (agent, l, KApply) (as_workers st))"
  shows "reseed_link ids agent l st =
    (if (agent, link_id l, KApply) \<in> busy_slots (as_workers st) then st\<lparr>as_workers := r\<rparr>
     else st\<lparr>as_tasks := \<lparr>tk_agent = agent, tk_session = s, tk_cmd = ApplyCost (ids l) l c None\<rparr> # as_tasks st,
             as_workers := set_applied_sent agent l c r\<rparr>)"
proof -
  let ?cmd = "ApplyCost (ids l) l c None"
  have "has_agent (as_workers st) agent"
    using assms(1) by (auto simp: session_of_wr_get has_agent_def hm_has_def wr_get_def)
  then have "fst (claim_slot (agent, l, KApply) (as_workers st))
      \<longleftrightarrow> (agent, link_id l, KApply) \<notin> busy_slots (as_workers st)"
    by (simp add: in_flight.claim_result slot_key_def)
  then show ?thesis
    using assms(1,2) by (cases rule: dispatch_cases [of st agent ?cmd])
      (simp_all add: reseed_link_def start_task_def r_def)
qed

lemma claim_apply:
  assumes "session_of r agent = Some s"
  shows "busy_slots (snd (claim_slot (agent, l, KApply) r)) = insert (agent, link_id l, KApply) (busy_slots r)"
    and "applied_sent (snd (claim_slot (agent, l, KApply) r)) agent x = applied_sent r agent x"
    and "wr_get (snd (claim_slot (agent, l, KApply) r)) agent \<noteq> None"
proof -
  obtain w where w: "wr_get r agent = Some w" using assms by (auto simp: session_of_wr_get)
  then have "has_agent r agent" by (simp add: has_agent_def hm_has_def wr_get_def)
  then show "busy_slots (snd (claim_slot (agent, l, KApply) r)) = insert (agent, link_id l, KApply) (busy_slots r)"
    by (simp add: in_flight.claim_busy slot_key_def)
  show "applied_sent (snd (claim_slot (agent, l, KApply) r)) agent x = applied_sent r agent x"
    and "wr_get (snd (claim_slot (agent, l, KApply) r)) agent \<noteq> None"
    by (simp_all add: applied_sent_get claim_slot_def wr_get_begin w)
qed

lemma applied_set_applied:
  "wr_get r agent \<noteq> None \<Longrightarrow> applied_sent (set_applied_sent agent l c r) agent x
     = (if link_id x = link_id l then Some c else applied_sent r agent x)"
  by (auto simp: applied_sent_get set_applied_sent_def)

lemma reseed_link_effect:
  fixes ids :: "link_key \<Rightarrow> string"
  assumes "session_of (as_workers st) agent = Some s" "known_cost st l = Some c"
  defines "st' \<equiv> reseed_link ids agent l st"
  shows "(agent, link_id l, KApply) \<notin> busy_slots (as_workers st) \<Longrightarrow> cost_sent ids agent s l c st'"
    and "cost_sent ids agent s l c st \<Longrightarrow> cost_sent ids agent s l c st'"
    and "link_id l' \<noteq> link_id l \<Longrightarrow> cost_sent ids agent s l' c' st \<Longrightarrow> cost_sent ids agent s l' c' st'"
    and "busy_slots (as_workers st') = insert (agent, link_id l, KApply) (busy_slots (as_workers st))"
  unfolding st'_def reseed_link_sends [OF assms(1,2)]
  by (simp_all add: cost_sent_def claim_apply [OF assms(1)] applied_set_applied)

lemma kv_reseed_link [simp]: "as_kv (reseed_link ids agent l st) = as_kv st"
  by (auto simp: reseed_link_def dispatch_def start_task_def Let_def split: option.splits prod.splits)

lemma reseed_fold_sent:
  assumes "session_of (as_workers st) agent = Some s" "inj_on link_id (done \<union> set ls)"
    and "\<forall>l \<in> done. \<forall>c. known_cost st l = Some c \<longrightarrow> cost_sent ids agent s l c st"
    and "\<forall>l \<in> set ls - done. (agent, link_id l, KApply) \<notin> busy_slots (as_workers st)"
  shows "\<forall>l \<in> done \<union> set ls. \<forall>c. known_cost st l = Some c
    \<longrightarrow> cost_sent ids agent s l c (fold (reseed_link ids agent) ls st)"
  using assms
proof (induction ls arbitrary: st "done")
  case (Cons l ls)
  let ?st = "reseed_link ids agent l st"
  have s: "session_of (as_workers ?st) agent = Some s"
    using Cons.prems(1) by (simp add: session_of_sessions)
  show ?case
  proof (cases "known_cost st l")
    case None
    then have "?st = st" by (simp add: reseed_link_def)
    with Cons.IH [of st "insert l done"] Cons.prems None show ?thesis by (auto simp: insert_commute)
  next
    case (Some c)
    note eff = reseed_link_effect [OF Cons.prems(1) Some, where ids = ids]
    have diff: "link_id x \<noteq> link_id l" if "x \<in> done \<union> set ls" "x \<noteq> l" for x
      using that inj_onD [OF Cons.prems(2), of x l] by auto
    have here: "cost_sent ids agent s l c ?st"
      using eff(1,2) Cons.prems(3,4) Some by (cases "l \<in> done") auto
    have d: "\<forall>x \<in> insert l done. \<forall>c. known_cost ?st x = Some c \<longrightarrow> cost_sent ids agent s x c ?st"
      using here Some Cons.prems(3) eff(3) diff by (metis UnI1 insertE kv_reseed_link option.inject)
    have f: "\<forall>x \<in> set ls - insert l done. (agent, link_id x, KApply) \<notin> busy_slots (as_workers ?st)"
      using Cons.prems(4) diff by (auto simp: eff(4))
    have "inj_on link_id (insert l done \<union> set ls)" using Cons.prems(2) by (simp add: Un_commute)
    from Cons.IH [OF s this d f] show ?thesis by simp
  qed
qed simp

lemma links_reseed_link [simp]: "links_of (as_workers (reseed_link ids agent l st)) a = links_of (as_workers st) a"
  by (auto simp: reseed_link_def dispatch_def start_task_def links_of_def begin_cmd_def set_applied_sent_def
      wr_set_def wr_modify_def Let_def split: option.splits prod.splits)

lemma reseed_fold_frame [simp]:
  "as_kv (fold (reseed_link ids agent) ls st) = as_kv st"
  "links_of (as_workers (fold (reseed_link ids agent) ls st)) a = links_of (as_workers st) a"
  by (induction ls arbitrary: st) simp_all

lemma fresh_attach_no_slots: "(agent, i, k) \<notin> busy_slots (snd (attach agent s None r))"
  by (simp add: in_busy_slots wr_get_attach Let_def)

section \<open>Properties\<close>


text \<open>C8: no slot leaks: over any interleaving of connects, registrations, disconnects, dispatches
  and finished tasks, a command to a connected agent is refused only while a task that will
  free its slot is still running.\<close>

theorem slots_never_leak:
  assumes "conn_step\<^sup>*\<^sup>* (app_state_new cfg, []) (st, conns)" "session_of (as_workers st) agent = Some s"
    and "opt_all (\<lambda>(l, k). (agent, link_id l, k) \<notin> set (running_slots st)) (track_key cmd)"
  shows "fst (dispatch agent cmd st)"
proof -
  have b: "busy_slots (as_workers st) \<subseteq> set (running_slots st)"
    using slots_covered_run [OF assms(1)] by (simp add: slots_covered_def)
  have "has_agent (as_workers st) agent"
    using assms(2) by (auto simp: session_of_wr_get has_agent_def hm_has_def wr_get_def)
  with b assms(2,3) show ?thesis
    by (cases rule: dispatch_cases [of st agent cmd]) (auto simp: in_flight.claim_result slot_key_def)
qed

text \<open>C9: registration follows connection: over any interleaving an agent is registered exactly
  while the session the registry holds for it is open and has settled on that agent, and when a
  session ends exactly the agents whose current session it was are forgotten.\<close>

theorem agents_have_open_sessions:
  assumes "conn_step\<^sup>*\<^sup>* (app_state_new cfg, []) (st, conns)" "hm_get conns s = Some ident"
  shows "(has_agent (as_workers st) a \<longleftrightarrow>
      opt_any (\<lambda>t. opt_any (opt_any (\<lambda>i. fst i = a)) (hm_get conns t)) (session_of (as_workers st) a))
    \<and> (has_agent (as_workers (session_end ident st)) a
        \<longleftrightarrow> has_agent (as_workers st) a \<and> session_of (as_workers st) a \<noteq> Some s)"
proof -
  have ok: "conn_ok (st, conns)" using assms(1) by (rule conn_ok_run)
  show ?thesis
  proof (cases "sessions (as_workers st) a")
    case None
    then show ?thesis
      unfolding has_agent_sessions conn_ok_close(2) [OF ok assms(2)] by (simp add: session_of_sessions)
  next
    case (Some x)
    with conn_okD(1) [OF ok Some] show ?thesis
      unfolding has_agent_sessions conn_ok_close(2) [OF ok assms(2)] by (auto simp: session_of_sessions)
  qed
qed

text \<open>C10: a second session of an agent supersedes the first: of two open sessions registered
  under one name, at least one has been told to close.\<close>

theorem superseded_sessions_closed:
  assumes "conn_step\<^sup>*\<^sup>* (app_state_new cfg, []) (st, conns)" "s \<noteq> t"
    and "hm_get conns s = Some (Some (a, g))" "hm_get conns t = Some (Some (a, h))"
  shows "s \<in> set (as_closed st) \<or> t \<in> set (as_closed st)"
  using conn_okD(3) [OF conn_ok_run [OF assms(1)] assms(3)]
    conn_okD(3) [OF conn_ok_run [OF assms(1)] assms(4)] assms(2) by auto

text \<open>A registration is refused exactly for an empty name or a name other than the session's,
  with an error and no effect at all; otherwise it answers ok and yields the identity the
  session settles on.\<close>

theorem register_refuses:
  "let ((resp, out), st') = register s ident req now ids st
   in if rq_agent req \<noteq> [] \<and> opt_all (\<lambda>i. fst i = rq_agent req) ident
      then resp = \<lparr>rs_ok = True, rs_error = None\<rparr> \<and> map_option fst out = Some (rq_agent req)
        \<and> has_agent (as_workers st') (rq_agent req)
      else \<not> rs_ok resp \<and> rs_error resp \<noteq> None \<and> out = None \<and> st' = st"
proof (cases rule: register_cases [of req s ident now ids st])
  case (ok st1 g st2)
  have "st2 = snd (attach_session (rq_agent req) s (map_option snd ident) st1)"
    using arg_cong [OF ok(4), of snd] by simp
  then have "has_agent (as_workers (fold (reseed_link ids (rq_agent req)) ls st2)) (rq_agent req)" for ls
    unfolding has_agent_sessions by (simp add: sessions_attach)
  with ok show ?thesis by (auto simp: opt_all_def split: option.splits)
qed (auto simp: opt_all_def)

text \<open>A new session is told every cost the controller knows: after a first registration the
  session is the agent's, and for every link of the agent with a known cost an apply command
  with that cost runs on it and the cost counts as sent.\<close>

theorem register_reseeds_costs:
  assumes "register s None req now ids st = ((resp, Some (agent, g)), st')"
    and "wr_generation (as_workers st) + 1 < 2 ^ 64"
    and "inj_on link_id (set (links_of (as_workers st') agent))"
  shows "session_of (as_workers st') agent = Some s
    \<and> (\<forall>l \<in> set (links_of (as_workers st') agent). \<forall>c. known_cost st' l = Some c
         \<longrightarrow> cost_sent ids agent s l c st')"
proof (cases rule: register_cases [of req s None now ids st])
  case (ok st1 g' st2)
  let ?ls = "links_of (as_workers st2) agent"
  have a: "rq_agent req = agent" and st': "st' = fold (reseed_link ids agent) ?ls st2"
    using assms(1) ok(5) by auto
  have st2: "st2 = snd (attach_session agent s None st1)"
    using arg_cong [OF ok(4), of snd] a by simp
  have s: "session_of (as_workers st2) agent = Some s"
    by (simp add: st2 session_of_sessions sessions_attach)
  have "session_of (as_workers st') agent = Some s"
    using s by (simp add: st' session_of_sessions)
  moreover have "\<forall>l \<in> {} \<union> set ?ls. \<forall>c. known_cost st2 l = Some c
      \<longrightarrow> cost_sent ids agent s l c (fold (reseed_link ids agent) ?ls st2)"
  proof (rule reseed_fold_sent [OF s])
    show "inj_on link_id ({} \<union> set ?ls)" using assms(3) by (simp add: st')
    show "\<forall>l \<in> set ?ls - {}. (agent, link_id l, KApply) \<notin> busy_slots (as_workers st2)"
      by (simp add: st2 fresh_attach_no_slots)
  qed simp
  ultimately show ?thesis by (simp add: st')
qed (use assms(1) in simp_all)

section \<open>Interleavings the code does not exclude\<close>

text \<open>The two halves of a registration are not atomic: when the agent's previous session
  ends between the registry update and the attach, the attach makes a fresh empty entry, so the
  agent is connected and registered with none of the links it has just reported.\<close>

theorem detach_during_registration_loses_links:
  assumes "sessions (as_workers st) (rq_agent req) = Some (Some (g, old))"
  shows "(let st1 = register_links req now st; st2 = session_end (Some (rq_agent req, g)) st1;
              st3 = snd (attach_session (rq_agent req) s None st2)
          in session_of (as_workers st3) (rq_agent req) = Some s \<and> links_of (as_workers st3) (rq_agent req) = [])"
proof -
  let ?a = "rq_agent req"
  let ?st2 = "session_end (Some (?a, g)) (register_links req now st)"
  have "sessions (as_workers ?st2) ?a = None"
    using assms by (simp add: session_end_def sessions_detach sessions_register_links)
  then have "wr_get (as_workers ?st2) ?a = None" by (simp add: sessions_def)
  then have "wr_get (snd (attach ?a s None (as_workers ?st2))) ?a
      = Some (worker_default\<lparr>wk_session := Some (next_generation (as_workers ?st2), s), wk_in_flight := {}\<rparr>)"
    by (simp add: wr_get_attach wr_worker_get Let_def)
  then show ?thesis
    by (simp add: Let_def session_of_wr_get links_of_def worker_default_def flip: wr_get_def)
qed

definition req_a :: register_req where
  "req_a = \<lparr>rq_agent = ''hub-a'', rq_router_id = None, rq_links = [new_link ''hub-a'' ''hub-b'' ''awg0''],
     rq_peer_rids = [], rq_loopback = None\<rparr>"

definition always_cmd :: work_cmd where
  "always_cmd = Probe ''c1'' Always None (new_link ''hub-a'' ''hub-b'' ''awg0'') None"

text \<open>The agent connects on session 1 and gets a probe; it reconnects on session 2, which clears
  the slots, and gets the next probe; then the first task fails with its session.\<close>

definition connected :: app_state where
  "connected = snd (register 1 None req_a 100 (\<lambda>_. ''c0'') (app_state_new config_default))"

definition reconnected :: app_state where
  "reconnected = snd (register 2 None req_a 105 (\<lambda>_. ''c0'') (snd (dispatch ''hub-a'' always_cmd connected)))"

definition stale_ended :: app_state where
  "stale_ended = finish_task \<lparr>tk_agent = ''hub-a'', tk_session = 1, tk_cmd = always_cmd\<rparr> (Inl ''closed'') 106
     (snd (dispatch ''hub-a'' always_cmd reconnected))"

text \<open>A task of a superseded session frees the slot its successor has claimed: with one
  probe still running on the new session a second probe of the same link and kind is
  dispatched on it.\<close>

theorem stale_task_frees_slot:
  "fst (dispatch ''hub-a'' always_cmd connected) \<and> fst (dispatch ''hub-a'' always_cmd reconnected)
   \<and> \<not> fst (dispatch ''hub-a'' always_cmd (snd (dispatch ''hub-a'' always_cmd reconnected)))
   \<and> fst (dispatch ''hub-a'' always_cmd stale_ended)
   \<and> as_tasks (snd (dispatch ''hub-a'' always_cmd stale_ended))
     = [\<lparr>tk_agent = ''hub-a'', tk_session = 2, tk_cmd = always_cmd\<rparr>,
        \<lparr>tk_agent = ''hub-a'', tk_session = 2, tk_cmd = always_cmd\<rparr>]"
  by (intro conjI; code_simp)

section \<open>Witnesses\<close>

definition new_state :: app_state where
  "new_state = app_state_new config_default"

lemma connected_outcome:
  "fst (register 1 None req_a 100 (\<lambda>_. ''c0'') new_state) = (\<lparr>rs_ok = True, rs_error = None\<rparr>, Some (''hub-a'', 1))"
  by code_simp

lemma run_connected: "conn_step\<^sup>*\<^sup>* (app_state_new config_default, []) (connected, [(1, Some (''hub-a'', 1))])"
proof -
  have srv: "serve_stream 1 None req_a 100 (\<lambda>_. ''c0'') new_state
      = (\<lparr>rs_ok = True, rs_error = None\<rparr>, Some (''hub-a'', 1), connected)"
    unfolding serve_stream_def split_beta connected_outcome connected_def new_state_def [symmetric] Let_def by simp
  have "conn_step (new_state, []) (new_state, [(1, None)])"
    using accept [of "[]" 1 new_state] by (simp add: hm_insert_def)
  moreover have "wr_generation (as_workers new_state) + 1 < 2 ^ 64" by code_simp
  with srv have "conn_step (new_state, [(1, None)]) (connected, [(1, Some (''hub-a'', 1))])"
    using serve [of "[(1, None)]" 1 None new_state req_a 100] by (simp add: hm_insert_def)
  ultimately show ?thesis unfolding new_state_def by (rule converse_rtranclp_into_rtranclp [OF _ r_into_rtranclp])
qed

definition probed :: app_state where
  "probed = snd (dispatch ''hub-a'' always_cmd connected)"


theorem slots_never_leak_witness: "fst (dispatch ''hub-a'' always_cmd connected)"
  by (rule slots_never_leak [OF run_connected, of _ 1]) code_simp+

theorem agents_have_open_sessions_witness:
  "(has_agent (as_workers connected) ''hub-a'' \<longleftrightarrow>
      opt_any (\<lambda>t. opt_any (opt_any (\<lambda>i. fst i = ''hub-a'')) (hm_get [(1, Some (''hub-a'', 1::nat))] t))
        (session_of (as_workers connected) ''hub-a''))
    \<and> (has_agent (as_workers (session_end (Some (''hub-a'', 1)) connected)) ''hub-a''
        \<longleftrightarrow> has_agent (as_workers connected) ''hub-a'' \<and> session_of (as_workers connected) ''hub-a'' \<noteq> Some 1)"
  by (rule agents_have_open_sessions [OF run_connected]) simp

definition connected_twice :: app_state where
  "connected_twice = snd (register 2 None req_a 105 (\<lambda>_. ''c0'') connected)"

lemma connected_twice_outcome:
  "fst (register 2 None req_a 105 (\<lambda>_. ''c0'') connected) = (\<lparr>rs_ok = True, rs_error = None\<rparr>, Some (''hub-a'', 2))"
  by code_simp

lemma run_connected_twice:
  "conn_step\<^sup>*\<^sup>* (app_state_new config_default, [])
     (connected_twice, hm_insert 2 (Some (''hub-a'', 2)) (hm_insert 2 None [(1, Some (''hub-a'', 1))]))"
proof (rule rtranclp.rtrancl_into_rtrancl [OF rtranclp.rtrancl_into_rtrancl [OF run_connected]])
  show "conn_step (connected, [(1, Some (''hub-a'', 1))]) (connected, hm_insert 2 None [(1, Some (''hub-a'', 1))])"
    by (rule accept) simp
  have "wr_generation (as_workers connected) = 1" by code_simp
  then show "conn_step (connected, hm_insert 2 None [(1, Some (''hub-a'', 1))])
      (connected_twice, hm_insert 2 (Some (''hub-a'', 2)) (hm_insert 2 None [(1, Some (''hub-a'', 1))]))"
    by (intro serve [of _ _ None _ req_a 105 "\<lambda>_. ''c0''" "\<lparr>rs_ok = True, rs_error = None\<rparr>"])
      (simp_all add: serve_stream_def split_beta connected_twice_outcome connected_twice_def)
qed

theorem superseded_sessions_closed_witness:
  "1 \<in> set (as_closed connected_twice) \<or> 2 \<in> set (as_closed connected_twice)"
  by (rule superseded_sessions_closed [OF run_connected_twice, of _ _ "''hub-a''" 1 2]) simp_all

definition cost_state :: app_state where
  "cost_state = new_state\<lparr>as_kv := snd (kv_put (new_link ''hub-a'' ''hub-b'' ''awg0'')
     ((new_quality_record 90 None None None None None (Fin 0) Quiet)\<lparr>qr_ospf_cost := Some 20\<rparr>) lww_new)\<rparr>"

definition seeded :: app_state where
  "seeded = snd (register 1 None req_a 100 (\<lambda>_. ''c0'') cost_state)"

theorem register_reseeds_costs_witness:
  "session_of (as_workers seeded) ''hub-a'' = Some 1
    \<and> cost_sent (\<lambda>_. ''c0'') ''hub-a'' 1 (new_link ''hub-a'' ''hub-b'' ''awg0'') 20 seeded"
proof -
  have ls: "links_of (as_workers seeded) ''hub-a'' = [new_link ''hub-a'' ''hub-b'' ''awg0'']" by code_simp
  have c: "known_cost seeded (new_link ''hub-a'' ''hub-b'' ''awg0'') = Some 20" by code_simp
  have o: "fst (register 1 None req_a 100 (\<lambda>_. ''c0'') cost_state)
      = (\<lparr>rs_ok = True, rs_error = None\<rparr>, Some (''hub-a'', 1))" by code_simp
  have r: "register 1 None req_a 100 (\<lambda>_. ''c0'') cost_state
      = ((\<lparr>rs_ok = True, rs_error = None\<rparr>, Some (''hub-a'', 1)), seeded)"
    unfolding seeded_def o [symmetric] by simp
  have "wr_generation (as_workers cost_state) + 1 < 2 ^ 64" by code_simp
  from register_reseeds_costs [OF r this] show ?thesis by (simp add: ls c)
qed

theorem detach_during_registration_loses_links_witness:
  "(let st1 = register_links req_a 105 connected; st2 = session_end (Some (rq_agent req_a, 1)) st1;
        st3 = snd (attach_session (rq_agent req_a) 2 None st2)
    in session_of (as_workers st3) (rq_agent req_a) = Some 2 \<and> links_of (as_workers st3) (rq_agent req_a) = [])"
  by (rule detach_during_registration_loses_links [of _ _ _ 1]) code_simp

end
