(* ===== verification/Scheduler.thy ===== *)
theory Scheduler
  imports SessionLaws
begin

text \<open>
  The scheduler (\<open>crates/controller/src/scheduler.rs\<close>): one tick decides, per owned link, the
  always probe, the gated throughput test and the cost to apply. One clock reading serves the
  whole tick; the command ids (uuids), trace contexts and lease tokens it draws are arguments,
  functions of the agent, the link and the kind of the command.
\<close>

section \<open>One tick\<close>

definition fence_ttl_secs :: nat where
  "fence_ttl_secs = 120"

record tick_env =
  te_now :: nat
  te_id :: "string \<Rightarrow> link_key \<Rightarrow> kind \<Rightarrow> string"
  te_span :: "string \<Rightarrow> link_key \<Rightarrow> kind \<Rightarrow> string option"
  te_token :: "string \<Rightarrow> link_key \<Rightarrow> string"

definition passive_proof :: "app_state \<Rightarrow> link_key \<Rightarrow> bool" where
  "passive_proof st link =
     (case qc_tcp_mbps (qf_good (cf_quality (as_cfg st))) of
        None \<Rightarrow> False
      | Some good \<Rightarrow>
          (case kv_get (as_kv st) link of
             None \<Rightarrow> False
           | Some rec \<Rightarrow> opt_any (\<lambda>r. f_le good r) (qr_mark_rate_mbps rec)
               \<and> opt_all (\<lambda>v. f_le good v) (qr_implied_tcp_mbps rec)
               \<and> opt_all (\<lambda>t. f_le good t) (qr_tcp_mbps rec)))"

definition stamp :: "string \<Rightarrow> link_key \<Rightarrow> tier \<Rightarrow> nat \<Rightarrow> app_state \<Rightarrow> app_state" where
  "stamp agent link t now st = st\<lparr>as_workers := mark_issued agent link t now (as_workers st)\<rparr>"

definition plan_always :: "tick_env \<Rightarrow> string \<Rightarrow> link_key \<Rightarrow> app_state \<Rightarrow> app_state" where
  "plan_always env agent link st =
     (if probe_due agent link Always (te_now env) (max 1 (sc_always_interval_secs (cf_scheduler (as_cfg st)))) (as_workers st)
      then let cmd = Probe (te_id env agent link KAlways) Always None link (te_span env agent link KAlways);
               (sent, st) = dispatch agent cmd st
           in if sent then stamp agent link Always (te_now env) st else st
      else st)"

text \<open>The test needs the lease; a test that cannot be dispatched gives it back.\<close>

definition start_test :: "tick_env \<Rightarrow> string \<Rightarrow> link_key \<Rightarrow> app_state \<Rightarrow> app_state" where
  "start_test env agent link st =
     (case acquire agent link fence_ttl_secs (te_now env) (te_token env agent link) (as_fence st) of
        (Inl busy, f) \<Rightarrow> st\<lparr>as_fence := f\<rparr>
      | (Inr lease, f) \<Rightarrow>
          let cmd = Probe (te_id env agent link KThroughput) Throughput (Some (le_token lease)) link
                (te_span env agent link KThroughput);
              (sent, st) = dispatch agent cmd (st\<lparr>as_fence := f\<rparr>)
          in if sent then stamp agent link Throughput (te_now env) st
             else st\<lparr>as_fence := snd (release (link_id link) (le_token lease) (as_fence st))\<rparr>)"

text \<open>The boolean is the \<open>continue\<close> of a link whose test is skipped on passive proof.\<close>

definition plan_throughput :: "tick_env \<Rightarrow> string \<Rightarrow> link_key \<Rightarrow> app_state \<Rightarrow> bool \<times> app_state" where
  "plan_throughput env agent link st =
     (if \<not> probe_due agent link Throughput (te_now env)
           (max 1 (sc_throughput_interval_secs (cf_scheduler (as_cfg st)))) (as_workers st)
      then (False, st)
      else if passive_proof st link
      then (True, let st = stamp agent link Throughput (te_now env) st
                  in st\<lparr>as_throughput_skipped := add64 (as_throughput_skipped st) 1\<rparr>)
      else (False, start_test env agent link st))"

definition plan_policy :: "tick_env \<Rightarrow> string \<Rightarrow> link_key \<Rightarrow> app_state \<Rightarrow> app_state" where
  "plan_policy env agent link st =
     (case Option.bind (kv_get (as_kv st) link) qr_ospf_cost of
        None \<Rightarrow> st
      | Some cost \<Rightarrow>
          if apply_due agent link cost (te_now env) (as_workers st)
          then let cmd = ApplyCost (te_id env agent link KApply) link cost (te_span env agent link KApply);
                   (sent, st) = dispatch agent cmd st
               in if sent then st\<lparr>as_workers := set_applied_sent agent link cost (as_workers st)\<rparr> else st
          else st)"

definition plan_link :: "tick_env \<Rightarrow> string \<times> link_key \<Rightarrow> app_state \<Rightarrow> app_state" where
  "plan_link env = (\<lambda>(agent, link) st.
     let (skip, st) = plan_throughput env agent link (plan_always env agent link st)
     in if skip then st else plan_policy env agent link st)"

definition plan_tick :: "tick_env \<Rightarrow> app_state \<Rightarrow> app_state" where
  "plan_tick env st = fold (plan_link env) (owned_links (as_workers st)) st"

section \<open>What a tick leaves alone\<close>

lemma dispatch_frame [simp]:
  "as_fence (snd (dispatch agent cmd st)) = as_fence st"
  "as_kv (snd (dispatch agent cmd st)) = as_kv st"
  "as_cfg (snd (dispatch agent cmd st)) = as_cfg st"
  by (cases rule: dispatch_cases [of st agent cmd]; simp add: start_task_def)+

lemma stamp_frame [simp]:
  "as_fence (stamp agent link t now st) = as_fence st"
  "as_tasks (stamp agent link t now st) = as_tasks st"
  "as_kv (stamp agent link t now st) = as_kv st"
  "as_cfg (stamp agent link t now st) = as_cfg st"
  "session_of (as_workers (stamp agent link t now st)) = session_of (as_workers st)"
  by (auto simp: stamp_def session_of_sessions fun_eq_iff)

lemma dispatch_session [simp]:
  "session_of (as_workers (snd (dispatch agent cmd st))) = session_of (as_workers st)"
  by (simp add: session_of_sessions fun_eq_iff)

lemma plan_always_frame [simp]:
  "as_fence (plan_always env agent link st) = as_fence st"
  "as_kv (plan_always env agent link st) = as_kv st"
  "as_cfg (plan_always env agent link st) = as_cfg st"
  "session_of (as_workers (plan_always env agent link st)) = session_of (as_workers st)"
  by (simp_all add: plan_always_def split_beta Let_def)

lemma plan_policy_frame [simp]:
  "as_fence (plan_policy env agent link st) = as_fence st"
  "as_kv (plan_policy env agent link st) = as_kv st"
  "as_cfg (plan_policy env agent link st) = as_cfg st"
  "session_of (as_workers (plan_policy env agent link st)) = session_of (as_workers st)"
  by (simp_all add: plan_policy_def split_beta Let_def session_of_sessions fun_eq_iff split: option.split)

lemma start_test_frame [simp]:
  "as_kv (start_test env agent link st) = as_kv st"
  "as_cfg (start_test env agent link st) = as_cfg st"
  "session_of (as_workers (start_test env agent link st)) = session_of (as_workers st)"
  by (simp_all add: start_test_def split_beta Let_def split: sum.split)

lemma plan_throughput_frame [simp]:
  "as_kv (snd (plan_throughput env agent link st)) = as_kv st"
  "as_cfg (snd (plan_throughput env agent link st)) = as_cfg st"
  "session_of (as_workers (snd (plan_throughput env agent link st))) = session_of (as_workers st)"
  by (simp_all add: plan_throughput_def Let_def)

lemma plan_link_frame [simp]:
  "as_kv (plan_link env al st) = as_kv st"
  "as_cfg (plan_link env al st) = as_cfg st"
  "session_of (as_workers (plan_link env al st)) = session_of (as_workers st)"
  by (simp_all add: plan_link_def split_beta Let_def)

section \<open>Throughput tests\<close>

fun test_of :: "work_cmd \<Rightarrow> (link_key \<times> string) option" where
  "test_of (Probe _ Throughput (Some token) link _) = Some (link, token)"
| "test_of _ = None"

text \<open>The tests running: link and token of every throughput task.\<close>

definition tests :: "app_state \<Rightarrow> (link_key \<times> string) set" where
  "tests st = {x. \<exists>t \<in> set (as_tasks st). test_of (tk_cmd t) = Some x}"

lemma tests_dispatch:
  "tests (snd (dispatch agent cmd st)) =
     (if fst (dispatch agent cmd st) then set_option (test_of cmd) else {}) \<union> tests st"
  by (cases rule: dispatch_cases [of st agent cmd]) (auto simp: tests_def start_task_def)

lemma tests_same: "as_tasks st' = as_tasks st \<Longrightarrow> tests st' = tests st"
  by (simp add: tests_def)

lemma tests_stamp [simp]: "tests (stamp agent link t now st) = tests st"
  by (simp add: tests_def)

lemma tests_update [simp]:
  "tests (st\<lparr>as_workers := r\<rparr>) = tests st" "tests (st\<lparr>as_fence := f\<rparr>) = tests st"
  "tests (st\<lparr>as_throughput_skipped := n\<rparr>) = tests st"
  by (simp_all add: tests_def)

lemma tests_plan_always [simp]: "tests (plan_always env agent link st) = tests st"
  by (simp add: plan_always_def split_beta Let_def tests_dispatch)

lemma tests_plan_policy [simp]: "tests (plan_policy env agent link st) = tests st"
  by (simp add: plan_policy_def split_beta Let_def tests_dispatch split: option.split)

text \<open>The throughput part of one link: nothing about tests changes, or the lease is taken and
  the test carries it, or the lease is taken and given back.\<close>

lemma start_test_cases [case_names refused started given_back]:
  fixes env agent link st
  defines "r \<equiv> start_test env agent link st" and "tok \<equiv> te_token env agent link"
    and "acq \<equiv> acquire agent link fence_ttl_secs (te_now env) (te_token env agent link) (as_fence st)"
  obtains busy where "tests r = tests st" "fst acq = Inl busy" "as_fence r = snd acq"
  | "tests r = insert (link, tok) (tests st)" "fst acq = Inr (new_lease agent link fence_ttl_secs (te_now env) tok)"
      "as_fence r = snd acq"
  | "tests r = tests st" "fst acq = Inr (new_lease agent link fence_ttl_secs (te_now env) tok)"
      "as_fence r = snd (release (link_id link) tok (snd acq))"
proof (cases "fst acq")
  case (Inl busy)
  then have "r = st\<lparr>as_fence := snd acq\<rparr>" by (simp add: r_def start_test_def acq_def [symmetric] split_beta)
  with that(1) Inl show thesis by simp
next
  case (Inr lease)
  then have l: "lease = new_lease agent link fence_ttl_secs (te_now env) tok"
    by (auto simp: acq_def tok_def acquire_def Let_def split: option.splits)
  then have t: "le_token lease = tok" by (simp add: new_lease_def)
  let ?cmd = "Probe (te_id env agent link KThroughput) Throughput (Some tok) link (te_span env agent link KThroughput)"
  let ?d = "dispatch agent ?cmd (st\<lparr>as_fence := snd acq\<rparr>)"
  have r: "r = (if fst ?d then stamp agent link Throughput (te_now env) (snd ?d)
      else (snd ?d)\<lparr>as_fence := snd (release (link_id link) tok (snd acq))\<rparr>)"
    using Inr t by (simp add: r_def start_test_def acq_def [symmetric] split_beta Let_def)
  show thesis
    using that(2,3) Inr l by (cases "fst ?d") (simp_all add: r tests_dispatch)
qed

text \<open>A link's plan changes tests and leases only through a test it is due for, on a link the
  passive tier has not proven.\<close>

lemma plan_link_tests:
  obtains (unchanged) "tests (plan_link env (agent, link) st) = tests st" "as_fence (plan_link env (agent, link) st) = as_fence st"
  | (tried) st' where "\<not> passive_proof st link" "tests st' = tests st" "as_fence st' = as_fence st"
      "as_kv st' = as_kv st" "as_cfg st' = as_cfg st"
      "tests (plan_link env (agent, link) st) = tests (start_test env agent link st')"
      "as_fence (plan_link env (agent, link) st) = as_fence (start_test env agent link st')"
proof -
  let ?st = "plan_always env agent link st"
  have p: "passive_proof ?st link = passive_proof st link"
    unfolding passive_proof_def plan_always_frame ..
  let ?pt = "snd (plan_throughput env agent link ?st)"
  have *: "tests (plan_link env (agent, link) st) = tests ?pt" "as_fence (plan_link env (agent, link) st) = as_fence ?pt"
    by (simp_all add: plan_link_def split_beta Let_def)
  let ?due = "probe_due agent link Throughput (te_now env)
    (max 1 (sc_throughput_interval_secs (cf_scheduler (as_cfg ?st)))) (as_workers ?st)"
  show thesis
  proof (cases "?due \<and> \<not> passive_proof st link")
    case True
    then have "?pt = start_test env agent link ?st" by (simp add: plan_throughput_def p)
    with True show thesis by (intro that(2) [of ?st]) (simp_all add: *)
  next
    case False
    then consider "?pt = ?st" | n where "?pt = (stamp agent link Throughput (te_now env) ?st)\<lparr>as_throughput_skipped := n\<rparr>"
      unfolding plan_throughput_def p Let_def by (cases ?due) simp_all
    then have "tests ?pt = tests st \<and> as_fence ?pt = as_fence st"
      by cases simp_all
    then show thesis by (intro that(1)) (simp_all add: *)
  qed
qed

section \<open>Leases and tests\<close>

lemma lease_in: "fence_ok m \<Longrightarrow> l \<in> set (leases m) \<longleftrightarrow> hm_get m (le_link l) = Some l"
  by (force simp: fence_ok_def leases_def list_all_iff simp flip: hm_in_set)

lemma lease_in_release:
  assumes "fence_ok m"
  shows "l \<in> set (leases (snd (release k tok m))) \<longleftrightarrow> l \<in> set (leases m) \<and> \<not> (le_link l = k \<and> le_token l = tok)"
proof -
  have ok: "fence_ok (snd (release k tok m))" using assms by simp
  show ?thesis
    unfolding lease_in [OF assms] lease_in [OF ok] by (auto simp: release_def split: option.splits)
qed

lemma lease_in_acquire:
  assumes "l \<in> set (leases (snd (acquire agent link ttl now tok m)))"
  shows "l \<in> set (leases m) \<or> fst (acquire agent link ttl now tok m) = Inr l"
proof (cases rule: acquire_cases [of agent link ttl now tok m])
  case (refused busy)
  with assms live_subset show ?thesis by (auto simp: held_retain)
next
  case granted
  then have "l \<in> insert (new_lease agent link ttl now tok) (set (live_leases now m))"
    using assms held_insert by (fastforce simp flip: held_retain)
  with granted(1) live_subset show ?thesis by auto
qed

text \<open>Every lease is carried by a running test: one with its token on a link with its id.\<close>

definition carried :: "lease \<Rightarrow> app_state \<Rightarrow> bool" where
  "carried l st \<longleftrightarrow> (\<exists>link. link_id link = le_link l \<and> (link, le_token l) \<in> tests st)"

definition leases_carried :: "app_state \<Rightarrow> bool" where
  "leases_carried st \<longleftrightarrow> fence_ok (as_fence st) \<and> (\<forall>l \<in> set (leases (as_fence st)). carried l st)"

lemma leases_carried_same:
  "leases_carried st \<Longrightarrow> tests st' = tests st \<Longrightarrow> as_fence st' = as_fence st \<Longrightarrow> leases_carried st'"
  by (simp add: leases_carried_def carried_def)

lemma leases_carried_start:
  assumes "leases_carried st" shows "leases_carried (start_test env agent link st)"
proof -
  let ?acq = "acquire agent link fence_ttl_secs (te_now env) (te_token env agent link) (as_fence st)"
  have ok: "fence_ok (as_fence st)" and c: "\<And>l. l \<in> set (leases (as_fence st)) \<Longrightarrow> carried l st"
    using assms by (simp_all add: leases_carried_def)
  show ?thesis
  proof (cases rule: start_test_cases [of env agent link st])
    case (refused busy)
    have "carried l (start_test env agent link st)" if "l \<in> set (leases (snd ?acq))" for l
      using lease_in_acquire [OF that] refused c by (auto simp: carried_def)
    with ok refused(3) show ?thesis by (simp add: leases_carried_def)
  next
    case started
    have "carried l (start_test env agent link st)" if "l \<in> set (leases (snd ?acq))" for l
      using lease_in_acquire [OF that] started(1,2) c [of l] by (auto simp: carried_def new_lease_def)
    with ok started(3) show ?thesis by (simp add: leases_carried_def)
  next
    case given_back
    have ok': "fence_ok (snd ?acq)" using ok by simp
    have "carried l (start_test env agent link st)" if "l \<in> set (leases (as_fence (start_test env agent link st)))" for l
    proof -
      from that have l: "l \<in> set (leases (snd ?acq))" "\<not> (le_link l = link_id link \<and> le_token l = te_token env agent link)"
        unfolding given_back(3) lease_in_release [OF ok'] by simp_all
      from l(2) given_back(2) have "fst ?acq \<noteq> Inr l" by (auto simp: new_lease_def)
      with lease_in_acquire [OF l(1)] c given_back(1) show ?thesis by (simp add: carried_def)
    qed
    with ok given_back(3) show ?thesis by (simp add: leases_carried_def)
  qed
qed

lemma leases_carried_tick:
  assumes "leases_carried st" shows "leases_carried (plan_tick env st)"
proof -
  have "leases_carried (plan_link env (agent, link) st)" if "leases_carried st" for agent link st
  proof (cases rule: plan_link_tests [of env agent link st])
    case unchanged
    with that show ?thesis by (rule leases_carried_same)
  next
    case (tried st')
    from that tried(2,3) have "leases_carried st'" by (simp add: leases_carried_same)
    then have "leases_carried (start_test env agent link st')" by (rule leases_carried_start)
    then show ?thesis using tried(6,7) by (rule leases_carried_same)
  qed
  then have "leases_carried st \<Longrightarrow> leases_carried (fold (plan_link env) als st)" for als st
    by (induction als arbitrary: st) auto
  with assms show ?thesis by (simp add: plan_tick_def)
qed

section \<open>The end of a test\<close>

text \<open>What the agent does (\<open>throughput.rs\<close>): the reply to a test echoes its link and token; the
  link's peer name is canonical, so the reply is filed under the link of the command.\<close>

definition settles :: "task \<Rightarrow> string + agent_reply \<Rightarrow> app_state \<Rightarrow> bool" where
  "settles t res st =
     (case test_of (tk_cmd t) of
        None \<Rightarrow> True
      | Some (link, token) \<Rightarrow>
          (case res of
             Inl _ \<Rightarrow> True
           | Inr (RProbe p) \<Rightarrow> link_id (reply_link p st) = link_id link \<and> pr_token p = Some token
           | Inr _ \<Rightarrow> False))"

lemma fence_on_failure:
  "as_fence (on_failure agent now cmd st) =
     (case test_of cmd of Some (link, tok) \<Rightarrow> snd (release (link_id link) tok (as_fence st)) | None \<Rightarrow> as_fence st)"
  by (induction agent now cmd st rule: on_failure.induct) simp_all

lemma fence_handle_reply:
  "as_fence (handle_reply now reply st) =
     (case reply of
        RProbe p \<Rightarrow> (case pr_token p of Some tok \<Rightarrow> snd (release (link_id (reply_link p st)) tok (as_fence st))
                     | None \<Rightarrow> as_fence st)
      | _ \<Rightarrow> as_fence st)"
  by (induction now reply st rule: handle_reply.induct)
    (simp_all add: Let_def ingest_quality_def probe_measure_def split: option.split)

lemma leases_carried_finish:
  assumes "leases_carried st" "settles t res st"
  shows "leases_carried (finish_task t res now st)"
proof -
  let ?st = "st\<lparr>as_tasks := remove1 t (as_tasks st)\<rparr>"
  have f: "as_fence (finish_task t res now st) =
      as_fence (case res of Inr reply \<Rightarrow> handle_reply now reply ?st | Inl err \<Rightarrow> on_failure (tk_agent t) now (tk_cmd t) ?st)"
    by (simp add: finish_task_def Let_def)
  have rl: "reply_link p ?st = reply_link p st" for p by (simp add: reply_link_def)
  have ok: "fence_ok (as_fence st)" using assms(1) by (simp add: leases_carried_def)
  have sub: "l \<in> set (leases (as_fence st))
      \<and> (\<forall>link tok. test_of (tk_cmd t) = Some (link, tok) \<longrightarrow> \<not> (le_link l = link_id link \<and> le_token l = tok))"
    if "l \<in> set (leases (as_fence (finish_task t res now st)))" for l
    using that assms(2) unfolding f
    by (auto simp: fence_handle_reply fence_on_failure settles_def rl lease_in_release [OF ok]
        split: sum.splits agent_reply.splits option.splits)
  have ok': "fence_ok (as_fence (finish_task t res now st))"
    unfolding f using ok by (auto simp: fence_handle_reply fence_on_failure split: sum.splits agent_reply.splits option.splits)
  have "carried l (finish_task t res now st)" if "l \<in> set (leases (as_fence (finish_task t res now st)))" for l
  proof -
    note s = sub [OF that]
    obtain link u where u: "link_id link = le_link l" "u \<in> set (as_tasks st)" "test_of (tk_cmd u) = Some (link, le_token l)"
      using s assms(1) unfolding leases_carried_def carried_def tests_def by blast
    with s have "u \<noteq> t" by auto
    with u(2) have "u \<in> set (remove1 t (as_tasks st))" by simp
    with u(1,3) show ?thesis unfolding carried_def tests_def tasks_finish by blast
  qed
  with ok' show ?thesis by (simp add: leases_carried_def)
qed

section \<open>Runs of the scheduler\<close>

inductive sched_step :: "app_state \<Rightarrow> app_state \<Rightarrow> bool" where
  ticking: "sched_step st (plan_tick env st)"
| ending_task: "settles t res st \<Longrightarrow> sched_step st (finish_task t res now st)"
| registering: "sched_step st (snd (register s ident req now ids st))"
| ending_session: "sched_step st (session_end ident st)"
| no_test: "as_fence st' = as_fence st \<Longrightarrow> tests st' = tests st \<Longrightarrow> sched_step st st'"

lemma register_frame [simp]:
  "as_fence (snd (register s ident req now ids st)) = as_fence st"
  "tests (snd (register s ident req now ids st)) = tests st"
proof -
  have r: "as_fence (reseed_link ids agent l st) = as_fence st \<and> tests (reseed_link ids agent l st) = tests st"
    for agent l st
    by (simp add: reseed_link_def split_beta Let_def tests_dispatch split: option.split)
  have f: "as_fence (fold (reseed_link ids agent) ls st) = as_fence st
      \<and> tests (fold (reseed_link ids agent) ls st) = tests st" for agent ls st
    by (induction ls arbitrary: st) (simp_all add: r)
  have "as_fence (snd (register s ident req now ids st)) = as_fence st
      \<and> tests (snd (register s ident req now ids st)) = tests st"
  proof (cases rule: register_cases [of req s ident now ids st])
    case (ok st1 g st2)
    have st2: "st2 = snd (attach_session (rq_agent req) s (map_option snd ident) st1)"
      using arg_cong [OF ok(4), of snd] by simp
    have "as_fence st2 = as_fence st" "as_tasks st2 = as_tasks st" by (simp_all add: st2 ok(3))
    then show ?thesis unfolding ok(5) snd_conv by (simp add: f tests_same [of st2 st])
  qed simp_all
  then show "as_fence (snd (register s ident req now ids st)) = as_fence st"
    and "tests (snd (register s ident req now ids st)) = tests st" by simp_all
qed

lemma leases_carried_step: "sched_step st st' \<Longrightarrow> leases_carried st \<Longrightarrow> leases_carried st'"
proof (induction rule: sched_step.induct)
  case (ticking st env)
  then show ?case by (rule leases_carried_tick)
next
  case (ending_task t res st now)
  then show ?case by (intro leases_carried_finish)
next
  case (registering st s ident req now ids)
  then show ?case by (rule leases_carried_same) simp_all
next
  case (ending_session st ident)
  have "tests (session_end ident st) = tests st" by (rule tests_same) simp
  with ending_session show ?case by (rule leases_carried_same) simp
next
  case (no_test st' st)
  show ?case by (rule leases_carried_same [OF no_test(3,2,1)])
qed

lemma leases_carried_new: "leases_carried (app_state_new cfg)"
  by (simp add: leases_carried_def app_state_new_def fence_new_def leases_def fence_ok_def)

section \<open>Tests of one tick\<close>

text \<open>A test started by the tick: its lease is stored, issued by the tick, for the owner of a
  link the passive tier has not proven.\<close>

definition started :: "tick_env \<Rightarrow> app_state \<Rightarrow> fence \<Rightarrow> link_key \<times> string \<Rightarrow> bool" where
  "started env st m = (\<lambda>(l, tok). \<not> passive_proof st l
     \<and> (\<exists>a. (a, l) \<in> set (owned_links (as_workers st)) \<and> tok = te_token env a l
          \<and> hm_get m (link_id l) = Some (new_lease a l fence_ttl_secs (te_now env) tok)))"

lemma fresh_lease_live: "\<not> expired (new_lease a l fence_ttl_secs now tok) now"
  by (simp add: expired_def new_lease_def fence_ttl_secs_def)

lemma lease_kept_acquire:
  assumes "fence_ok m" "hm_get m (link_id l) = Some le" "\<not> expired le now" "le_from le = lk_from l"
    and "link_id link = link_id l \<Longrightarrow> link = l"
  shows "hm_get (snd (acquire agent link ttl now tok m)) (link_id l) = Some le"
    and "fst (acquire agent link ttl now tok m) = Inr le' \<Longrightarrow> link_id link \<noteq> link_id l"
proof -
  have live: "le \<in> set (live_leases now m)"
    using assms(1-3) by (force simp: live_leases_def leases_def fence_ok_def simp flip: hm_in_set)
  have kept: "hm_get (hm_retain (\<lambda>_ l. \<not> expired l now) m) (link_id l) = Some le"
    using assms(1-3) by (simp add: hm_get_retain fence_ok_def)
  have "hm_get (snd (acquire agent link ttl now tok m)) (link_id l) = Some le
      \<and> (fst (acquire agent link ttl now tok m) = Inr le' \<longrightarrow> link_id link \<noteq> link_id l)"
  proof (cases rule: acquire_cases [of agent link ttl now tok m])
    case (refused busy)
    with kept show ?thesis by simp
  next
    case granted
    have "link_id link \<noteq> link_id l"
    proof
      assume "link_id link = link_id l"
      then have "occupies le link" using assms(4,5) by (auto simp: occupies_def)
      with granted(2) live show False by blast
    qed
    with granted(1) kept show ?thesis by simp
  qed
  then show "hm_get (snd (acquire agent link ttl now tok m)) (link_id l) = Some le"
    and "fst (acquire agent link ttl now tok m) = Inr le' \<Longrightarrow> link_id link \<noteq> link_id l" by simp_all
qed

definition tick_ok :: "tick_env \<Rightarrow> app_state \<Rightarrow> app_state \<Rightarrow> bool" where
  "tick_ok env st0 st \<longleftrightarrow> fence_ok (as_fence st) \<and> fence_lock.exclusive (as_fence st)
     \<and> as_kv st = as_kv st0 \<and> as_cfg st = as_cfg st0
     \<and> (\<forall>x \<in> tests st - tests st0. started env st0 (as_fence st) x)"

lemma exclusive_steps:
  assumes "fence_ok m" "fence_lock.exclusive m"
  shows "fence_lock.exclusive (snd (acquire agent link ttl now tok m))"
    and "fence_lock.exclusive (snd (release k tok m))"
proof -
  have run: "fence_lock.exclusive m'" if "fence_step m m'" for m'
    using fence_lock.exclusive_step [OF fence_step_lock [OF that]] assms by blast
  show "fence_lock.exclusive (snd (acquire agent link ttl now tok m))" by (rule run) (rule acquiring)
  show "fence_lock.exclusive (snd (release k tok m))" by (rule run) (rule releasing)
qed

lemma tick_ok_start:
  assumes ok: "tick_ok env st0 st" and own: "(agent, link) \<in> set (owned_links (as_workers st0))"
    and sf: "list_all (\<lambda>(_, l). slash_free l) (owned_links (as_workers st0))"
    and proof0: "\<not> passive_proof st0 link"
  shows "tick_ok env st0 (start_test env agent link st)"
proof -
  let ?tok = "te_token env agent link"
  let ?acq = "acquire agent link fence_ttl_secs (te_now env) ?tok (as_fence st)"
  let ?st' = "start_test env agent link st"
  have m: "fence_ok (as_fence st)" "fence_lock.exclusive (as_fence st)"
    using ok by (simp_all add: tick_ok_def)
  note m' = fence_ok_steps(1) [OF m(1), of agent link fence_ttl_secs "te_now env" ?tok] exclusive_steps(1) [OF m]
  have inj: "link_id link = link_id l \<Longrightarrow> link = l" if "(a, l) \<in> set (owned_links (as_workers st0))" for a l
    using that own sf by (auto simp: list_all_iff intro: link_id_inject)
  have old: "started env st0 (snd ?acq) x" "fst ?acq = Inr le \<Longrightarrow> link_id link \<noteq> link_id (fst x)"
    if x: "x \<in> tests st - tests st0" for x le
  proof -
    obtain l tok where p: "x = (l, tok)" by (cases x)
    have "\<forall>x \<in> tests st - tests st0. started env st0 (as_fence st) x" using ok by (simp add: tick_ok_def)
    then have "started env st0 (as_fence st) (l, tok)" using x unfolding p by (rule bspec)
    then obtain a where s: "\<not> passive_proof st0 l" "(a, l) \<in> set (owned_links (as_workers st0))"
      "tok = te_token env a l"
      "hm_get (as_fence st) (link_id l) = Some (new_lease a l fence_ttl_secs (te_now env) tok)"
      unfolding started_def prod.case by blast
    note k = lease_kept_acquire [OF m(1) s(4) fresh_lease_live _ inj [OF s(2)], of agent fence_ttl_secs ?tok]
    show "started env st0 (snd ?acq) x"
      unfolding started_def p using s k(1) by (auto simp: new_lease_def)
    show "link_id link \<noteq> link_id (fst x)" if "fst ?acq = Inr le"
      using k(2) that by (simp add: p new_lease_def)
  qed
  have frame: "as_kv ?st' = as_kv st0" "as_cfg ?st' = as_cfg st0" using ok by (simp_all add: tick_ok_def)
  have okI: "tick_ok env st0 ?st'" if "fence_ok (as_fence ?st')" "fence_lock.exclusive (as_fence ?st')"
    "\<And>x. x \<in> tests ?st' - tests st0 \<Longrightarrow> started env st0 (as_fence ?st') x"
    using that frame by (simp add: tick_ok_def)
  show ?thesis
  proof (cases rule: start_test_cases [of env agent link st])
    case (refused busy)
    show ?thesis unfolding refused(3) by (rule okI; unfold refused) (fact m' old)+
  next
    case granted: started
    have "hm_get (snd ?acq) (link_id link) = Some (new_lease agent link fence_ttl_secs (te_now env) ?tok)"
      using granted(2) by (cases rule: acquire_cases [of agent link fence_ttl_secs "te_now env" ?tok "as_fence st"]) auto
    then have n: "started env st0 (snd ?acq) (link, ?tok)"
      using own proof0 unfolding started_def by blast
    show ?thesis
    proof (rule okI; unfold granted(1,3))
      fix x assume "x \<in> insert (link, ?tok) (tests st) - tests st0"
      then show "started env st0 (snd ?acq) x" using n old(1) by blast
    qed (fact m')+
  next
    case given_back
    have r: "fence_ok (snd (release (link_id link) ?tok (snd ?acq)))" using m'(1) by simp
    have "started env st0 (snd (release (link_id link) ?tok (snd ?acq))) x" if x: "x \<in> tests st - tests st0" for x
    proof -
      have "link_id link \<noteq> link_id (fst x)" by (rule old(2) [OF x given_back(2)])
      with old(1) [OF x] show ?thesis
        unfolding started_def release_def by (auto split: option.split)
    qed
    with r exclusive_steps(2) [OF m'] show ?thesis by (intro okI; unfold given_back(1,3))
  qed
qed

lemma tick_ok_tick:
  assumes "fence_ok (as_fence st0)" "fence_lock.exclusive (as_fence st0)"
    and sf: "list_all (\<lambda>(_, l). slash_free l) (owned_links (as_workers st0))"
  shows "tick_ok env st0 (plan_tick env st0)"
proof -
  have link: "tick_ok env st0 (plan_link env (agent, link) st)"
    if ok: "tick_ok env st0 st" and own: "(agent, link) \<in> set (owned_links (as_workers st0))" for agent link st
  proof (cases rule: plan_link_tests [of env agent link st])
    case unchanged
    with ok show ?thesis by (simp add: tick_ok_def)
  next
    case (tried st')
    have kv: "as_kv st = as_kv st0" "as_cfg st = as_cfg st0" using ok by (simp_all add: tick_ok_def)
    have "\<not> passive_proof st0 link" using tried(1) unfolding passive_proof_def kv .
    moreover have "tick_ok env st0 st'" using ok tried(2-5) by (simp add: tick_ok_def)
    ultimately have "tick_ok env st0 (start_test env agent link st')"
      using own sf by (intro tick_ok_start)
    with tried(6,7) kv show ?thesis by (simp add: tick_ok_def)
  qed
  have "tick_ok env st0 (fold (plan_link env) als st)"
    if "set als \<subseteq> set (owned_links (as_workers st0))" "tick_ok env st0 st" for als st
    using that
  proof (induction als arbitrary: st)
    case (Cons al als)
    with link [of st "fst al" "snd al"] show ?case by simp
  qed simp
  moreover have "tick_ok env st0 st0" using assms by (simp add: tick_ok_def)
  ultimately show ?thesis unfolding plan_tick_def by blast
qed

section \<open>Properties\<close>



text \<open>A reply filed under another spelling of the peer keeps the nodes blocked: when the
  peer's registration changes the canonical name while the test runs, the reply releases the
  new link id and the lease stored under the old one stays until its time to live ends.\<close>

theorem renamed_reply_keeps_lease:
  assumes "hm_get (as_fence st) k = Some l" "link_id (reply_link p st) \<noteq> k"
  shows "hm_get (as_fence (finish_task t (Inr (RProbe p)) now st)) k = Some l"
proof -
  have "reply_link p (st\<lparr>as_tasks := ts\<rparr>) = reply_link p st" for ts by (simp add: reply_link_def)
  with assms show ?thesis
    by (auto simp: finish_task_def fence_handle_reply release_def Let_def simp del: handle_reply.simps split: option.splits)
qed

section \<open>Witnesses\<close>

definition req_c :: register_req where
  "req_c = \<lparr>rq_agent = ''hub-c'', rq_router_id = None, rq_links = [new_link ''hub-c'' ''hub-d'' ''awg1''],
     rq_peer_rids = [], rq_loopback = None\<rparr>"

definition two_agents :: app_state where
  "two_agents = snd (register 2 None req_c 101 (\<lambda>_. ''c0'') connected)"

definition env1 :: tick_env where
  "env1 = \<lparr>te_now = 200, te_id = (\<lambda>_ _ _. ''id''), te_span = (\<lambda>_ _ _. None), te_token = (\<lambda>a _. a)\<rparr>"

definition ticked :: app_state where
  "ticked = plan_tick env1 two_agents"

lemma test_cmds:
  "List.map_filter (\<lambda>t. test_of (tk_cmd t)) (as_tasks ticked)
    = [(new_link ''hub-c'' ''hub-d'' ''awg1'', ''hub-c''), (new_link ''hub-a'' ''hub-b'' ''awg0'', ''hub-a'')]
   \<or> List.map_filter (\<lambda>t. test_of (tk_cmd t)) (as_tasks ticked)
    = [(new_link ''hub-a'' ''hub-b'' ''awg0'', ''hub-a''), (new_link ''hub-c'' ''hub-d'' ''awg1'', ''hub-c'')]"
  by code_simp

lemma tests_map_filter: "tests st = set (List.map_filter (\<lambda>t. test_of (tk_cmd t)) (as_tasks st))"
  by (force simp: tests_def List.map_filter_def)



theorem renamed_reply_keeps_lease_witness:
  "hm_get (as_fence (finish_task \<lparr>tk_agent = ''hub-a'', tk_session = 1, tk_cmd = always_cmd\<rparr> (Inr (RProbe
     \<lparr>pr_agent = ''hub-a'', pr_id = ''id'', pr_link = new_link ''hub-a'' ''hub-x'' ''awg0'', pr_ts = None, pr_rtt_ms = None,
      pr_loss_pct = None, pr_jitter_ms = None, pr_tcp_mbps = None, pr_udp_mbps = None, pr_udp_jitter_ms = None,
      pr_udp_loss_pct = None, pr_util_mbps = Fin 0, pr_state = Quiet, pr_token = Some ''hub-a'', pr_note = None,
      pr_traceparent = None, pr_blocks = []\<rparr>)) 210 ticked)) ''hub-a/hub-b/awg0''
    = Some (new_lease ''hub-a'' (new_link ''hub-a'' ''hub-b'' ''awg0'') 120 200 ''hub-a'')"
  by (rule renamed_reply_keeps_lease) code_simp+

end
