(* ===== verification/Gossip.thy ===== *)
theory Gossip
  imports SessionLaws
begin

text \<open>
  Gossip between members (\<open>crates/controller/src/gossip.rs\<close>) and the expiry task of
  \<open>main.rs\<close>: a push carries the sender's records, its directory and the samples its peer has
  not acknowledged; the peer merges them and answers with its own view, which the sender
  merges. A push is two steps of the sender, the request and the outcome, because the peer and
  the sender's other tasks run in between. The transport's result is an argument.
\<close>

section \<open>Messages\<close>

record exchange_req =
  xq_node :: string
  xq_records :: "(link_key \<times> quality_record) list"
  xq_ts_samples :: "(link_key \<times> raw_sample) list"
  xq_nodes :: "(string \<times> node_entry) list"

record exchange_resp =
  xr_node :: string
  xr_records :: "(link_key \<times> quality_record) list"
  xr_nodes :: "(string \<times> node_entry) list"

section \<open>The receiving side\<close>

definition learn_nodes :: "nat \<Rightarrow> (string \<times> node_entry) list \<Rightarrow> app_state \<Rightarrow> app_state" where
  "learn_nodes now nodes st =
     (if nodes = [] then st
      else let (changed, kv) = merge_nodes nodes (as_kv st); st = st\<lparr>as_kv := kv\<rparr>
           in if changed then sync_directory now st else st)"

definition exchange :: "nat \<Rightarrow> exchange_req \<Rightarrow> app_state \<Rightarrow> exchange_resp \<times> app_state" where
  "exchange now req st =
     (let st = st\<lparr>as_kv := kv_merge (xq_records req) (as_kv st)\<rparr>;
          st = (if xq_ts_samples req = [] then st
                else st\<lparr>as_tsdb := merge_delta (xq_ts_samples req) (as_tsdb st)\<rparr>);
          st = learn_nodes now (xq_nodes req) st;
          st = st\<lparr>as_peers := mark_seen (xq_node req) now (as_peers st)\<rparr>
      in (\<lparr>xr_node = cf_node (as_cfg st), xr_records = kv_all (as_kv st), xr_nodes = kv_nodes (as_kv st)\<rparr>, st))"

section \<open>The sending side\<close>

definition take_for_peer :: "app_state \<Rightarrow> string \<Rightarrow> (link_key \<times> raw_sample) list \<times> nat" where
  "take_for_peer st peer =
     (let wm = sent_watermark (as_tsdb st) peer; (delta, ack) = take_delta wm delta_limit (as_tsdb st)
      in (map snd delta, ack))"

definition gossip_targets :: "app_state \<Rightarrow> string list" where
  "gossip_targets st = filter (\<lambda>name. name \<noteq> cf_node (as_cfg st)) (cf_members (as_cfg st))"

text \<open>The records are those of the round, read once for all members.\<close>

definition push_request :: "string \<Rightarrow> (link_key \<times> quality_record) list \<Rightarrow> app_state \<Rightarrow> exchange_req \<times> nat" where
  "push_request name records st =
     (let (ts_samples, ack) = take_for_peer st name
      in (\<lparr>xq_node = cf_node (as_cfg st), xq_records = records, xq_ts_samples = ts_samples,
           xq_nodes = kv_nodes (as_kv st)\<rparr>, ack))"

definition push_outcome ::
  "string \<Rightarrow> nat \<Rightarrow> nat \<Rightarrow> nat \<Rightarrow> string + exchange_resp \<Rightarrow> app_state \<Rightarrow> app_state" where
  "push_outcome name ack elapsed now res st =
     (case res of
        Inr view \<Rightarrow>
          let st = st\<lparr>as_tsdb := note_sent name ack (as_tsdb st)\<rparr>;
              st = st\<lparr>as_peers := mark_ok name elapsed now (as_peers st)\<rparr>;
              st = st\<lparr>as_kv := kv_merge (xr_records view) (as_kv st)\<rparr>
          in learn_nodes now (xr_nodes view) st
      | Inl err \<Rightarrow> st)"

section \<open>Outbound sessions\<close>

text \<open>One session per member, dialled on first use and dropped after a failed exchange; the
  results of the dial and of the request are arguments.\<close>

type_synonym fabric = "(string, session_handle) hmap"

definition fabric_session :: "string \<Rightarrow> string + session_handle \<Rightarrow> fabric \<Rightarrow> (string + session_handle) \<times> fabric" where
  "fabric_session name dialled f =
     (case hm_get f name of
        Some s \<Rightarrow> (Inr s, f)
      | None \<Rightarrow> (case dialled of Inr s \<Rightarrow> (Inr s, hm_insert name s f) | Inl e \<Rightarrow> (Inl e, f)))"

definition drop_session :: "string \<Rightarrow> fabric \<Rightarrow> session_handle option \<times> fabric" where
  "drop_session name f = (hm_get f name, hm_remove name f)"

definition fabric_exchange ::
  "string \<Rightarrow> string + session_handle \<Rightarrow> (session_handle \<Rightarrow> string + exchange_resp) \<Rightarrow> fabric
    \<Rightarrow> (string + exchange_resp) \<times> fabric" where
  "fabric_exchange name dialled request f0 =
     (let (s, f) = fabric_session name dialled f0;
          res = (case s of Inr s \<Rightarrow> request s | Inl e \<Rightarrow> Inl e)
      in (res, case res of Inl _ \<Rightarrow> snd (drop_session name f) | Inr _ \<Rightarrow> f))"

section \<open>Expiry\<close>

definition prune_step :: "nat \<Rightarrow> app_state \<Rightarrow> app_state" where
  "prune_step now st = st\<lparr>as_kv := kv_prune now (max 10 (cl_grace_ttl_secs (cf_cluster (as_cfg st)))) (as_kv st)\<rparr>"

section \<open>Lemmas\<close>

lemma records_set_node [simp]: "ls_inner (snd (set_node rid n ls ts s)) = ls_inner s"
  by (auto simp: set_node_def Let_def split: option.splits)

lemma records_sync_entry [simp]: "ls_inner (sync_entry now e s) = ls_inner s"
  by (auto simp: sync_entry_def split: prod.splits option.splits)

lemma records_sync_fold [simp]: "ls_inner (fold (sync_entry now) es s) = ls_inner s"
  by (induction es arbitrary: s) simp_all

lemma records_learn_nodes [simp]: "ls_inner (as_kv (learn_nodes now nodes st)) = ls_inner (as_kv st)"
  by (simp add: learn_nodes_def sync_directory_def merge_nodes_def split_beta Let_def)

lemma records_exchange:
  "ls_inner (as_kv (snd (exchange now req st))) = lww_merge rec_acc (xq_records req) (ls_inner (as_kv st))"
  "xr_records (fst (exchange now req st)) = lww_merge rec_acc (xq_records req) (ls_inner (as_kv st))"
  by (simp_all add: exchange_def kv_all_def kv_merge_def kv_merge_into_lww Let_def)

lemma records_push_outcome:
  "ls_inner (as_kv (push_outcome name ack el now (Inr view) st)) = lww_merge rec_acc (xr_records view) (ls_inner (as_kv st))"
  by (simp add: push_outcome_def kv_merge_def kv_merge_into_lww Let_def)

text \<open>One round between two members, with nothing else happening on either side.\<close>

definition gossip_round :: "string \<Rightarrow> nat \<Rightarrow> nat \<Rightarrow> app_state \<times> app_state \<Rightarrow> app_state \<times> app_state" where
  "gossip_round name el now = (\<lambda>(a, b).
     let (req, ack) = push_request name (kv_all (as_kv a)) a; (resp, b') = exchange now req b
     in (push_outcome name ack el now (Inr resp) a, b'))"

lemma records_gossip_round:
  "ls_inner (as_kv (snd (gossip_round name el now (a, b)))) = lww_merge rec_acc (ls_inner (as_kv a)) (ls_inner (as_kv b))"
  "ls_inner (as_kv (fst (gossip_round name el now (a, b))))
    = lww_merge rec_acc (lww_merge rec_acc (ls_inner (as_kv a)) (ls_inner (as_kv b))) (ls_inner (as_kv a))"
  by (simp_all add: gossip_round_def split_beta Let_def records_exchange records_push_outcome push_request_def kv_all_def)

section \<open>Properties\<close>

text \<open>C20: one gossip round makes two members agree: after a push of the full view and the merge
  of the answer both hold the same record for every link, ties of the timestamp included.\<close>

theorem gossip_round_agrees:
  assumes "kv_ok (as_kv a)" "kv_ok (as_kv b)"
  shows "kv_get (as_kv (fst (gossip_round name el now (a, b)))) k = kv_get (as_kv (snd (gossip_round name el now (a, b)))) k"
  unfolding kv_get_def records_gossip_round
  by (rule records.exchange_agrees) (use assms in \<open>simp_all add: kv_ok_def\<close>)

text \<open>An expired record comes back: a merge does not look at a record's age, so a member
  that has just expired a record takes it back in the next round with any member that still
  holds it, after which both hold it, however old it is.\<close>

theorem pruned_record_comes_back:
  assumes "kv_ok (as_kv a)" "kv_ok (as_kv b)" "kv_get (as_kv a) k = Some r" "kv_get (as_kv b) k = Some r"
  shows "(let (a', b') = gossip_round name el now (prune_step now a, b)
          in kv_get (as_kv a') k = Some r \<and> kv_get (as_kv b') k = Some r)"
proof -
  let ?a = "prune_step now a"
  have ok: "kv_ok (as_kv ?a)" using assms(1) by (simp add: prune_step_def)
  have "kv_get (as_kv ?a) k = None \<or> kv_get (as_kv ?a) k = Some r"
    using assms(1,3) by (auto simp: prune_step_def kv_get_prune)
  then have "kv_get (as_kv (snd (gossip_round name el now (?a, b)))) k = Some r"
    using assms(2,4) ok unfolding kv_get_def records_gossip_round hm_get_lww_merge
    by (auto simp: kv_ok_def vals_of_map rec_acc_def)
  moreover have "kv_get (as_kv (fst (gossip_round name el now (?a, b)))) k
      = kv_get (as_kv (snd (gossip_round name el now (?a, b)))) k"
    unfolding kv_get_def records_gossip_round
    by (rule records.exchange_agrees) (use ok assms(2) in \<open>simp_all add: kv_ok_def\<close>)
  ultimately show ?thesis by (simp add: split_beta)
qed

text \<open>A failed push loses nothing: the sender's state is untouched, the member's session is
  forgotten, so the next round dials again and sends the same samples.\<close>

theorem failed_push_is_retried:
  assumes "fst (fabric_exchange name dialled request f) = Inl e"
  shows "push_outcome name ack el now (fst (fabric_exchange name dialled request f)) st = st
    \<and> hm_get (snd (fabric_exchange name dialled request f)) name = None
    \<and> (other \<noteq> name \<longrightarrow> hm_get (snd (fabric_exchange name dialled request f)) other = hm_get f other)
    \<and> fst (fabric_session name (Inr s) (snd (fabric_exchange name dialled request f))) = Inr s"
  using assms
  by (auto simp: push_outcome_def fabric_exchange_def fabric_session_def drop_session_def split_beta Let_def
      split: option.splits sum.splits)

section \<open>Witnesses\<close>

definition member_state :: app_state where
  "member_state = new_state\<lparr>as_kv := snd (kv_put (new_link ''hub-a'' ''hub-b'' ''awg0'') (rec_at 90) lww_new)\<rparr>"

theorem gossip_round_agrees_witness:
  "kv_get (as_kv (fst (gossip_round ''hub-b'' 3 100 (new_state, member_state)))) (new_link ''hub-a'' ''hub-b'' ''awg0'')
    = kv_get (as_kv (snd (gossip_round ''hub-b'' 3 100 (new_state, member_state)))) (new_link ''hub-a'' ''hub-b'' ''awg0'')"
  by (rule gossip_round_agrees) (simp_all add: new_state_def member_state_def app_state_new_def)

theorem pruned_record_comes_back_witness:
  "kv_get (as_kv (prune_step 1000 member_state)) (new_link ''hub-a'' ''hub-b'' ''awg0'') = None
   \<and> (let (a', b') = gossip_round ''hub-b'' 3 1000 (prune_step 1000 member_state, member_state)
      in kv_get (as_kv a') (new_link ''hub-a'' ''hub-b'' ''awg0'') = Some (rec_at 90)
        \<and> kv_get (as_kv b') (new_link ''hub-a'' ''hub-b'' ''awg0'') = Some (rec_at 90))"
proof
  have ok: "kv_ok (as_kv member_state)" by (simp add: member_state_def)
  have g: "kv_get (as_kv member_state) (new_link ''hub-a'' ''hub-b'' ''awg0'') = Some (rec_at 90)" by code_simp
  show "kv_get (as_kv (prune_step 1000 member_state)) (new_link ''hub-a'' ''hub-b'' ''awg0'') = None" by code_simp
  show "(let (a', b') = gossip_round ''hub-b'' 3 1000 (prune_step 1000 member_state, member_state)
      in kv_get (as_kv a') (new_link ''hub-a'' ''hub-b'' ''awg0'') = Some (rec_at 90)
        \<and> kv_get (as_kv b') (new_link ''hub-a'' ''hub-b'' ''awg0'') = Some (rec_at 90))"
    by (rule pruned_record_comes_back [OF ok ok g g])
qed

theorem failed_push_is_retried_witness:
  "hm_get (snd (fabric_exchange ''hub-b'' (Inr 1) (\<lambda>_. Inl ''lost'') [(''hub-b'', 7), (''hub-c'', 8)])) ''hub-b'' = None"
proof -
  have "fst (fabric_exchange ''hub-b'' (Inr 1) (\<lambda>_. Inl ''lost'') [(''hub-b'', 7), (''hub-c'', 8)]) = Inl ''lost''"
    by (simp add: fabric_exchange_def fabric_session_def)
  from failed_push_is_retried [OF this] show ?thesis by blast
qed

end
