(* ===== verification/Trace.thy ===== *)
theory Trace
  imports Session "HOL-Library.Multiset"
begin

text \<open>
  The path trace (\<open>crates/controller/src/trace.rs\<close>, \<open>request_trace\<close> of \<open>session.rs\<close>): a
  breadth-first walk that asks one agent after the other to resolve the target and expands
  every next hop once. Each node is asked at most once, so what the walk meets is given per
  node: the controller's state while the node's answer is expanded, and the result of the
  command stream. An \<open>Instant\<close> is a number of nanoseconds.
\<close>

section \<open>Rows and results\<close>

definition hop_cap :: nat where "hop_cap = 24"
definition cache_ttl :: nat where "cache_ttl = 5000000000"
definition cache_max :: nat where "cache_max = 32"

datatype trace_error = BadRequest string

record trace_hop_reply =
  th_agent :: string
  th_prefix :: string
  th_code :: int
  th_routes :: "route_rep list"

record trace_edge =
  ed_depth :: nat
  ed_node :: string
  ed_iface :: "string option"
  ed_to :: "string option"
  ed_term :: bool
  ed_broken :: bool
  ed_reason :: "string option"
  ed_rtt_ms :: "f64 option"
  ed_loss_pct :: "f64 option"
  ed_quality :: "string option"
  ed_ospf_cost :: "nat option"

definition plain_edge :: "nat \<Rightarrow> string \<Rightarrow> trace_edge" where
  "plain_edge depth node = \<lparr>ed_depth = depth, ed_node = node, ed_iface = None, ed_to = None, ed_term = False,
     ed_broken = False, ed_reason = None, ed_rtt_ms = None, ed_loss_pct = None, ed_quality = None, ed_ospf_cost = None\<rparr>"

definition broken_edge :: "nat \<Rightarrow> string \<Rightarrow> string \<Rightarrow> trace_edge" where
  "broken_edge depth node reason = (plain_edge depth node)\<lparr>ed_broken := True, ed_reason := Some reason\<rparr>"

record trace_result =
  tr_from :: string
  tr_to :: "string option"
  tr_prefix :: string
  tr_ts :: nat
  tr_complete :: bool
  tr_cap_hit :: bool
  tr_edges :: "trace_edge list"

section \<open>One hop\<close>

definition quoted :: "string \<Rightarrow> string" where
  "quoted s = CHR 0x27 # s @ [CHR 0x27]"

text \<open>\<open>request_trace\<close>: the answer is the result of the command's stream.\<close>

definition request_trace :: "app_state \<Rightarrow> string \<Rightarrow> string + agent_reply \<Rightarrow> string + trace_hop_reply" where
  "request_trace st agent answer =
     (if session_of (as_workers st) agent = None then Inl (''agent '' @ quoted agent @ '' has no session'')
      else case answer of
             Inl e \<Rightarrow> Inl (''hop '' @ quoted agent @ '' unanswered ('' @ e @ '')'')
           | Inr (RTrace a _ _ prefix code routes) \<Rightarrow>
               Inr \<lparr>th_agent = a, th_prefix = prefix, th_code = code, th_routes = routes\<rparr>
           | Inr _ \<Rightarrow> Inl (''hop '' @ quoted agent @ '' answered with the wrong reply kind''))"

definition dispatch_hop :: "app_state \<Rightarrow> string \<Rightarrow> string + agent_reply \<Rightarrow> string + trace_hop_reply" where
  "dispatch_hop st agent answer =
     (if has_agent (as_workers st) agent then request_trace st agent answer
      else Inl (''agent '' @ quoted agent @ '' is not registered''))"

definition str_or_empty :: "string option \<Rightarrow> string" where
  "str_or_empty s = (case s of Some t \<Rightarrow> t | None \<Rightarrow> [])"

fun hop_key :: "next_hop \<Rightarrow> string" where
  "hop_key (Dev iface _ _) = ''dev/'' @ str_or_empty iface"
| "hop_key (Via addr iface _ _) = ''via/'' @ str_or_empty addr @ ''/'' @ str_or_empty iface"

fun distinct_hops :: "string set \<Rightarrow> next_hop list \<Rightarrow> next_hop list" where
  "distinct_hops seen [] = []"
| "distinct_hops seen (nh # nhs) =
     (if hop_key nh \<in> seen then distinct_hops seen nhs
      else nh # distinct_hops (insert (hop_key nh) seen) nhs)"

definition all_next_hops :: "route_rep list \<Rightarrow> next_hop list" where
  "all_next_hops routes = distinct_hops {} (concat (map rt_next_hops routes))"

definition peer_for_egress :: "app_state \<Rightarrow> string \<Rightarrow> string \<Rightarrow> string option" where
  "peer_for_egress st node iface =
     map_option lk_to (find (\<lambda>l. lk_iface l = iface) (links_of (as_workers st) node))"

record edge_metric =
  em_broken :: bool
  em_reason :: "string option"
  em_rtt_ms :: "f64 option"
  em_loss_pct :: "f64 option"
  em_quality :: "string option"
  em_ospf_cost :: "nat option"

fun quality_name :: "quality \<Rightarrow> string" where
  "quality_name Good = ''good''"
| "quality_name Acceptable = ''acceptable''"
| "quality_name Poor = ''poor''"
| "quality_name Bad = ''bad''"

definition no_metrics :: "string \<Rightarrow> edge_metric" where
  "no_metrics reason = \<lparr>em_broken = True, em_reason = Some reason, em_rtt_ms = None, em_loss_pct = None,
     em_quality = None, em_ospf_cost = None\<rparr>"

definition edge_metrics :: "app_state \<Rightarrow> string \<Rightarrow> string option \<Rightarrow> string option \<Rightarrow> edge_metric" where
  "edge_metrics st node peer iface =
     (case (peer, iface) of
        (Some p, Some i) \<Rightarrow>
          (case kv_get (as_kv st) (new_link node p i) of
             Some rec \<Rightarrow>
               \<lparr>em_broken = (qr_state rec = Conflict \<or> qr_quality rec = Some Bad \<or> qr_quality rec = None),
                em_reason = (if qr_quality rec = None then Some ''no quality data'' else None),
                em_rtt_ms = qr_rtt_ms rec, em_loss_pct = qr_loss_pct rec,
                em_quality = map_option quality_name (qr_quality rec), em_ospf_cost = qr_ospf_cost rec\<rparr>
           | None \<Rightarrow> no_metrics ''no probe data for edge'')
      | _ \<Rightarrow> no_metrics ''peer not resolvable for egress interface'')"

section \<open>The walk\<close>

record walk_state =
  ws_edges :: "trace_edge list"
  ws_visited :: "string set"
  ws_frontier :: "(string \<times> nat) list"
  ws_complete :: bool
  ws_cap_hit :: bool

definition dev_edge :: "nat \<Rightarrow> string \<Rightarrow> trace_edge" where
  "dev_edge depth node = (plain_edge depth node)
     \<lparr>ed_iface := Some ''dummy_awg'', ed_to := Some node, ed_term := True\<rparr>"

definition via_edge :: "app_state \<Rightarrow> nat \<Rightarrow> string \<Rightarrow> string option \<Rightarrow> trace_edge" where
  "via_edge st depth node iface =
     (let peer = Option.bind iface (peer_for_egress st node); m = edge_metrics st node peer iface
      in (plain_edge depth node)\<lparr>ed_iface := iface, ed_to := peer, ed_broken := em_broken m, ed_reason := em_reason m,
           ed_rtt_ms := em_rtt_ms m, ed_loss_pct := em_loss_pct m, ed_quality := em_quality m,
           ed_ospf_cost := em_ospf_cost m\<rparr>)"

definition nonempty :: "string option \<Rightarrow> string option" where
  "nonempty s = Option.bind s (\<lambda>t. if t = [] then None else Some t)"

fun follow_hop :: "app_state \<Rightarrow> string \<Rightarrow> nat \<Rightarrow> next_hop \<Rightarrow> walk_state \<Rightarrow> walk_state" where
  "follow_hop st node depth (Dev _ _ _) ws =
     ws\<lparr>ws_complete := True, ws_edges := ws_edges ws @ [dev_edge depth node]\<rparr>"
| "follow_hop st node depth (Via _ iface _ _) ws =
     (let e = via_edge st depth node (nonempty iface); ws = ws\<lparr>ws_edges := ws_edges ws @ [e]\<rparr>
      in case ed_to e of
           None \<Rightarrow> ws
         | Some p \<Rightarrow> if p \<in> ws_visited ws then ws
                     else ws\<lparr>ws_visited := insert p (ws_visited ws), ws_frontier := ws_frontier ws @ [(p, depth + 1)]\<rparr>)"

definition add_edge :: "trace_edge \<Rightarrow> walk_state \<Rightarrow> walk_state" where
  "add_edge e ws = ws\<lparr>ws_edges := ws_edges ws @ [e]\<rparr>"

text \<open>What the walk meets at each node.\<close>

type_synonym trace_world = "string \<Rightarrow> app_state \<times> (string + agent_reply)"

definition expand_node :: "trace_world \<Rightarrow> string \<Rightarrow> nat \<Rightarrow> walk_state \<Rightarrow> walk_state" where
  "expand_node world node depth ws =
     (if hop_cap \<le> depth then add_edge (broken_edge depth node ''hop cap (24) reached'') (ws\<lparr>ws_cap_hit := True\<rparr>)
      else case dispatch_hop (fst (world node)) node (snd (world node)) of
             Inl reason \<Rightarrow> add_edge (broken_edge depth node reason) ws
           | Inr reply \<Rightarrow>
               let hops = all_next_hops (th_routes reply); ws = fold (follow_hop (fst (world node)) node depth) hops ws
               in if hops \<noteq> [] then ws
                  else add_edge (broken_edge depth node
                    (if th_routes reply = [] then ''unresolvable'' else ''no usable next hop'')) ws)"

text \<open>A popped node is replaced by nodes one level deeper, and none below the hop cap.\<close>

lemma follow_hop_frontier:
  "\<exists>ps. ws_frontier (follow_hop st node depth nh ws) = ws_frontier ws @ map (\<lambda>p. (p, depth + 1)) ps"
  by (cases "(st, node, depth, nh, ws)" rule: follow_hop.cases)
    (auto simp: Let_def split: option.splits intro: exI [of _ "[]"] exI [of _ "[_]"])

lemma follow_hops_frontier:
  "\<exists>ps. ws_frontier (fold (follow_hop st node depth) nhs ws) = ws_frontier ws @ map (\<lambda>p. (p, depth + 1)) ps"
proof (induction nhs arbitrary: ws)
  case Nil
  then show ?case by (auto intro: exI [of _ "[]"])
next
  case (Cons nh nhs)
  obtain ps where p: "ws_frontier (follow_hop st node depth nh ws) = ws_frontier ws @ map (\<lambda>p. (p, depth + 1)) ps"
    using follow_hop_frontier by blast
  obtain qs where "ws_frontier (fold (follow_hop st node depth) nhs (follow_hop st node depth nh ws))
      = ws_frontier (follow_hop st node depth nh ws) @ map (\<lambda>p. (p, depth + 1)) qs"
    using Cons.IH by blast
  with p show ?case by (auto intro: exI [of _ "ps @ qs"])
qed

lemma expand_node_frontier:
  "\<exists>ps. ws_frontier (expand_node world node depth ws) = ws_frontier ws @ map (\<lambda>p. (p, depth + 1)) ps
     \<and> (hop_cap \<le> depth \<longrightarrow> ps = [])"
  using follow_hops_frontier [of "fst (world node)" node depth _ ws]
  by (auto simp: expand_node_def add_edge_def Let_def intro: exI [of _ "[]"] split: sum.split)

text \<open>The loop ends: the multiset of the distances to the hop cap decreases.\<close>

definition walk_order :: "(walk_state \<times> walk_state) set" where
  "walk_order = inv_image (mult less_than) (\<lambda>ws. image_mset (\<lambda>(_, d). Suc hop_cap - d) (mset (ws_frontier ws)))"

lemma wf_walk_order: "wf walk_order"
  unfolding walk_order_def by (intro wf_inv_image wf_mult wf_less_than)

lemma expand_decreases:
  assumes "ws_frontier ws = (node, depth) # rest"
  shows "(expand_node world node depth (ws\<lparr>ws_frontier := rest\<rparr>), ws) \<in> walk_order"
proof -
  let ?f = "\<lambda>(_, d). Suc hop_cap - d"
  obtain ps where p: "ws_frontier (expand_node world node depth (ws\<lparr>ws_frontier := rest\<rparr>)) = rest @ map (\<lambda>p. (p, depth + 1)) ps"
    "hop_cap \<le> depth \<longrightarrow> ps = []"
    using expand_node_frontier [of world node depth "ws\<lparr>ws_frontier := rest\<rparr>"] by auto
  have "(image_mset ?f (mset rest) + image_mset ?f (mset (map (\<lambda>p. (p, depth + 1)) ps)),
      image_mset ?f (mset rest) + {#Suc hop_cap - depth#}) \<in> mult less_than"
    using p(2) by (intro one_step_implies_mult) auto
  then show ?thesis by (simp add: walk_order_def p(1) assms union_commute)
qed

function walk_loop :: "trace_world \<Rightarrow> walk_state \<Rightarrow> walk_state" where
  "walk_loop world ws =
     (case ws_frontier ws of
        [] \<Rightarrow> ws
      | (node, depth) # rest \<Rightarrow> walk_loop world (expand_node world node depth (ws\<lparr>ws_frontier := rest\<rparr>)))"
  by pat_completeness auto

termination
  by (relation "inv_image walk_order snd") (auto simp: wf_walk_order expand_decreases)

declare walk_loop.simps [simp del]

definition walk :: "trace_world \<Rightarrow> string \<Rightarrow> string option \<Rightarrow> string \<Rightarrow> nat \<Rightarrow> trace_result" where
  "walk world source target prefix now =
     (let ws = walk_loop world \<lparr>ws_edges = [], ws_visited = {source}, ws_frontier = [(source, 0)],
        ws_complete = False, ws_cap_hit = False\<rparr>
      in \<lparr>tr_from = source, tr_to = target, tr_prefix = prefix, tr_ts = now, tr_complete = ws_complete ws,
          tr_cap_hit = ws_cap_hit ws, tr_edges = ws_edges ws\<rparr>)"

section \<open>The cache and the request\<close>

type_synonym trace_cache = "(string \<times> nat \<times> trace_result) list"

definition cache_get :: "string \<Rightarrow> string \<Rightarrow> nat \<Rightarrow> trace_cache \<Rightarrow> trace_result option \<times> trace_cache" where
  "cache_get source prefix now c0 =
     (let c = filter (\<lambda>(_, t, _). saturating_sub now t \<le> cache_ttl) c0
      in (map_option (\<lambda>(_, _, r). r) (find (\<lambda>(f, _, r). f = source \<and> tr_prefix r = prefix) c), c))"

definition cache_put :: "string \<Rightarrow> trace_result \<Rightarrow> nat \<Rightarrow> trace_cache \<Rightarrow> trace_cache" where
  "cache_put source r now c = (if cache_max \<le> length c then tl c else c) @ [(source, now, r)]"

record trace_request =
  tq_from :: string
  tq_to :: "string option"
  tq_prefix :: "string option"

definition trace_prefix :: "registry \<Rightarrow> trace_request \<Rightarrow> trace_error + string" where
  "trace_prefix r req =
     (case nonempty (tq_prefix req) of
        Some p \<Rightarrow> Inr p
      | None \<Rightarrow>
          (case nonempty (tq_to req) of
             None \<Rightarrow> Inl (BadRequest ''missing to or prefix'')
           | Some target \<Rightarrow>
               (case loopback r target of
                  Some lb \<Rightarrow> Inr lb
                | None \<Rightarrow> Inl (BadRequest (''cannot resolve '' @ quoted target
                    @ '' to a prefix (agent never reported a loopback)'')))))"

text \<open>The clock of the cache before and after the walk, and the wall clock of the result.\<close>

definition run_trace ::
  "app_state \<Rightarrow> trace_world \<Rightarrow> trace_request \<Rightarrow> nat \<Rightarrow> nat \<Rightarrow> nat \<Rightarrow> trace_cache
    \<Rightarrow> (trace_error + trace_result) \<times> trace_cache" where
  "run_trace st world req before after now c0 =
     (if tq_from req = [] then (Inl (BadRequest ''missing from''), c0)
      else if \<not> has_agent (as_workers st) (tq_from req)
      then (Inl (BadRequest (''unknown source agent '' @ quoted (tq_from req) @ '' (not registered)'')), c0)
      else case trace_prefix (as_workers st) req of
             Inl e \<Rightarrow> (Inl e, c0)
           | Inr prefix \<Rightarrow>
               (case cache_get (tq_from req) prefix before c0 of
                  (Some hit, c) \<Rightarrow> (Inr hit, c)
                | (None, c) \<Rightarrow>
                    let r = walk world (tq_from req) (tq_to req) prefix now
                    in (Inr r, cache_put (tq_from req) r after c)))"

end
