(* ===== verification/TraceLaws.thy ===== *)
theory TraceLaws
  imports Trace SessionLaws
begin

text \<open>
  What a trace shows: the invariant of the walk over its rows, visited nodes and frontier, and
  the properties of the result and of the cache.
\<close>

section \<open>The invariant of the walk\<close>

text \<open>A node at a depth hangs on the rows: it is the source, or a row one level up leads to it.\<close>

definition hung :: "string \<Rightarrow> trace_edge set \<Rightarrow> string \<times> nat \<Rightarrow> bool" where
  "hung source E = (\<lambda>(n, d). (d = 0 \<and> n = source) \<or> (\<exists>f \<in> E. ed_to f = Some n \<and> ed_depth f + 1 = d))"

lemma hung_mono: "hung source E x \<Longrightarrow> E \<subseteq> E' \<Longrightarrow> hung source E' x"
  by (cases x) (auto simp: hung_def)

text \<open>\<open>X\<close> is the frontier with the node being expanded, if any, in front. Visited are the nodes with
  rows and those of \<open>X\<close>; the frontier has no rows yet; a node has one depth.\<close>

definition nodes_ok :: "string set \<Rightarrow> trace_edge set \<Rightarrow> (string \<times> nat) list \<Rightarrow> (string \<times> nat) list \<Rightarrow> bool" where
  "nodes_ok V E cur F \<longleftrightarrow> V = ed_node ` E \<union> fst ` set (cur @ F) \<and> distinct (map fst (cur @ F))
     \<and> fst ` set F \<inter> ed_node ` E = {}"

definition depths_ok :: "trace_edge set \<Rightarrow> (string \<times> nat) list \<Rightarrow> bool" where
  "depths_ok E cur \<longleftrightarrow> (\<forall>e \<in> E. \<forall>f \<in> E. ed_node e = ed_node f \<longrightarrow> ed_depth e = ed_depth f)
     \<and> (\<forall>e \<in> E. \<forall>x \<in> set cur. ed_node e = fst x \<longrightarrow> ed_depth e = snd x)"

definition bounds_ok :: "trace_edge set \<Rightarrow> (string \<times> nat) list \<Rightarrow> bool" where
  "bounds_ok E X \<longleftrightarrow> (\<forall>e \<in> E. ed_depth e \<le> hop_cap) \<and> (\<forall>x \<in> set X. snd x \<le> hop_cap)"

definition links_ok :: "string set \<Rightarrow> trace_edge set \<Rightarrow> bool" where
  "links_ok V E \<longleftrightarrow> (\<forall>e \<in> E. \<forall>p. ed_to e = Some p \<longrightarrow> p \<in> V)"

definition hung_ok :: "string \<Rightarrow> trace_edge set \<Rightarrow> (string \<times> nat) list \<Rightarrow> bool" where
  "hung_ok source E X \<longleftrightarrow> (\<forall>e \<in> E. hung source E (ed_node e, ed_depth e)) \<and> (\<forall>x \<in> set X. hung source E x)"

definition flags_ok :: "bool \<Rightarrow> bool \<Rightarrow> trace_edge set \<Rightarrow> bool" where
  "flags_ok c h E \<longleftrightarrow> (c \<longleftrightarrow> (\<exists>e \<in> E. ed_term e)) \<and> (h \<longleftrightarrow> (\<exists>e \<in> E. ed_depth e = hop_cap))"

definition walk_inv :: "string \<Rightarrow> (string \<times> nat) list \<Rightarrow> walk_state \<Rightarrow> bool" where
  "walk_inv source cur ws \<longleftrightarrow>
     (let E = set (ws_edges ws); F = ws_frontier ws; V = ws_visited ws
      in nodes_ok V E cur F \<and> depths_ok E cur \<and> bounds_ok E (cur @ F) \<and> links_ok V E
       \<and> hung_ok source E (cur @ F) \<and> flags_ok (ws_complete ws) (ws_cap_hit ws) E)"

text \<open>A row of the expanded node, leading to a visited node or to a new one.\<close>

lemma row_nodes:
  assumes "nodes_ok V E [(n, d)] F" "ed_node e = n"
  shows "nodes_ok V (insert e E) [(n, d)] F"
    and "p \<notin> V \<Longrightarrow> nodes_ok (insert p V) (insert e E) [(n, d)] (F @ [(p, k)])"
  using assms by (auto simp: nodes_ok_def)

lemma row_depths:
  assumes "depths_ok E [(n, d)]" "ed_node e = n" "ed_depth e = d" shows "depths_ok (insert e E) [(n, d)]"
proof -
  have "ed_depth f = d" if "f \<in> insert e E" "ed_node f = n" for f
    using that assms by (auto simp: depths_ok_def)
  then show ?thesis
    using assms(1,2) unfolding depths_ok_def by (metis fst_conv insertE list.set(1,2) empty_iff snd_conv)
qed

lemma row_hung:
  assumes "hung_ok source E ([(n, d)] @ F)" "ed_node e = n" "ed_depth e = d"
  shows "hung_ok source (insert e E) ([(n, d)] @ F)"
    and "ed_to e = Some p \<Longrightarrow> hung_ok source (insert e E) ([(n, d)] @ F @ [(p, d + 1)])"
proof -
  have m: "hung source (insert e E) x" if "hung source E x" for x
    using that by (rule hung_mono) auto
  have "hung source (insert e E) (p, d + 1)" if "ed_to e = Some p"
    using that assms(3) by (auto simp: hung_def)
  with m assms show "hung_ok source (insert e E) ([(n, d)] @ F)"
    and "ed_to e = Some p \<Longrightarrow> hung_ok source (insert e E) ([(n, d)] @ F @ [(p, d + 1)])"
    by (simp_all add: hung_ok_def)
qed

lemma walk_inv_edge:
  assumes i: "walk_inv source [(n, d)] ws" and e: "ed_node e = n" "ed_depth e = d"
    and v: "\<And>p. ed_to e = Some p \<Longrightarrow> p \<in> ws_visited ws"
    and c: "c \<longleftrightarrow> ws_complete ws \<or> ed_term e" "h \<longleftrightarrow> ws_cap_hit ws \<or> d = hop_cap"
  shows "walk_inv source [(n, d)] (ws\<lparr>ws_edges := ws_edges ws @ [e], ws_complete := c, ws_cap_hit := h\<rparr>)"
proof -
  let ?E = "set (ws_edges ws)"
  from i have p: "nodes_ok (ws_visited ws) ?E [(n, d)] (ws_frontier ws)" "depths_ok ?E [(n, d)]"
    "bounds_ok ?E ([(n, d)] @ ws_frontier ws)" "links_ok (ws_visited ws) ?E"
    "hung_ok source ?E ([(n, d)] @ ws_frontier ws)" "flags_ok (ws_complete ws) (ws_cap_hit ws) ?E"
    by (simp_all add: walk_inv_def Let_def)
  have "bounds_ok (insert e ?E) ([(n, d)] @ ws_frontier ws)" using p(3) e(2) by (simp add: bounds_ok_def)
  moreover have "links_ok (ws_visited ws) (insert e ?E)" using p(4) v by (simp add: links_ok_def)
  moreover have "flags_ok c h (insert e ?E)" using p(6) c e(2) by (auto simp: flags_ok_def)
  ultimately show ?thesis
    using row_nodes(1) [OF p(1) e(1)] row_depths [OF p(2) e] row_hung(1) [OF p(5) e]
    by (simp add: walk_inv_def Let_def)
qed

lemma walk_inv_push:
  assumes i: "walk_inv source [(n, d)] ws" and d: "d < hop_cap" and e: "ed_node e = n" "ed_depth e = d"
    and p: "ed_to e = Some q" "\<not> ed_term e" "q \<notin> ws_visited ws"
  shows "walk_inv source [(n, d)] (ws\<lparr>ws_edges := ws_edges ws @ [e], ws_visited := insert q (ws_visited ws),
    ws_frontier := ws_frontier ws @ [(q, d + 1)]\<rparr>)"
proof -
  let ?E = "set (ws_edges ws)"
  from i have j: "nodes_ok (ws_visited ws) ?E [(n, d)] (ws_frontier ws)" "depths_ok ?E [(n, d)]"
    "bounds_ok ?E ([(n, d)] @ ws_frontier ws)" "links_ok (ws_visited ws) ?E"
    "hung_ok source ?E ([(n, d)] @ ws_frontier ws)" "flags_ok (ws_complete ws) (ws_cap_hit ws) ?E"
    by (simp_all add: walk_inv_def Let_def)
  have "bounds_ok (insert e ?E) ([(n, d)] @ ws_frontier ws @ [(q, d + 1)])"
    using j(3) e(2) d by (auto simp: bounds_ok_def)
  moreover have "links_ok (insert q (ws_visited ws)) (insert e ?E)" using j(4) p(1) by (auto simp: links_ok_def)
  moreover have "flags_ok (ws_complete ws) (ws_cap_hit ws) (insert e ?E)"
    using j(6) p(2) e(2) d by (auto simp: flags_ok_def)
  ultimately show ?thesis
    using row_nodes(2) [OF j(1) e(1) p(3)] row_depths [OF j(2) e] row_hung(2) [OF j(5) e p(1)]
    by (simp add: walk_inv_def Let_def)
qed

section \<open>The steps keep it\<close>

lemma walk_state_upd:
  "ws\<lparr>ws_complete := c, ws_edges := es\<rparr> = ws\<lparr>ws_edges := es, ws_complete := c\<rparr>"
  "ws\<lparr>ws_cap_hit := c, ws_edges := es\<rparr> = ws\<lparr>ws_edges := es, ws_cap_hit := c\<rparr>"
  by simp_all

lemma via_edge_simps [simp]:
  "ed_node (via_edge st d n iface) = n" "ed_depth (via_edge st d n iface) = d" "\<not> ed_term (via_edge st d n iface)"
  by (simp_all add: via_edge_def plain_edge_def Let_def)

lemma broken_edge_simps [simp]:
  "ed_node (broken_edge d n r) = n" "ed_depth (broken_edge d n r) = d" "\<not> ed_term (broken_edge d n r)"
  "ed_to (broken_edge d n r) = None"
  by (simp_all add: broken_edge_def plain_edge_def)

lemma dev_edge_simps [simp]:
  "ed_node (dev_edge d n) = n" "ed_depth (dev_edge d n) = d" "ed_term (dev_edge d n)" "ed_to (dev_edge d n) = Some n"
  by (simp_all add: dev_edge_def plain_edge_def)

lemma cur_visited: "walk_inv source [(n, d)] ws \<Longrightarrow> n \<in> ws_visited ws"
  by (simp add: walk_inv_def nodes_ok_def Let_def)

lemma follow_hop_inv:
  assumes "walk_inv source [(n, d)] ws" "d < hop_cap"
  shows "walk_inv source [(n, d)] (follow_hop st n d nh ws)"
    and "n \<in> ed_node ` set (ws_edges (follow_hop st n d nh ws))"
proof -
  show "n \<in> ed_node ` set (ws_edges (follow_hop st n d nh ws))"
    by (cases nh) (auto simp: Let_def image_iff split: option.split)
  show "walk_inv source [(n, d)] (follow_hop st n d nh ws)"
  proof (cases nh)
    case (Dev i c p)
    have "walk_inv source [(n, d)] (ws\<lparr>ws_edges := ws_edges ws @ [dev_edge d n], ws_complete := True, ws_cap_hit := ws_cap_hit ws\<rparr>)"
      by (rule walk_inv_edge [OF assms(1)]) (use assms(2) cur_visited [OF assms(1)] in simp_all)
    with Dev show ?thesis by (simp add: walk_state_upd)
  next
    case (Via a i c p)
    let ?e = "via_edge st d n (nonempty i)"
    show ?thesis
    proof (cases "\<exists>q. ed_to ?e = Some q \<and> q \<notin> ws_visited ws")
      case True
      then obtain q where "ed_to ?e = Some q" "q \<notin> ws_visited ws" by blast
      with Via walk_inv_push [OF assms, of ?e q] show ?thesis by (simp add: Let_def)
    next
      case False
      then have "walk_inv source [(n, d)] (ws\<lparr>ws_edges := ws_edges ws @ [?e], ws_complete := ws_complete ws, ws_cap_hit := ws_cap_hit ws\<rparr>)"
        by (intro walk_inv_edge [OF assms(1)]) (use assms(2) in auto)
      with Via False show ?thesis by (auto simp: Let_def split: option.split)
    qed
  qed
qed

lemma follow_hops_inv:
  assumes "walk_inv source [(n, d)] ws" "d < hop_cap"
  shows "walk_inv source [(n, d)] (fold (follow_hop st n d) nhs ws)
    \<and> (nhs \<noteq> [] \<longrightarrow> n \<in> ed_node ` set (ws_edges (fold (follow_hop st n d) nhs ws)))"
  using assms
proof (induction nhs rule: rev_induct)
  case (snoc nh nhs)
  then have i: "walk_inv source [(n, d)] (fold (follow_hop st n d) nhs ws)" by simp
  show ?case using follow_hop_inv [OF i snoc.prems(2), of st nh] by (simp del: follow_hop.simps)
qed simp

lemma expand_node_inv:
  assumes "walk_inv source [(n, d)] ws"
  shows "walk_inv source [(n, d)] (expand_node world n d ws)
    \<and> n \<in> ed_node ` set (ws_edges (expand_node world n d ws))"
proof (cases "hop_cap \<le> d")
  case True
  then have "d = hop_cap" using assms by (auto simp: walk_inv_def bounds_ok_def Let_def)
  with walk_inv_edge [OF assms, of "broken_edge d n ''hop cap (24) reached''" "ws_complete ws" True] True
  show ?thesis by (simp add: expand_node_def add_edge_def walk_state_upd)
next
  case False
  have row: "walk_inv source [(n, d)] (add_edge (broken_edge d n r) us) \<and> n \<in> ed_node ` set (ws_edges (add_edge (broken_edge d n r) us))"
    if "walk_inv source [(n, d)] us" for r us
    using walk_inv_edge [OF that, of "broken_edge d n r" "ws_complete us" "ws_cap_hit us"] False
    by (simp add: add_edge_def)
  show ?thesis
  proof (cases "dispatch_hop (fst (world n)) n (snd (world n))")
    case (Inl reason)
    with False row [OF assms] show ?thesis by (simp add: expand_node_def)
  next
    case (Inr reply)
    let ?hops = "all_next_hops (th_routes reply)"
    have "walk_inv source [(n, d)] (fold (follow_hop (fst (world n)) n d) ?hops ws)
      \<and> (?hops \<noteq> [] \<longrightarrow> n \<in> ed_node ` set (ws_edges (fold (follow_hop (fst (world n)) n d) ?hops ws)))"
      using follow_hops_inv [OF assms] False by simp
    with False Inr row [OF assms] show ?thesis
      by (cases "?hops = []") (simp_all add: expand_node_def Let_def)
  qed
qed

text \<open>Popping the frontier makes its head the node being expanded; expanded, it is done.\<close>

lemma walk_inv_pop:
  assumes "walk_inv source [] ws" "ws_frontier ws = (n, d) # rest"
  shows "walk_inv source [(n, d)] (ws\<lparr>ws_frontier := rest\<rparr>)"
proof -
  let ?E = "set (ws_edges ws)"
  have j: "nodes_ok (ws_visited ws) ?E [] ((n, d) # rest)" "depths_ok ?E []"
    and r: "bounds_ok ?E ((n, d) # rest)" "links_ok (ws_visited ws) ?E"
    "hung_ok source ?E ((n, d) # rest)" "flags_ok (ws_complete ws) (ws_cap_hit ws) ?E"
    using assms by (simp_all add: walk_inv_def Let_def)
  have "nodes_ok (ws_visited ws) ?E [(n, d)] rest" using j(1) by (simp add: nodes_ok_def)
  moreover have "n \<notin> ed_node ` ?E" using j(1) by (simp add: nodes_ok_def)
  then have "ed_node e \<noteq> n" if "e \<in> ?E" for e using that by blast
  with j(2) have "depths_ok ?E [(n, d)]" unfolding depths_ok_def by fastforce
  ultimately show ?thesis using r by (simp add: walk_inv_def Let_def)
qed

lemma walk_inv_done:
  assumes "walk_inv source [(n, d)] ws" "n \<in> ed_node ` set (ws_edges ws)" shows "walk_inv source [] ws"
proof -
  let ?E = "set (ws_edges ws)"
  have j: "nodes_ok (ws_visited ws) ?E [(n, d)] (ws_frontier ws)" "depths_ok ?E [(n, d)]"
    and r: "bounds_ok ?E ((n, d) # ws_frontier ws)" "links_ok (ws_visited ws) ?E"
    "hung_ok source ?E ((n, d) # ws_frontier ws)" "flags_ok (ws_complete ws) (ws_cap_hit ws) ?E"
    using assms(1) by (simp_all add: walk_inv_def Let_def)
  have "ed_node ` ?E \<union> fst ` set ((n, d) # F) = ed_node ` ?E \<union> fst ` set F" for F :: "(string \<times> nat) list"
    using assms(2) by auto
  with j(1) have "nodes_ok (ws_visited ws) ?E [] (ws_frontier ws)" unfolding nodes_ok_def append.simps by simp
  moreover have "depths_ok ?E []" using j(2) unfolding depths_ok_def by fastforce
  ultimately show ?thesis using r by (simp add: walk_inv_def bounds_ok_def hung_ok_def Let_def)
qed

lemma walk_loop_inv:
  "walk_inv source [] ws \<Longrightarrow> walk_inv source [] (walk_loop world ws) \<and> ws_frontier (walk_loop world ws) = []"
proof (induction world ws rule: walk_loop.induct)
  case (1 world ws)
  show ?case
  proof (cases "ws_frontier ws")
    case Nil
    with 1(2) show ?thesis by (subst (1 2) walk_loop.simps) simp
  next
    case (Cons x rest)
    obtain n d where x: "x = (n, d)" by (cases x)
    let ?ws = "expand_node world n d (ws\<lparr>ws_frontier := rest\<rparr>)"
    have "walk_inv source [(n, d)] (ws\<lparr>ws_frontier := rest\<rparr>)"
      by (rule walk_inv_pop [OF 1(2)]) (simp add: Cons x)
    from expand_node_inv [OF this, of world] have "walk_inv source [] ?ws" by (blast intro: walk_inv_done)
    with 1(1) Cons x have "walk_inv source [] (walk_loop world ?ws) \<and> ws_frontier (walk_loop world ?ws) = []" by simp
    moreover have "walk_loop world ws = walk_loop world ?ws" by (subst walk_loop.simps) (simp add: Cons x)
    ultimately show ?thesis by simp
  qed
qed

lemma walk_edges_inv:
  fixes world source target prefix now
  defines "r \<equiv> walk world source target prefix now"
  shows "depths_ok (set (tr_edges r)) [] \<and> bounds_ok (set (tr_edges r)) []
    \<and> links_ok (ed_node ` set (tr_edges r)) (set (tr_edges r)) \<and> hung_ok source (set (tr_edges r)) []
    \<and> flags_ok (tr_complete r) (tr_cap_hit r) (set (tr_edges r))"
proof -
  let ?ws = "\<lparr>ws_edges = [], ws_visited = {source}, ws_frontier = [(source, 0)], ws_complete = False, ws_cap_hit = False\<rparr>"
  have "walk_inv source [] ?ws"
    by (simp add: walk_inv_def nodes_ok_def depths_ok_def bounds_ok_def links_ok_def hung_ok_def hung_def flags_ok_def Let_def)
  from walk_loop_inv [OF this, of world] show ?thesis
    by (auto simp: r_def walk_def walk_inv_def nodes_ok_def Let_def)
qed

lemma find_SomeD: "find P xs = Some x \<Longrightarrow> x \<in> set xs \<and> P x"
  by (auto simp: find_Some_iff)

section \<open>Properties\<close>


text \<open>The flags of a trace say what its rows show: complete exactly when some row is terminal,
  cut short exactly when some row is at the hop cap.\<close>

theorem trace_flags:
  "let r = walk world source target prefix now
   in (tr_complete r \<longleftrightarrow> (\<exists>e \<in> set (tr_edges r). ed_term e))
    \<and> (tr_cap_hit r \<longleftrightarrow> (\<exists>e \<in> set (tr_edges r). ed_depth e = 24))"
  using walk_edges_inv [of world source target prefix now] unfolding flags_ok_def hop_cap_def Let_def by blast

text \<open>A trace request is refused exactly when the source is missing or unknown, or no prefix
  is given and the destination is missing or never reported a loopback; a refusal leaves the
  cache alone.\<close>

theorem run_trace_refuses:
  "(case run_trace st world req before after now c of
      (Inl _, c') \<Rightarrow> c' = c \<and> (if tq_from req \<noteq> [] \<and> has_agent (as_workers st) (tq_from req)
        then nonempty (tq_prefix req) = None \<and> Option.bind (nonempty (tq_to req)) (loopback (as_workers st)) = None
        else True)
    | (Inr r, _) \<Rightarrow> has_agent (as_workers st) (tq_from req)
        \<and> (\<exists>p. trace_prefix (as_workers st) req = Inr p \<and> tr_prefix r = p))"
proof -
  have hit: "tr_prefix r = p" if "cache_get f p t c = (Some r, c')" for f p t r c'
    using that by (auto simp: cache_get_def Let_def find_Some_iff)
  show ?thesis
    using hit by (auto simp: run_trace_def trace_prefix_def walk_def Let_def split: option.splits sum.splits prod.splits)
qed

text \<open>A cached trace is served for the same source and prefix and for at most five seconds,
  and the cache never holds more than 32 results.\<close>

theorem trace_cache_bounded_and_fresh:
  assumes "length c \<le> cache_max"
  shows "length (snd (run_trace st world req before after now c)) \<le> cache_max
    \<and> (case fst (cache_get source prefix t c) of
         None \<Rightarrow> True
       | Some r \<Rightarrow> tr_prefix r = prefix \<and> (\<exists>u. (source, u, r) \<in> set c \<and> t \<le> u + cache_ttl))"
proof -
  have g: "length (snd (cache_get f p u c)) \<le> cache_max" for f p u
    using assms by (auto simp: cache_get_def Let_def intro: order_trans [OF length_filter_le])
  have p: "length (cache_put f r u d) \<le> cache_max" if "length d \<le> cache_max" for f r u d
    using that by (auto simp: cache_put_def cache_max_def)
  have "length (snd (run_trace st world req before after now c)) \<le> cache_max"
    using assms g p by (auto simp: run_trace_def Let_def split: sum.split prod.split option.split) (metis snd_conv)+
  moreover have "case fst (cache_get source prefix t c) of None \<Rightarrow> True
      | Some r \<Rightarrow> tr_prefix r = prefix \<and> (\<exists>u. (source, u, r) \<in> set c \<and> t \<le> u + cache_ttl)"
  proof (cases "fst (cache_get source prefix t c)")
    case (Some r)
    then obtain x where x: "find (\<lambda>(f, _, r). f = source \<and> tr_prefix r = prefix)
        (filter (\<lambda>(_, u, _). saturating_sub t u \<le> cache_ttl) c) = Some x" "r = (\<lambda>(_, _, r). r) x"
      by (auto simp: cache_get_def Let_def)
    note found = find_SomeD [OF x(1)]
    from found x(2) Some show ?thesis by (cases x) (auto simp: le_diff_conv add.commute)
  qed simp
  ultimately show ?thesis ..
qed

section \<open>A destination that is not checked\<close>

definition lan_route :: route_rep where
  "lan_route = \<lparr>rt_prefix = ''10.9.0.0/16'', rt_primary = None, rt_proto = None, rt_preference = None, rt_cost = None,
     rt_local_pref = None, rt_as_path = None, rt_next_hops = [Dev (Some ''eth0'') None None]\<rparr>"

text \<open>Any device route counts as the destination: a source that resolves the target to a route
  out of a local interface of its own is reported as the reached destination, with the loopback
  interface in the row, whatever node was asked for.\<close>

theorem any_device_route_completes:
  "let r = walk (\<lambda>_. (connected, Inr (RTrace ''hub-a'' ''id'' None ''10.9.0.7/32'' 0 [lan_route])))
         ''hub-a'' (Some ''hub-z'') ''10.9.0.7/32'' 100
   in tr_complete r \<and> map ed_to (tr_edges r) = [Some ''hub-a''] \<and> map ed_iface (tr_edges r) = [Some ''dummy_awg'']"
  by code_simp

section \<open>Witnesses\<close>

definition via_route :: route_rep where
  "via_route = lan_route\<lparr>rt_next_hops := [Via (Some ''10.0.0.2'') (Some ''awg0'') None None]\<rparr>"

definition via_world :: trace_world where
  "via_world = (\<lambda>_. (connected, Inr (RTrace ''hub-a'' ''id'' None ''10.9.0.7/32'' 0 [via_route])))"


theorem trace_cache_bounded_and_fresh_witness:
  "length (snd (run_trace connected via_world \<lparr>tq_from = ''hub-a'', tq_to = None, tq_prefix = Some ''10.9.0.7/32''\<rparr> 1 2 100 []))
     \<le> cache_max"
  by (rule conjunct1, rule trace_cache_bounded_and_fresh) (simp add: cache_max_def)

end
