(* ===== verification/MapGraph.thy ===== *)
theory MapGraph
  imports AppState "HOL-Library.List_Lexorder" "HOL-Library.Char_ord"
begin

text \<open>
  The graph of the dashboard (\<open>crates/controller/src/map.rs\<close>): cluster members, the endpoints of
  every measured link and of every link of the node directory nothing has measured yet. The
  ordered map of nodes is a hash map sorted by key at the end.
\<close>

section \<open>The graph\<close>

record graph_node =
  gn_id :: string
  gn_label :: string
  gn_group :: string

record graph_link =
  gl_from :: string
  gl_to :: string
  gl_interface :: string
  gl_rtt_ms :: "f64 option"
  gl_loss_pct :: "f64 option"
  gl_jitter_ms :: "f64 option"
  gl_tcp_mbps :: "f64 option"
  gl_udp_mbps :: "f64 option"
  gl_udp_jitter_ms :: "f64 option"
  gl_udp_loss_pct :: "f64 option"
  gl_util_mbps :: f64
  gl_state :: string
  gl_quality :: "string option"
  gl_ospf_cost :: "nat option"
  gl_ts :: nat
  gl_mark_loss_pct :: "f64 option"
  gl_mark_rate_mbps :: "f64 option"
  gl_implied_tcp_mbps :: "f64 option"
  gl_regime :: "string option"

definition unmeasured :: "link_key \<Rightarrow> graph_link" where
  "unmeasured key = \<lparr>gl_from = lk_from key, gl_to = lk_to key, gl_interface = lk_iface key,
     gl_rtt_ms = None, gl_loss_pct = None, gl_jitter_ms = None, gl_tcp_mbps = None, gl_udp_mbps = None,
     gl_udp_jitter_ms = None, gl_udp_loss_pct = None, gl_util_mbps = Fin 0, gl_state = ''quiet'', gl_quality = None,
     gl_ospf_cost = None, gl_ts = 0, gl_mark_loss_pct = None, gl_mark_rate_mbps = None,
     gl_implied_tcp_mbps = None, gl_regime = None\<rparr>"

fun state_name :: "probe_state \<Rightarrow> string" where
  "state_name Quiet = ''quiet''"
| "state_name Busy = ''busy''"
| "state_name Conflict = ''conflict''"

fun class_name :: "quality \<Rightarrow> string" where
  "class_name Good = ''good''"
| "class_name Acceptable = ''acceptable''"
| "class_name Poor = ''poor''"
| "class_name Bad = ''bad''"

definition measured_link :: "link_key \<times> quality_record \<Rightarrow> graph_link" where
  "measured_link = (\<lambda>(key, rec). \<lparr>gl_from = lk_from key, gl_to = lk_to key, gl_interface = lk_iface key,
     gl_rtt_ms = qr_rtt_ms rec, gl_loss_pct = qr_loss_pct rec, gl_jitter_ms = qr_jitter_ms rec,
     gl_tcp_mbps = qr_tcp_mbps rec, gl_udp_mbps = qr_udp_mbps rec, gl_udp_jitter_ms = qr_udp_jitter_ms rec,
     gl_udp_loss_pct = qr_udp_loss_pct rec, gl_util_mbps = qr_util_mbps rec, gl_state = state_name (qr_state rec),
     gl_quality = map_option class_name (qr_quality rec), gl_ospf_cost = qr_ospf_cost rec, gl_ts = qr_ts rec,
     gl_mark_loss_pct = qr_mark_loss_pct rec, gl_mark_rate_mbps = qr_mark_rate_mbps rec,
     gl_implied_tcp_mbps = qr_implied_tcp_mbps rec, gl_regime = map_option regime_label (qr_regime rec)\<rparr>)"

type_synonym graph_nodes = "(string, graph_node) hmap"

definition or_insert_node :: "config \<Rightarrow> string \<Rightarrow> graph_nodes \<Rightarrow> graph_nodes" where
  "or_insert_node cfg i m =
     (if hm_has m i then m
      else hm_insert i \<lparr>gn_id = i, gn_label = i, gn_group = if is_hub cfg i then ''hub'' else ''spoke''\<rparr> m)"

definition add_endpoints :: "config \<Rightarrow> link_key \<Rightarrow> graph_nodes \<Rightarrow> graph_nodes" where
  "add_endpoints cfg key m = or_insert_node cfg (lk_to key) (or_insert_node cfg (lk_from key) m)"

definition hub_nodes :: "config \<Rightarrow> graph_nodes" where
  "hub_nodes cfg = fold (\<lambda>name. hm_insert name \<lparr>gn_id = name, gn_label = name, gn_group = ''hub''\<rparr>)
     (filter (is_hub cfg) (cf_members cfg)) []"

text \<open>The links of the directory without a record, in the order of the loop.\<close>

definition unmeasured_keys :: "app_state \<Rightarrow> link_key list" where
  "unmeasured_keys st =
     (let measured = set (map fst (kv_all (as_kv st)))
      in concat (map (\<lambda>(_, e). filter (\<lambda>k. k \<notin> measured) (ne_links e)) (kv_nodes (as_kv st))))"

definition graph_part :: "app_state \<Rightarrow> graph_node list \<times> graph_link list" where
  "graph_part st =
     (let cfg = as_cfg st; records = kv_all (as_kv st); keys = unmeasured_keys st;
          nodes = fold (add_endpoints cfg) keys (hub_nodes cfg);
          nodes = fold (add_endpoints cfg) (map fst records) nodes
      in (map snd (sort_key fst nodes), map unmeasured keys @ map measured_link records))"

section \<open>Lemmas\<close>

text \<open>Every node is stored under its id with the group of the configuration.\<close>

definition nodes_named :: "config \<Rightarrow> graph_nodes \<Rightarrow> bool" where
  "nodes_named cfg m \<longleftrightarrow> hm_ok m \<and> (\<forall>(k, n) \<in> set m. n = \<lparr>gn_id = k, gn_label = k,
     gn_group = if is_hub cfg k then ''hub'' else ''spoke''\<rparr>)"

lemma nodes_named_or_insert: "nodes_named cfg m \<Longrightarrow> nodes_named cfg (or_insert_node cfg i m)"
  by (auto simp: nodes_named_def or_insert_node_def hm_in_set_insert)

lemma keys_insert: "fst ` set (hm_insert k v m) = insert k (fst ` set m)"
  by (simp add: set_eq_iff hm_keys) 

lemma keys_or_insert: "fst ` set (or_insert_node cfg i m) = insert i (fst ` set m)"
  by (auto simp: or_insert_node_def keys_insert hm_has_def set_eq_iff hm_keys)

lemma nodes_named_endpoints:
  "nodes_named cfg m \<Longrightarrow> nodes_named cfg (fold (add_endpoints cfg) ks m)"
  by (induction ks arbitrary: m) (simp_all add: add_endpoints_def nodes_named_or_insert)

lemma keys_endpoints:
  "fst ` set (fold (add_endpoints cfg) ks m) = fst ` set m \<union> lk_from ` set ks \<union> lk_to ` set ks"
  by (induction ks arbitrary: m) (auto simp: add_endpoints_def keys_or_insert)

lemma nodes_named_fold:
  "nodes_named cfg m \<Longrightarrow> \<forall>i \<in> set is. is_hub cfg i \<Longrightarrow>
   nodes_named cfg (fold (\<lambda>i. hm_insert i \<lparr>gn_id = i, gn_label = i, gn_group = ''hub''\<rparr>) is m)"
proof (induction "is" arbitrary: m)
  case (Cons i "is")
  have "nodes_named cfg (hm_insert i \<lparr>gn_id = i, gn_label = i, gn_group = ''hub''\<rparr> m)"
    using Cons.prems by (auto simp: nodes_named_def hm_in_set_insert)
  then show ?case using Cons.prems by (simp add: Cons.IH)
qed simp

lemma keys_fold: "fst ` set (fold (\<lambda>i. hm_insert i (f i)) is m) = set is \<union> fst ` set m"
  by (induction "is" arbitrary: m) (auto simp: keys_insert)

lemma hub_nodes_named: "nodes_named cfg (hub_nodes cfg)"
  unfolding hub_nodes_def by (rule nodes_named_fold) (simp_all add: nodes_named_def hm_ok_def)

lemma hub_nodes_keys: "fst ` set (hub_nodes cfg) = {i \<in> set (cf_members cfg). is_hub cfg i}"
  by (auto simp: hub_nodes_def keys_fold)

lemma nodes_named_ids:
  assumes "nodes_named cfg m"
  shows "map gn_id (map snd (sort_key fst m)) = map fst (sort_key fst m)"
  using assms by (auto simp: nodes_named_def)

section \<open>Properties\<close>

text \<open>The graph is closed: its nodes are sorted by id without duplicates and are exactly the hub
  members of the configuration and the endpoints of the links, each grouped as the configuration
  says; its links are the directory's links nothing has measured, followed by one per record.\<close>
theorem graph_closed:
  "let (ns, ls) = graph_part st; cfg = as_cfg st in
     sorted (map gn_id ns) \<and> distinct (map gn_id ns)
     \<and> gn_id ` set ns = {i \<in> set (cf_members cfg). is_hub cfg i} \<union> gl_from ` set ls \<union> gl_to ` set ls
     \<and> map gn_group ns = map (\<lambda>n. if is_hub cfg (gn_id n) then ''hub'' else ''spoke'') ns
     \<and> map (\<lambda>l. \<lparr>lk_from = gl_from l, lk_to = gl_to l, lk_iface = gl_interface l\<rparr>) ls
       = unmeasured_keys st @ map fst (kv_all (as_kv st))"
proof -
  define cfg where "cfg = as_cfg st"
  define recs where "recs = kv_all (as_kv st)"
  define keys where "keys = unmeasured_keys st"
  define m where "m = fold (add_endpoints cfg) (map fst recs) (fold (add_endpoints cfg) keys (hub_nodes cfg))"
  define ls where "ls = map unmeasured keys @ map measured_link recs"
  have part: "graph_part st = (map snd (sort_key fst m), ls)"
    by (simp add: graph_part_def Let_def m_def ls_def cfg_def recs_def keys_def)
  have named: "nodes_named cfg m"
    unfolding m_def by (intro nodes_named_endpoints hub_nodes_named)
  have ids: "map gn_id (map snd (sort_key fst m)) = map fst (sort_key fst m)"
    using named by (rule nodes_named_ids)
  have ends: "gl_from ` set ls = lk_from ` set keys \<union> lk_from ` fst ` set recs"
    "gl_to ` set ls = lk_to ` set keys \<union> lk_to ` fst ` set recs"
    by (force simp: ls_def unmeasured_def measured_link_def image_Un image_image case_prod_unfold)+
  have "gn_id ` set (map snd (sort_key fst m)) = fst ` set m"
    using arg_cong [OF ids, of set] by (simp only: set_map) simp
  also have "\<dots> = {i \<in> set (cf_members cfg). is_hub cfg i} \<union> gl_from ` set ls \<union> gl_to ` set ls"
    unfolding m_def keys_endpoints hub_nodes_keys ends by auto
  finally have nodes: "gn_id ` set (map snd (sort_key fst m))
    = {i \<in> set (cf_members cfg). is_hub cfg i} \<union> gl_from ` set ls \<union> gl_to ` set ls" .
  have "distinct (map fst m)" using named by (simp add: nodes_named_def hm_ok_def)
  then have "distinct (map fst (sort_key fst m))"
    by (simp add: distinct_map)
  moreover have "map gn_group (map snd (sort_key fst m))
      = map (\<lambda>n. if is_hub cfg (gn_id n) then ''hub'' else ''spoke'') (map snd (sort_key fst m))"
    using named by (auto simp: nodes_named_def)
  moreover have "map (\<lambda>l. \<lparr>lk_from = gl_from l, lk_to = gl_to l, lk_iface = gl_interface l\<rparr>) ls = keys @ map fst recs"
    by (simp add: ls_def unmeasured_def measured_link_def case_prod_unfold comp_def map_idI)
  ultimately show ?thesis
    unfolding part Let_def prod.case cfg_def [symmetric] keys_def [symmetric] recs_def [symmetric] ids nodes
    by (simp add: sorted_sort_key)
qed

end
