(* ===== verification/PromText.thy ===== *)
theory PromText
  imports Prelude
begin

text \<open>
  The Prometheus text format as both daemons write it (\<open>api.rs\<close> of the controller, \<open>metrics.rs\<close> of
  the agent): escaping of label values, samples and blocks, and why a text whose names are escaped
  stays well-formed: series are unique and lines stay lines.
\<close>

section \<open>Samples\<close>

text \<open>A backslash, a double quote and a newline, and the three replacements of \<open>prom_label\<close>.\<close>

abbreviation (input) backslash :: char where "backslash \<equiv> CHR 0x5C"
abbreviation (input) dquote :: char where "dquote \<equiv> CHR 0x22"
abbreviation (input) newline :: char where "newline \<equiv> CHR 0x0A"

definition replace_char :: "char \<Rightarrow> string \<Rightarrow> string \<Rightarrow> string" where
  "replace_char c r s = concat (map (\<lambda>x. if x = c then r else [x]) s)"

definition prom_label :: "string \<Rightarrow> string" where
  "prom_label s = replace_char newline [backslash, CHR ''n'']
     (replace_char dquote [backslash, dquote] (replace_char backslash [backslash, backslash] s))"

definition label_pair :: "string \<Rightarrow> string \<Rightarrow> string" where
  "label_pair name v = name @ [CHR ''='', dquote] @ v @ [dquote]"

text \<open>A sample: the metric's name, its labels, its value. A block: its type line and samples.\<close>

type_synonym metric_sample = "string \<times> string \<times> string"
type_synonym metric_block = "string \<times> metric_sample list"

definition series_of :: "metric_sample \<Rightarrow> string" where
  "series_of = (\<lambda>(name, labels, _). name @ ''{'' @ labels @ ''}'')"

definition sample_line :: "metric_sample \<Rightarrow> string" where
  "sample_line s = series_of s @ '' '' @ snd (snd s)"

section \<open>Label escaping\<close>

text \<open>Reading an escaped value back, up to the closing quote.\<close>

fun unescape :: "string \<Rightarrow> (string \<times> string) option" where
  "unescape [] = None"
| "unescape [c] = (if c = dquote then Some ([], []) else None)"
| "unescape (c # d # r) =
     (if c = dquote then Some ([], d # r)
      else if c = backslash then map_option (\<lambda>(a, b). ((if d = CHR ''n'' then newline else d) # a, b)) (unescape r)
      else map_option (\<lambda>(a, b). (c # a, b)) (unescape (d # r)))"

definition escape_char :: "char \<Rightarrow> string" where
  "escape_char c = (if c = backslash then [backslash, backslash] else if c = dquote then [backslash, dquote]
     else if c = newline then [backslash, CHR ''n''] else [c])"

lemma replace_char_append [simp]: "replace_char c r (xs @ ys) = replace_char c r xs @ replace_char c r ys"
  by (simp add: replace_char_def)

lemma prom_label_append: "prom_label (xs @ ys) = prom_label xs @ prom_label ys"
  by (simp add: prom_label_def)

lemma prom_label_single: "prom_label [c] = escape_char c"
  by (auto simp: prom_label_def escape_char_def replace_char_def)

lemma prom_label_escape: "prom_label s = concat (map escape_char s)"
proof (induction s)
  case (Cons c s)
  with prom_label_append [of "[c]" s] show ?case by (simp add: prom_label_single)
qed (simp add: prom_label_def replace_char_def)

lemma unescape_escape_char:
  "r \<noteq> [] \<Longrightarrow> unescape (escape_char c @ r) = map_option (\<lambda>(a, b). (c # a, b)) (unescape r)"
  by (cases r) (auto simp: escape_char_def)

lemma unescape_prom_label: "unescape (prom_label s @ dquote # r) = Some (s, r)"
  unfolding prom_label_escape
proof (induction s)
  case Nil
  show ?case by (cases r) simp_all
next
  case (Cons c s)
  have "unescape (escape_char c @ concat (map escape_char s) @ dquote # r) = Some (c # s, r)"
    by (subst unescape_escape_char) (simp_all add: Cons)
  then show ?case by simp
qed

lemma label_pair_cancel [simp]:
  "label_pair n (prom_label v) @ r = label_pair n (prom_label v') @ r' \<longleftrightarrow> v = v' \<and> r = r'"
proof
  assume "label_pair n (prom_label v) @ r = label_pair n (prom_label v') @ r'"
  then have "prom_label v @ dquote # r = prom_label v' @ dquote # r'" by (simp add: label_pair_def)
  then have "unescape (prom_label v @ dquote # r) = unescape (prom_label v' @ dquote # r')"
    by (rule arg_cong)
  then show "v = v' \<and> r = r'" by (simp only: unescape_prom_label) simp
qed simp

lemma label_pair_inject: "label_pair n v = label_pair n v' \<longleftrightarrow> v = v'"
  by (simp add: label_pair_def)

section \<open>Series are unique\<close>

definition brace_free :: "string \<Rightarrow> bool" where
  "brace_free s \<longleftrightarrow> CHR 0x7B \<notin> set s"

text \<open>The samples of a block carry its metric's name and distinct labels.\<close>

definition block_named :: "string \<Rightarrow> metric_block \<Rightarrow> bool" where
  "block_named name b \<longleftrightarrow> brace_free name \<and> (\<forall>s \<in> set (snd b). fst s = name)
     \<and> distinct (map (\<lambda>s. fst (snd s)) (snd b))"

lemma series_of_inject:
  assumes "brace_free (fst a)" "brace_free (fst b)"
  shows "series_of a = series_of b \<longleftrightarrow> fst a = fst b \<and> fst (snd a) = fst (snd b)"
proof
  assume eq: "series_of a = series_of b"
  have s: "split_once CHR 0x7B (series_of c) = Some (fst c, fst (snd c) @ ''}'')" if "brace_free (fst c)" for c
    using that split_once_append [of "CHR 0x7B" "fst c" "fst (snd c) @ ''}''"]
    by (simp add: series_of_def brace_free_def case_prod_unfold)
  from s [OF assms(1)] s [OF assms(2)] eq show "fst a = fst b \<and> fst (snd a) = fst (snd b)" by simp
qed (simp add: series_of_def case_prod_unfold)

lemma block_series_distinct:
  assumes "block_named name b" shows "distinct (map series_of (snd b))"
proof -
  have "inj_on series_of (set (snd b))"
  proof (rule inj_onI)
    fix x y assume xy: "x \<in> set (snd b)" "y \<in> set (snd b)" and eq: "series_of x = series_of y"
    have n: "fst x = name" "fst y = name" and "brace_free name" using xy assms by (auto simp: block_named_def)
    with eq have "fst (snd x) = fst (snd y)" by (simp add: series_of_inject)
    moreover have "distinct (map (\<lambda>s. fst (snd s)) (snd b))" using assms by (simp add: block_named_def)
    ultimately show "x = y" using xy by (auto simp: distinct_map dest: inj_onD)
  qed
  moreover have "distinct (snd b)" using assms by (auto simp: block_named_def distinct_map)
  ultimately show ?thesis by (simp add: distinct_map)
qed

lemma blocks_series_distinct:
  assumes "list_all2 block_named names bs" "distinct names"
  shows "distinct (map series_of (concat (map snd bs)))"
  using assms
proof (induction rule: list_all2_induct)
  case (Cons n ns b bs)
  have apart: "series_of x \<noteq> series_of y" if x: "x \<in> set (snd b)" and c: "c \<in> set bs" and y: "y \<in> set (snd c)" for x y c
  proof -
    obtain m where m: "m \<in> set ns" "block_named m c"
      using Cons.hyps(2) c by (metis in_set_conv_nth list_all2_conv_all_nth)
    have "n \<noteq> m" using Cons.prems m(1) by auto
    with x y m Cons.hyps(1) show ?thesis by (auto simp: block_named_def series_of_inject)
  qed
  have "distinct (map series_of (concat (map snd bs)))" using Cons by simp
  with apart block_series_distinct [OF Cons.hyps(1)] show ?case by fastforce
qed simp

lemma distinct_concat_keys:
  assumes "distinct (map fst xs)" "\<And>k v. distinct (f k v)"
    "\<And>k v k' v' z. z \<in> set (f k v) \<Longrightarrow> z \<in> set (f k' v') \<Longrightarrow> k = k'"
  shows "distinct (concat (map (\<lambda>(k, v). f k v) xs))"
  using assms(1)
proof (induction xs)
  case (Cons x xs)
  obtain k v where x: "x = (k, v)" by (cases x)
  have "set (f k v) \<inter> set (concat (map (\<lambda>(k, v). f k v) xs)) = {}"
    using Cons.prems assms(3) by (force simp: x)
  with Cons show ?case by (simp add: x assms(2))
qed simp

lemma map_concat_keys: "map g (concat (map (\<lambda>(k, v). f k v) xs)) = concat (map (\<lambda>(k, v). map g (f k v)) xs)"
  by (simp add: map_concat case_prod_unfold comp_def)

section \<open>Lines stay lines\<close>

definition one_line :: "string \<Rightarrow> bool" where
  "one_line s \<longleftrightarrow> list_all (\<lambda>c. c \<noteq> newline) s"

lemma one_line_append [simp]: "one_line (a @ b) \<longleftrightarrow> one_line a \<and> one_line b"
  by (simp add: one_line_def)

lemma one_line_Cons [simp]: "one_line (c # b) \<longleftrightarrow> c \<noteq> newline \<and> one_line b"
  by (simp add: one_line_def)

lemma one_line_Nil [simp]: "one_line []"
  by (simp add: one_line_def)

lemma one_line_concat: "one_line (concat xs) \<longleftrightarrow> list_all one_line xs"
  by (induction xs) simp_all

lemma prom_label_one_line [simp]: "one_line (prom_label s)"
  by (auto simp: prom_label_escape one_line_concat list_all_iff escape_char_def)

lemma show_nat_one_line [simp]: "one_line (show_nat n)"
proof (induction n rule: show_nat.induct)
  case (1 n)
  have "(char_of (48 + n mod 10) :: char) \<noteq> newline"
  proof
    assume "(char_of (48 + n mod 10) :: char) = newline"
    then have "(of_char (char_of (48 + n mod 10) :: char) :: nat) = of_char newline" by simp
    moreover have "48 + n mod 10 < 256" using mod_less_divisor [of 10 n] by linarith
    ultimately show False by simp
  qed
  with 1 show ?case by (subst show_nat.simps) simp
qed

definition block_intact :: "metric_block \<Rightarrow> bool" where
  "block_intact b \<longleftrightarrow> one_line (fst b) \<and> list_all (\<lambda>(n, l, v). one_line n \<and> one_line l \<and> one_line v) (snd b)"

lemma block_lines:
  "block_intact b \<Longrightarrow> list_all one_line (case b of (head, samples) \<Rightarrow> head # map sample_line samples)"
  by (auto simp: block_intact_def list_all_iff case_prod_unfold sample_line_def series_of_def)

end
