(* ===== verification/Api.thy ===== *)
theory Api
  imports Session Trace MapGraph PromText
begin

text \<open>
  The admin interface of the controller (\<open>crates/controller/src/api.rs\<close>): the handlers, each a
  function of the shared state and its query, and the text of the metrics endpoint. Routing,
  JSON encoding and the files of the dashboard belong to the HTTP library. The decimal spelling
  of a float and the three build constants are arguments.
\<close>

section \<open>Requests and responses\<close>

datatype 'a response = Http_ok 'a | Bad_request string | Not_found string | Unavailable string

record quality_req =
  rr_link :: link_key
  rr_ts :: "nat option"
  rr_rtt_ms :: "f64 option"
  rr_loss_pct :: "f64 option"
  rr_jitter_ms :: "f64 option"
  rr_tcp_mbps :: "f64 option"
  rr_udp_mbps :: "f64 option"
  rr_udp_jitter_ms :: "f64 option"
  rr_udp_loss_pct :: "f64 option"
  rr_util_mbps :: f64
  rr_state :: probe_state
  rr_token :: "string option"

record link_query =
  lq_from :: string
  lq_to :: string
  lq_interface :: string

record ts_query =
  sq_from :: string
  sq_to :: string
  sq_interface :: string
  sq_since :: "nat option"
  sq_until :: "nat option"

record policy_resp =
  po_link :: link_key
  po_quality :: "quality option"
  po_ospf_cost :: "nat option"
  po_ts :: nat

record status_resp =
  ss_node :: string
  ss_ready :: bool
  ss_uptime_secs :: nat
  ss_links :: nat
  ss_leases :: "lease list"
  ss_members :: "string list"
  ss_peers :: "(string \<times> peer_health_entry) list"
  ss_agents :: "string list"
  ss_nodes :: "(string \<times> node_entry) list"

section \<open>Handlers\<close>

definition post_quality :: "nat \<Rightarrow> quality_req \<Rightarrow> app_state \<Rightarrow> bool \<times> app_state" where
  "post_quality now req st =
     (True, ingest_quality now \<lparr>me_link = rr_link req, me_ts = rr_ts req, me_rtt_ms = rr_rtt_ms req,
        me_loss_pct = rr_loss_pct req, me_jitter_ms = rr_jitter_ms req, me_tcp_mbps = rr_tcp_mbps req,
        me_udp = (rr_udp_mbps req, rr_udp_jitter_ms req, rr_udp_loss_pct req),
        me_util_mbps = rr_util_mbps req, me_probe_state = rr_state req, me_token = rr_token req\<rparr> st)"

definition frontend_graph :: "app_state \<Rightarrow> graph_node list \<times> graph_link list \<times> string list" where
  "frontend_graph st = (let (nodes, links) = graph_part st in (nodes, links, agents (as_workers st)))"

definition healthz :: "string response" where
  "healthz = Http_ok (''ok'' @ [CHR 0x0A])"

definition readyz :: "app_state \<Rightarrow> string response" where
  "readyz st = (if as_ready st then Http_ok (''ready'' @ [CHR 0x0A]) else Unavailable (''not ready'' @ [CHR 0x0A]))"

definition get_quality_all :: "app_state \<Rightarrow> (link_key \<times> quality_record) list" where
  "get_quality_all st = kv_all (as_kv st)"

definition get_quality :: "app_state \<Rightarrow> link_query \<Rightarrow> quality_record response" where
  "get_quality st q =
     (case kv_get (as_kv st) (new_link (lq_from q) (lq_to q) (lq_interface q)) of
        Some rec \<Rightarrow> Http_ok rec
      | None \<Rightarrow> Not_found ''not found'')"

definition get_policy :: "app_state \<Rightarrow> link_query \<Rightarrow> policy_resp response" where
  "get_policy st q =
     (let key = new_link (lq_from q) (lq_to q) (lq_interface q)
      in case kv_get (as_kv st) key of
           Some rec \<Rightarrow> Http_ok \<lparr>po_link = key, po_quality = qr_quality rec, po_ospf_cost = qr_ospf_cost rec,
             po_ts = qr_ts rec\<rparr>
         | None \<Rightarrow> Not_found ''not found'')"

definition peer_snapshot :: "peer_health \<Rightarrow> (string \<times> peer_health_entry) list" where
  "peer_snapshot m = m"

definition get_status :: "app_state \<Rightarrow> nat \<Rightarrow> status_resp" where
  "get_status st uptime = \<lparr>ss_node = cf_node (as_cfg st), ss_ready = as_ready st, ss_uptime_secs = uptime,
     ss_links = kv_len (as_kv st), ss_leases = leases (as_fence st), ss_members = cf_members (as_cfg st),
     ss_peers = peer_snapshot (as_peers st), ss_agents = agents (as_workers st),
     ss_nodes = kv_nodes (as_kv st)\<rparr>"

definition get_trace ::
  "app_state \<Rightarrow> trace_world \<Rightarrow> trace_request \<Rightarrow> nat \<Rightarrow> nat \<Rightarrow> nat \<Rightarrow> trace_cache
    \<Rightarrow> trace_result response \<times> trace_cache" where
  "get_trace st world req before after now c =
     (case run_trace st world req before after now c of
        (Inr r, c') \<Rightarrow> (Http_ok r, c')
      | (Inl (BadRequest msg), c') \<Rightarrow> (Bad_request msg, c'))"

definition ts_window :: "nat \<Rightarrow> ts_query \<Rightarrow> nat \<times> nat" where
  "ts_window now q =
     (let until = (case sq_until q of Some u \<Rightarrow> u | None \<Rightarrow> now);
          since = (case sq_since q of Some s \<Rightarrow> s | None \<Rightarrow> saturating_sub until 3600)
      in (since, until))"

definition get_ts :: "app_state \<Rightarrow> nat \<Rightarrow> ts_query \<Rightarrow> ts_query_resp response" where
  "get_ts st now q =
     (let (since, until) = ts_window now q
      in if until < since then Bad_request ''since must be <= until''
         else Http_ok (tsdb_query (as_tsdb st) (new_link (sq_from q) (sq_to q) (sq_interface q)) since until))"

section \<open>The metrics text\<close>

definition labels_of :: "link_key \<Rightarrow> string" where
  "labels_of key = label_pair ''from'' (prom_label (lk_from key)) @ '','' @ label_pair ''to'' (prom_label (lk_to key))
     @ '','' @ label_pair ''iface'' (prom_label (lk_iface key))"

definition link_series :: "(string \<times> (quality_record \<Rightarrow> f64 option)) list" where
  "link_series =
     [(''mielofon_link_rtt_ms'', qr_rtt_ms),
      (''mielofon_link_loss_pct'', qr_loss_pct),
      (''mielofon_link_jitter_ms'', qr_jitter_ms),
      (''mielofon_link_tcp_mbps'', qr_tcp_mbps),
      (''mielofon_link_udp_mbps'', qr_udp_mbps),
      (''mielofon_link_udp_jitter_ms'', qr_udp_jitter_ms),
      (''mielofon_link_udp_loss_pct'', qr_udp_loss_pct),
      (''mielofon_link_quality'', \<lambda>r. map_option (\<lambda>q. Fin (of_nat (quality_label_value q))) (qr_quality r)),
      (''mielofon_link_ospf_cost'', \<lambda>r. map_option (\<lambda>c. Fin (of_nat c)) (qr_ospf_cost r)),
      (''mielofon_link_mark_loss_pct'', qr_mark_loss_pct),
      (''mielofon_link_mark_rate_mbps'', qr_mark_rate_mbps),
      (''mielofon_link_implied_tcp_mbps'', qr_implied_tcp_mbps)]"

definition gauge_block ::
  "(f64 \<Rightarrow> string) \<Rightarrow> (link_key \<times> quality_record) list \<Rightarrow> string \<times> (quality_record \<Rightarrow> f64 option)
    \<Rightarrow> metric_block" where
  "gauge_block show records = (\<lambda>(name, get).
     (''# TYPE '' @ name @ '' gauge'',
      concat (map (\<lambda>(key, rec). case get rec of Some v \<Rightarrow> [(name, labels_of key, show v)] | None \<Rightarrow> []) records)))"

definition regime_shapes :: "regime list" where
  "regime_shapes = [Clean, Sparse, Bursty, SizeSelective, UnderTest]"

definition regime_block :: "(link_key \<times> quality_record) list \<Rightarrow> metric_block" where
  "regime_block records =
     (''# TYPE mielofon_link_regime gauge'',
      concat (map (\<lambda>(key, rec). case qr_regime rec of
          Some cur \<Rightarrow> map (\<lambda>shape. (''mielofon_link_regime'',
              labels_of key @ '','' @ label_pair ''shape'' (regime_label shape),
              if shape = cur then ''1'' else ''0'')) regime_shapes
        | None \<Rightarrow> []) records))"

definition band_block :: "string \<Rightarrow> (mark_totals \<Rightarrow> nat) \<Rightarrow> (mark_totals \<Rightarrow> nat) \<Rightarrow> (link_key \<times> mark_totals) list
    \<Rightarrow> metric_block" where
  "band_block name small large totals =
     (''# TYPE '' @ name @ '' counter'',
      concat (map (\<lambda>(key, t). [(name, labels_of key @ '','' @ label_pair ''band'' ''s'', show_nat (small t)),
          (name, labels_of key @ '','' @ label_pair ''band'' ''l'', show_nat (large t))]) totals))"

definition changes_block :: "(link_key \<times> mark_totals) list \<Rightarrow> metric_block" where
  "changes_block totals =
     (''# TYPE mielofon_link_regime_changes_total counter'',
      map (\<lambda>(key, t). (''mielofon_link_regime_changes_total'', labels_of key, show_nat (mt_regime_changes t))) totals)"

definition metric_blocks :: "(f64 \<Rightarrow> string) \<Rightarrow> app_state \<Rightarrow> metric_block list" where
  "metric_blocks show st =
     (let records = kv_all (as_kv st); totals = cs_totals (as_classifier st)
      in map (gauge_block show records) link_series @
         [regime_block records,
          band_block ''mielofon_link_mark_sent_total'' mt_sent_s mt_sent_l totals,
          band_block ''mielofon_link_mark_lost_total'' mt_lost_s mt_lost_l totals,
          changes_block totals])"

definition counter_lines :: "string \<Rightarrow> string \<Rightarrow> string \<Rightarrow> nat \<Rightarrow> string list" where
  "counter_lines name what kind n =
     [''# HELP '' @ name @ '' '' @ what, ''# TYPE '' @ name @ '' '' @ kind, name @ '' '' @ show_nat n]"

definition global_lines :: "string \<Rightarrow> string \<Rightarrow> string \<Rightarrow> app_state \<Rightarrow> string list" where
  "global_lines version revision rustc st =
     counter_lines ''mielofon_quality_reports_total'' ''quality reports accepted'' ''counter'' (as_reports st) @
     counter_lines ''mielofon_probe_failures_total'' ''probe replies that carried a failure note'' ''counter''
       (as_probe_failures st) @
     counter_lines ''mielofon_scheduler_throughput_skipped_total''
       ''throughput tests skipped on passive proof'' ''counter'' (as_throughput_skipped st) @
     counter_lines ''mielofon_links'' ''number of known links'' ''gauge'' (kv_len (as_kv st)) @
     counter_lines ''mielofon_agents'' ''number of registered agents'' ''gauge'' (wr_len (as_workers st)) @
     [''# HELP mielofon_build_info build and version information'',
      ''# TYPE mielofon_build_info gauge'',
      ''mielofon_build_info{'' @ label_pair ''version'' version @ '','' @ label_pair ''revision'' revision @ '',''
        @ label_pair ''rustc'' (prom_label rustc) @ ''} 1'']"

definition metrics :: "(f64 \<Rightarrow> string) \<Rightarrow> string \<Rightarrow> string \<Rightarrow> string \<Rightarrow> app_state \<Rightarrow> string list" where
  "metrics show version revision rustc st =
     global_lines version revision rustc st
     @ concat (map (\<lambda>(head, samples). head # map sample_line samples) (metric_blocks show st))"

section \<open>Labels of a link\<close>

lemma labels_of_cancel: "labels_of a @ r = labels_of b @ r' \<longleftrightarrow> a = b \<and> r = r'"
  by (cases a; cases b) (simp add: labels_of_def)

lemma labels_of_inject [simp]: "labels_of a = labels_of b \<longleftrightarrow> a = b"
  using labels_of_cancel [of a "[]" b "[]"] by simp

section \<open>Series are unique\<close>

lemma gauge_block_named:
  assumes "brace_free name" "distinct (map fst records)"
  shows "block_named name (gauge_block show records (name, get))"
proof -
  have "distinct (concat (map (\<lambda>(key, rec). map (\<lambda>s. fst (snd s))
      (case get rec of Some v \<Rightarrow> [(name, labels_of key, show v)] | None \<Rightarrow> [])) records))"
    by (rule distinct_concat_keys [OF assms(2)]) (auto split: option.splits)
  with assms(1) show ?thesis
    by (auto simp: block_named_def gauge_block_def map_concat_keys split: option.splits)
qed

lemma regime_block_named:
  assumes "distinct (map fst records)"
  shows "block_named ''mielofon_link_regime'' (regime_block records)"
proof -
  have "distinct (concat (map (\<lambda>(key, rec). map (\<lambda>s. fst (snd s))
      (case qr_regime rec of
          Some cur \<Rightarrow> map (\<lambda>shape. (''mielofon_link_regime'',
              labels_of key @ '','' @ label_pair ''shape'' (regime_label shape),
              if shape = cur then ''1'' else ''0'')) regime_shapes
        | None \<Rightarrow> [])) records))"
    by (rule distinct_concat_keys [OF assms])
      (auto simp: regime_shapes_def labels_of_cancel label_pair_inject split: option.splits)
  then show ?thesis
    by (auto simp: block_named_def regime_block_def map_concat_keys brace_free_def split: option.splits)
qed

lemma band_block_named:
  assumes "brace_free name" "distinct (map fst totals)"
  shows "block_named name (band_block name small large totals)"
proof -
  have "distinct (concat (map (\<lambda>(key, t). map (\<lambda>s. fst (snd s))
      [(name, labels_of key @ '','' @ label_pair ''band'' ''s'', show_nat (small t)),
       (name, labels_of key @ '','' @ label_pair ''band'' ''l'', show_nat (large t))]) totals))"
    by (rule distinct_concat_keys [OF assms(2)]) (auto simp: labels_of_cancel label_pair_inject)
  with assms(1) show ?thesis
    by (auto simp: block_named_def band_block_def map_concat_keys)
qed

lemma changes_block_named:
  assumes "distinct (map fst totals)"
  shows "block_named ''mielofon_link_regime_changes_total'' (changes_block totals)"
proof -
  have "map (\<lambda>s. fst (snd s)) (snd (changes_block totals)) = map labels_of (map fst totals)"
    by (simp add: changes_block_def case_prod_unfold)
  moreover have "distinct (map labels_of (map fst totals))"
    using assms by (subst distinct_map) (simp add: inj_on_def)
  ultimately have "distinct (map (\<lambda>s. fst (snd s)) (snd (changes_block totals)))" by simp
  moreover have "\<forall>s \<in> set (snd (changes_block totals)). fst s = ''mielofon_link_regime_changes_total''"
    by (auto simp: changes_block_def)
  moreover have "brace_free ''mielofon_link_regime_changes_total''" by (simp add: brace_free_def)
  ultimately show ?thesis by (simp only: block_named_def)
qed

text \<open>The names of the blocks, written out.\<close>

definition block_names :: "string list" where
  "block_names = [''mielofon_link_rtt_ms'', ''mielofon_link_loss_pct'', ''mielofon_link_jitter_ms'',
     ''mielofon_link_tcp_mbps'', ''mielofon_link_udp_mbps'', ''mielofon_link_udp_jitter_ms'',
     ''mielofon_link_udp_loss_pct'', ''mielofon_link_quality'', ''mielofon_link_ospf_cost'',
     ''mielofon_link_mark_loss_pct'', ''mielofon_link_mark_rate_mbps'', ''mielofon_link_implied_tcp_mbps'',
     ''mielofon_link_regime'', ''mielofon_link_mark_sent_total'', ''mielofon_link_mark_lost_total'',
     ''mielofon_link_regime_changes_total'']"

lemma block_names_ok: "distinct block_names" "list_all brace_free block_names"
  by (simp_all add: block_names_def brace_free_def)

lemma metric_blocks_named:
  assumes r: "distinct (map fst (kv_all (as_kv st)))" and t: "hm_ok (cs_totals (as_classifier st))"
  shows "list_all2 block_named block_names (metric_blocks show st)"
proof -
  have f: "list_all brace_free block_names" by (rule block_names_ok)
  note free = f [unfolded block_names_def list.pred_inject, THEN conjunct1]
  have b: "brace_free n" if "n \<in> set block_names" for n
    using f that by (simp only: list_all_iff)
  have g: "block_named n (gauge_block show (kv_all (as_kv st)) (n, get))" if "n \<in> set block_names" for n get
    by (rule gauge_block_named [OF b [OF that] r])
  have d: "block_named n (band_block n small large (cs_totals (as_classifier st)))" if "n \<in> set block_names"
    for n small large
    by (rule band_block_named [OF b [OF that]]) (use t in \<open>simp only: hm_ok_def\<close>)
  note c = changes_block_named [OF t [unfolded hm_ok_def]] and g' = g [unfolded block_names_def]
    and d' = d [unfolded block_names_def]
  show ?thesis
    unfolding metric_blocks_def block_names_def Let_def link_series_def list.map append.simps
    by (intro list_all2_Cons [THEN iffD2] conjI list_all2_Nil [THEN iffD2] TrueI g' d' regime_block_named [OF r] c)
      (simp_all only: list.set insert_iff simp_thms)
qed

section \<open>Lines stay lines\<close>

lemma labels_of_one_line [simp]: "one_line (labels_of key)"
  by (simp add: labels_of_def label_pair_def)

lemma regime_label_one_line [simp]: "one_line (regime_label r)"
  by (cases r) simp_all

lemma gauge_block_intact:
  "\<forall>v. one_line (show v) \<Longrightarrow> one_line n \<Longrightarrow> block_intact (gauge_block show rs (n, get))"
  by (auto simp: block_intact_def gauge_block_def list_all_iff split: option.splits)

lemma regime_block_intact: "block_intact (regime_block rs)"
  by (auto simp: block_intact_def regime_block_def list_all_iff label_pair_def split: option.splits)

lemma band_block_intact: "one_line name \<Longrightarrow> block_intact (band_block name small large totals)"
  by (auto simp: block_intact_def band_block_def list_all_iff label_pair_def)

lemma changes_block_intact: "block_intact (changes_block totals)"
  by (auto simp: block_intact_def changes_block_def list_all_iff)

lemma link_series_lines: "list_all (\<lambda>(n, get). one_line n) link_series"
  by (simp add: link_series_def)

lemma metric_blocks_intact:
  assumes "\<forall>v. one_line (show v)"
  shows "list_all block_intact (metric_blocks show st)"
proof -
  have "list_all block_intact (map (gauge_block show (kv_all (as_kv st))) link_series)"
    using link_series_lines gauge_block_intact [OF assms] by (auto simp: list_all_iff)
  then show ?thesis
    by (simp add: metric_blocks_def Let_def regime_block_intact band_block_intact changes_block_intact)
qed

lemma global_lines_intact:
  "one_line version \<Longrightarrow> one_line revision \<Longrightarrow> list_all one_line (global_lines version revision rustc st)"
  by (simp add: global_lines_def counter_lines_def label_pair_def)

section \<open>Properties\<close>

text \<open>C39: whatever the names of nodes and interfaces are, the metrics text keeps its form: no series
  (metric name and labels) appears twice, and no name breaks a line.\<close>
theorem metrics_well_formed:
  assumes "kv_ok (as_kv st)" "hm_ok (cs_totals (as_classifier st))"
    "\<forall>v. one_line (show v)" "one_line version" "one_line revision"
  shows "distinct (map series_of (concat (map snd (metric_blocks show st))))
    \<and> list_all one_line (metrics show version revision rustc st)"
proof
  have "distinct (map fst (kv_all (as_kv st)))" using assms(1) by (simp add: kv_ok_def hm_ok_def kv_all_def)
  then show "distinct (map series_of (concat (map snd (metric_blocks show st))))"
    by (rule blocks_series_distinct [OF metric_blocks_named block_names_ok(1)]) (rule assms(2))
  have "list_all one_line (case b of (head, samples) \<Rightarrow> head # map sample_line samples)"
    if "b \<in> set (metric_blocks show st)" for b
    by (rule block_lines) (use metric_blocks_intact [OF assms(3), of st] that in \<open>simp only: list_all_iff\<close>)
  then show "list_all one_line (metrics show version revision rustc st)"
    using global_lines_intact [OF assms(4,5)] by (auto simp: metrics_def list_all_iff)
qed

text \<open>Two links towards a name made of a quote, a newline and a backslash.\<close>

definition hostile_link :: "string \<Rightarrow> link_key" where
  "hostile_link i = \<lparr>lk_from = ''a'', lk_to = [dquote, newline, backslash], lk_iface = i\<rparr>"

definition hostile_state :: app_state where
  "hostile_state = (app_state_new config_default)\<lparr>as_kv :=
     snd (kv_put (hostile_link ''t1'') ((rec_at 2)\<lparr>qr_regime := Some Clean\<rparr>)
       (snd (kv_put (hostile_link ''t0'') ((rec_at 1)\<lparr>qr_regime := Some Bursty\<rparr>) lww_new)))\<rparr>"

theorem metrics_well_formed_witness:
  "(distinct (map series_of (concat (map snd (metric_blocks (\<lambda>_. ''0'') hostile_state))))
     \<and> list_all one_line (metrics (\<lambda>_. ''0'') ''1.0'' ''abc'' ''rustc'' hostile_state))
   \<and> map (snd \<circ> snd) (snd (regime_block (kv_all (as_kv hostile_state))))
     = [''0'', ''0'', ''1'', ''0'', ''0'', ''1'', ''0'', ''0'', ''0'', ''0'']"
proof
  show "distinct (map series_of (concat (map snd (metric_blocks (\<lambda>_. ''0'') hostile_state))))
     \<and> list_all one_line (metrics (\<lambda>_. ''0'') ''1.0'' ''abc'' ''rustc'' hostile_state)"
    by (rule metrics_well_formed)
      (simp_all add: hostile_state_def app_state_new_def classifier_state_new_def one_line_def hm_ok_def)
  show "map (snd \<circ> snd) (snd (regime_block (kv_all (as_kv hostile_state))))
     = [''0'', ''0'', ''1'', ''0'', ''0'', ''1'', ''0'', ''0'', ''0'', ''0'']"
    by code_simp
qed

text \<open>The history query refuses exactly an explicit start after the end of the window; a window
  left out is the hour before its end.\<close>
lemma get_ts_window:
  "get_ts st now q =
     (let until = case_option now id (sq_until q); link = new_link (sq_from q) (sq_to q) (sq_interface q)
      in case sq_since q of
           None \<Rightarrow> Http_ok (tsdb_query (as_tsdb st) link (until - 3600) until)
         | Some since \<Rightarrow> if since \<le> until then Http_ok (tsdb_query (as_tsdb st) link since until)
             else Bad_request ''since must be <= until'')"
  by (auto simp: get_ts_def ts_window_def Let_def split: option.splits)

end
