(* ===== verification/Window.thy ===== *)
theory Window
  imports Proto "HOL-Library.Word"
begin

unbundle bit_operations_syntax

text \<open>
  The agent's ping statistics (\<open>crates/agent/src/window.rs\<close>) and the ICMP prober
  (\<open>crates/agent/src/icmp.rs\<close>): the rolling window of a link, the gate that pauses pings around
  throughput tests, one round of the ping loop and the echo packets. The reconciliation of the
  probed links with the discovered ones is in theory Agent. Instants and durations are nanoseconds.
  Sockets are outside: what a send or a receive returns is an argument of the round.
\<close>

section \<open>The rolling window\<close>

record window =
  wn_size :: nat
  wn_outcomes :: "f64 option list"
  wn_sent :: nat
  wn_received :: nat
  wn_lost :: nat

record snapshot =
  sn_rtt_ms :: "f64 option"
  sn_jitter_ms :: "f64 option"
  sn_loss_pct :: "f64 option"

definition snapshot_default :: snapshot where
  "snapshot_default = \<lparr>sn_rtt_ms = None, sn_jitter_ms = None, sn_loss_pct = None\<rparr>"

definition window_new :: "nat \<Rightarrow> window" where
  "window_new n = \<lparr>wn_size = max n 2, wn_outcomes = [], wn_sent = 0, wn_received = 0, wn_lost = 0\<rparr>"

fun pop_over :: "nat \<Rightarrow> 'a list \<Rightarrow> 'a list" where
  "pop_over n [] = []"
| "pop_over n (x # xs) = (if n < length (x # xs) then pop_over n xs else x # xs)"

definition window_push :: "f64 option \<Rightarrow> window \<Rightarrow> window" where
  "window_push outcome w = w\<lparr>wn_outcomes := pop_over (wn_size w) (wn_outcomes w @ [outcome])\<rparr>"

definition record_reply :: "f64 \<Rightarrow> window \<Rightarrow> window" where
  "record_reply rtt w = window_push (Some rtt) (w\<lparr>wn_received := add64 (wn_received w) 1\<rparr>)"

definition record_timeout :: "window \<Rightarrow> window" where
  "record_timeout w = window_push None (w\<lparr>wn_lost := add64 (wn_lost w) 1\<rparr>)"

definition powi2 :: "f64 \<Rightarrow> f64" where
  "powi2 x = f_mul x x"

definition mean_of :: "f64 list \<Rightarrow> f64 option" where
  "mean_of rtts = (if f_lt (Fin 0) (f_of_nat (length rtts))
     then Some (f_div (f_sum rtts) (f_of_nat (length rtts))) else None)"

definition jitter_of :: "f64 list \<Rightarrow> f64 option" where
  "jitter_of rtts = (case mean_of rtts of
      Some m \<Rightarrow> if 2 \<le> length rtts
        then Some (f_sqrt (f_div (f_sum (map (\<lambda>r. powi2 (f_sub r m)) rtts)) (f_of_nat (length rtts))))
        else None
    | None \<Rightarrow> None)"

definition loss_of :: "f64 option list \<Rightarrow> f64 option" where
  "loss_of outcomes = (if outcomes = [] then None
     else Some (f_div (f_mul (Fin 100) (f_of_nat (length (filter (\<lambda>x. x = None) outcomes))))
            (f_of_nat (length outcomes))))"

definition window_snapshot :: "window \<Rightarrow> snapshot" where
  "window_snapshot w =
     (let rtts = List.map_filter id (wn_outcomes w)
      in \<lparr>sn_rtt_ms = mean_of rtts, sn_jitter_ms = jitter_of rtts, sn_loss_pct = loss_of (wn_outcomes w)\<rparr>)"

text \<open>The kernel's stamp is a signed difference of realtime clocks; \<open>mono\<close> is a duration.\<close>

definition select_rtt :: "int option \<Rightarrow> nat \<Rightarrow> f64" where
  "select_rtt stamp span_ns =
     (case stamp of
        Some k \<Rightarrow> if 0 \<le> k \<and> k \<le> int span_ns then f_div (r64 (of_int k)) (Fin 1000000)
          else f_div (f_of_nat span_ns) (Fin 1000000)
      | None \<Rightarrow> f_div (f_of_nat span_ns) (Fin 1000000))"

section \<open>The gate\<close>

record gate =
  gt_running :: bool
  gt_until :: "nat option"
  gt_pauses :: "(nat \<times> nat option) list"

definition gate_default :: gate where
  "gate_default = \<lparr>gt_running = False, gt_until = None, gt_pauses = []\<rparr>"

definition pause_history :: nat where
  "pause_history = 16"

definition paused :: "gate \<Rightarrow> nat \<Rightarrow> bool" where
  "paused g now \<longleftrightarrow> gt_running g \<or> (case gt_until g of Some t \<Rightarrow> now < t | None \<Rightarrow> False)"

definition gate_begin :: "nat \<Rightarrow> gate \<Rightarrow> gate" where
  "gate_begin now g = g\<lparr>gt_pauses := pop_over pause_history (gt_pauses g @ [(now, None)]), gt_running := True\<rparr>"

text \<open>The newest open pause gets its end.\<close>

fun close_first :: "nat \<Rightarrow> (nat \<times> nat option) list \<Rightarrow> (nat \<times> nat option) list" where
  "close_first t [] = []"
| "close_first t ((b, None) # ps) = (b, Some t) # ps"
| "close_first t ((b, Some e) # ps) = (b, Some e) # close_first t ps"

definition gate_end :: "nat \<Rightarrow> nat \<Rightarrow> gate \<Rightarrow> gate" where
  "gate_end now grace g = g\<lparr>gt_until := Some (now + grace),
     gt_pauses := rev (close_first (now + grace) (rev (gt_pauses g))), gt_running := False\<rparr>"

definition overlapped :: "gate \<Rightarrow> nat \<Rightarrow> nat \<Rightarrow> bool" where
  "overlapped g lo hi \<longleftrightarrow> list_ex (\<lambda>(b, till). b < hi
     \<and> (case till of None \<Rightarrow> True | Some e \<Rightarrow> lo < e)) (gt_pauses g)"

section \<open>Echo packets\<close>

definition be16 :: "16 word \<Rightarrow> 8 word list" where
  "be16 w = [ucast (drop_bit 8 w), ucast w]"

definition of_be16 :: "8 word \<Rightarrow> 8 word \<Rightarrow> 16 word" where
  "of_be16 a b = push_bit 8 (ucast a) OR ucast b"

definition echo_packet :: "16 word \<Rightarrow> 16 word \<Rightarrow> 8 word list" where
  "echo_packet i seq = [128, 0, 0, 0] @ be16 i @ be16 seq @ replicate 8 0"

definition is_reply :: "16 word \<Rightarrow> 16 word \<Rightarrow> 8 word list \<Rightarrow> bool" where
  "is_reply i seq buf \<longleftrightarrow> 8 \<le> length buf \<and> buf ! 0 = 129
     \<and> of_be16 (buf ! 4) (buf ! 5) = i \<and> of_be16 (buf ! 6) (buf ! 7) = seq"

text \<open>The first datagram that answers, with its stamp; \<open>None\<close> when the deadline passes first.\<close>

fun await_reply :: "16 word \<Rightarrow> 16 word \<Rightarrow> (8 word list \<times> int option) list \<Rightarrow> int option option" where
  "await_reply i seq [] = None"
| "await_reply i seq ((buf, stamp) # rest) = (if is_reply i seq buf then Some stamp else await_reply i seq rest)"

text \<open>The socket's filter: a set bit blocks the type.\<close>

definition icmp_filter :: "32 word list" where
  "icmp_filter = (replicate 8 (- 1))[4 := (- 1) AND NOT (push_bit 1 1)]"

definition filter_blocks :: "32 word list \<Rightarrow> nat \<Rightarrow> bool" where
  "filter_blocks f t \<longleftrightarrow> bit (f ! (t div 32)) (t mod 32)"

section \<open>One round of the ping loop\<close>

text \<open>What the world does in a round: the gate at the tick, the result of the send, the gate after
  the wait, and what was received (datagrams with stamps, or an error), with the elapsed time.\<close>

datatype received = Datagrams "(8 word list \<times> int option) list" | Recv_error

record round =
  rd_paused :: bool
  rd_send_ok :: bool
  rd_paused_after :: bool
  rd_received :: received
  rd_sent_rt :: int
  rd_elapsed :: nat

record pinger =
  pg_seq :: "16 word"
  pg_window :: window
  pg_reopen :: bool

definition ping_round :: "16 word \<Rightarrow> round \<Rightarrow> pinger \<Rightarrow> pinger" where
  "ping_round i r p =
     (if rd_paused r then p
      else
        let seq = pg_seq p + 1;
            w = (pg_window p)\<lparr>wn_sent := add64 (wn_sent (pg_window p)) 1\<rparr>;
            p = p\<lparr>pg_seq := seq, pg_window := w\<rparr>
        in if \<not> rd_send_ok r then p\<lparr>pg_window := record_timeout w\<rparr>
           else if rd_paused_after r then p
           else case rd_received r of
             Datagrams ds \<Rightarrow>
               (case await_reply i seq ds of
                  Some stamp \<Rightarrow> p\<lparr>pg_window :=
                    record_reply (select_rtt (map_option (\<lambda>rx. rx - rd_sent_rt r) stamp) (rd_elapsed r)) w\<rparr>
                | None \<Rightarrow> p\<lparr>pg_window := record_timeout w\<rparr>)
           | Recv_error \<Rightarrow> p\<lparr>pg_reopen := True\<rparr>)"

section \<open>The window keeps the newest outcomes\<close>

lemma pop_over_drop: "pop_over n xs = drop (length xs - n) xs"
  by (induction n xs rule: pop_over.induct) (auto simp: Suc_diff_le)

definition record_outcome :: "f64 option \<Rightarrow> window \<Rightarrow> window" where
  "record_outcome outcome w = (case outcome of Some rtt \<Rightarrow> record_reply rtt w | None \<Rightarrow> record_timeout w)"

lemma record_outcome_simps [simp]:
  "wn_size (record_outcome x w) = wn_size w"
  "wn_outcomes (record_outcome x w) = drop (Suc (length (wn_outcomes w)) - wn_size w) (wn_outcomes w @ [x])"
  "wn_sent (record_outcome x w) = wn_sent w"
  "wn_received (record_outcome x w) = (if x = None then wn_received w else add64 (wn_received w) 1)"
  "wn_lost (record_outcome x w) = (if x = None then add64 (wn_lost w) 1 else wn_lost w)"
  by (auto simp: record_outcome_def record_reply_def record_timeout_def window_push_def pop_over_drop
      split: option.splits)

text \<open>The window after any sequence of outcomes holds the newest \<open>max n 2\<close> of them, oldest first,
  and its counters have counted all of them (modulo their width).\<close>
theorem window_keeps_newest:
  "let w = fold record_outcome xs (window_new n) in
     wn_outcomes w = drop (length xs - max n 2) xs
     \<and> wn_received w = length (filter (\<lambda>x. x \<noteq> None) xs) mod 2 ^ 64
     \<and> wn_lost w = length (filter (\<lambda>x. x = None) xs) mod 2 ^ 64"
proof -
  have "wn_size (fold record_outcome xs (window_new n)) = max n 2
    \<and> wn_outcomes (fold record_outcome xs (window_new n)) = drop (length xs - max n 2) xs
    \<and> wn_received (fold record_outcome xs (window_new n)) = length (filter (\<lambda>x. x \<noteq> None) xs) mod 2 ^ 64
    \<and> wn_lost (fold record_outcome xs (window_new n)) = length (filter (\<lambda>x. x = None) xs) mod 2 ^ 64"
  proof (induction xs rule: rev_induct)
    case Nil
    then show ?case by (simp add: window_new_def)
  next
    case (snoc x xs)
    have "Suc l - (l - m + m) + (l - m) = Suc l - m" for l m :: nat by arith
    with snoc show ?case by (auto simp: add64_def mod_Suc_eq)
  qed
  then show ?thesis by (simp add: Let_def)
qed

section \<open>Loss is a faithful percentage\<close>

lemma r64_between:
  assumes "\<bar>a\<bar> < 2 ^ 53" "\<bar>b\<bar> < 2 ^ 53" "- 1074 \<le> e" "of_int a * 2 powi e \<le> x" "x \<le> of_int b * 2 powi e"
    "e \<le> 0"
  obtains y where "r64 x = Fin y" "of_int a * 2 powi e \<le> y" "y \<le> of_int b * 2 powi e"
proof -
  have ra: "rnd64 (of_int a * 2 powi e) = of_int a * 2 powi e"
    and rb: "rnd64 (of_int b * 2 powi e) = of_int b * 2 powi e"
    using assms(1-3) by (simp_all add: rnd64_def rnd_rat_exact)
  have lo: "of_int a * 2 powi e \<le> rnd64 x" using rnd64_mono [OF assms(4)] by (simp add: ra)
  have hi: "rnd64 x \<le> of_int b * 2 powi e" using rnd64_mono [OF assms(5)] by (simp add: rb)
  have small: "(2::rat) powi e \<le> 1" using powi2_mono [OF assms(6)] by simp
  have ab: "\<bar>of_int a :: rat\<bar> < 2 ^ 53" "\<bar>of_int b :: rat\<bar> < 2 ^ 53"
    using assms(1,2) by (metis of_int_abs of_int_less_iff of_int_numeral of_int_power)+
  have bound: "\<bar>of_int c * 2 powi e\<bar> < lim64" if "\<bar>of_int c :: rat\<bar> < 2 ^ 53" for c
  proof -
    have "\<bar>of_int c * 2 powi e\<bar> \<le> \<bar>of_int c :: rat\<bar>"
      using small powi2_pos [of e] by (simp add: abs_mult mult_left_le)
    also have "\<dots> < 2 ^ 53" by (rule that)
    also have "\<dots> < lim64" by (simp add: lim64_def)
    finally show ?thesis .
  qed
  have "rnd64 x < lim64" using hi bound [OF ab(2)] by linarith
  moreover have "- lim64 < rnd64 x" using lo bound [OF ab(1)] by linarith
  ultimately have "r64 x = Fin (rnd64 x)" by (simp add: r64_def fit_def)
  with lo hi that show thesis by blast
qed

lemma powi_46: "(2::rat) powi (- 46) = 1 / 70368744177664"
  by (simp add: power_int_def power_one_over)

lemma loss_value:
  assumes "length (filter P xs) = k" "length xs = n" "0 < n" "n < 2 ^ 46"
  shows "f_div (f_mul (Fin 100) (f_of_nat k)) (f_of_nat n) = r64 (100 * of_nat k / of_nat n)"
proof -
  have k: "k \<le> n" using assms(1,2) length_filter_le [of P xs] by simp
  then have "\<bar>100 * int k\<bar> < 2 ^ 53" using assms(4) by simp
  then have "r64 (100 * of_nat k) = Fin (100 * of_nat k)" using r64_int [of "100 * int k"] by simp
  then show ?thesis using k assms by (simp add: f_of_nat_exact)
qed

lemma partial_loss_inside:
  fixes k n :: nat
  assumes "0 < k" "k < n" "n < 2 ^ 46"
  obtains q where "r64 (100 * of_nat k / of_nat n) = Fin q" "0 < q" "q < 100"
proof -
  have nn: "(0::rat) < of_nat n" "(of_nat n :: rat) \<le> 2 ^ 46"
    using assms by (simp, metis less_imp_le of_nat_le_iff of_nat_numeral of_nat_power)
  have unit: "(2::rat) powi (- 46) \<le> 100 / of_nat n"
  proof -
    have "of_nat n * (2::rat) powi (- 46) \<le> 1" using nn by (simp add: power_int_def field_simps)
    then show ?thesis using nn by (simp add: pos_le_divide_eq mult.commute)
  qed
  have low: "of_int 1 * (2::rat) powi (- 46) \<le> 100 * of_nat k / of_nat n"
  proof -
    have "100 * 1 \<le> 100 * (of_nat k :: rat)" using assms by simp
    then have "100 / of_nat n \<le> 100 * of_nat k / (of_nat n :: rat)" using nn by (simp add: divide_right_mono)
    with unit show ?thesis by simp
  qed
  have high: "100 * of_nat k / of_nat n \<le> of_int (100 * 2 ^ 46 - 1) * (2::rat) powi (- 46)"
  proof -
    have "of_nat k + 1 \<le> (of_nat n :: rat)" using assms by (metis Suc_eq_plus1 Suc_leI of_nat_1 of_nat_add of_nat_le_iff)
    then have "100 * of_nat k / of_nat n \<le> 100 - 100 / (of_nat n :: rat)"
      using nn by (simp add: field_simps)
    also have "\<dots> \<le> 100 - 2 powi (- 46)" using unit by simp
    finally show ?thesis by (simp add: powi_46)
  qed
  obtain q where q: "r64 (100 * of_nat k / of_nat n) = Fin q" "of_int 1 * 2 powi (- 46) \<le> q"
      "q \<le> of_int (100 * 2 ^ 46 - 1) * (2::rat) powi (- 46)"
    by (rule r64_between [OF _ _ _ low high]) simp_all
  then have "0 < q" "q < 100" by (simp_all add: powi_46)
  with q(1) show thesis by (rule that)
qed

text \<open>C35: the loss a snapshot reports for any window shorter than \<open>2 ^ 46\<close> pings (the configuration
  allows 3600): a finite percentage, exactly 100 when every ping was lost and only then, exactly 0
  when none was and only then, in spite of rounding.\<close>
theorem ping_loss_faithful:
  assumes "wn_outcomes w \<noteq> []" "length (wn_outcomes w) < 2 ^ 46"
  shows "\<exists>q. sn_loss_pct (window_snapshot w) = Some (Fin q) \<and> 0 \<le> q \<and> q \<le> 100
    \<and> (q = 100) = (filter (\<lambda>x. x \<noteq> None) (wn_outcomes w) = [])
    \<and> (q = 0) = (filter (\<lambda>x. x = None) (wn_outcomes w) = [])"
proof -
  let ?xs = "wn_outcomes w"
  define k n where "k = length (filter (\<lambda>x. x = None) ?xs)" and "n = length ?xs"
  have n: "0 < n" "n < 2 ^ 46" using assms by (simp_all add: n_def)
  have split: "k + length (filter (\<lambda>x. x \<noteq> None) ?xs) = n"
    using sum_length_filter_compl [of "\<lambda>x. x = None" ?xs] by (simp add: k_def n_def)
  have loss: "sn_loss_pct (window_snapshot w) = Some (r64 (100 * of_nat k / of_nat n))"
    using assms(1) loss_value [OF k_def [symmetric] n_def [symmetric] n]
    by (simp add: window_snapshot_def Let_def loss_of_def k_def n_def)
  consider "k = 0" | "k = n" "0 < n" | "0 < k" "k < n" using split n by linarith
  then show ?thesis
  proof cases
    case 1
    then have "r64 (100 * of_nat k / of_nat n) = Fin 0" using r64_int [of 0] by simp
    with loss 1 split n show ?thesis by (auto simp: k_def)
  next
    case 2
    then have "r64 (100 * of_nat k / of_nat n) = Fin 100" using r64_int [of 100] by simp
    with loss 2 split n show ?thesis by (auto simp: k_def)
  next
    case 3
    then obtain q where q: "r64 (100 * of_nat k / of_nat n) = Fin q" and "0 < q" "q < 100"
      using partial_loss_inside n(2) by blast
    moreover have "filter (\<lambda>x. x = None) ?xs \<noteq> []" "filter (\<lambda>x. x \<noteq> None) ?xs \<noteq> []"
      using 3 split by (auto simp: k_def)
    ultimately show ?thesis using loss q by auto
  qed
qed

theorem ping_loss_faithful_witness:
  "\<exists>q. sn_loss_pct (window_snapshot (fold record_outcome [Some (Fin 10), None] (window_new 4))) = Some (Fin q)
    \<and> 0 \<le> q \<and> q \<le> 100
    \<and> (q = 100) = (filter (\<lambda>x. x \<noteq> None) (wn_outcomes (fold record_outcome [Some (Fin 10), None] (window_new 4))) = [])
    \<and> (q = 0) = (filter (\<lambda>x. x = None) (wn_outcomes (fold record_outcome [Some (Fin 10), None] (window_new 4))) = [])"
  by (rule ping_loss_faithful) (simp_all add: window_new_def)

section \<open>Rounds\<close>

definition pinger_new :: "nat \<Rightarrow> pinger" where
  "pinger_new n = \<lparr>pg_seq = 0, pg_window = window_new n, pg_reopen = False\<rparr>"

text \<open>A round that becomes a sample: it was sent and no throughput test touched it.\<close>

definition judged :: "round \<Rightarrow> bool" where
  "judged r \<longleftrightarrow> \<not> rd_paused r
     \<and> (\<not> rd_send_ok r \<or> \<not> rd_paused_after r \<and> (case rd_received r of Datagrams _ \<Rightarrow> True | Recv_error \<Rightarrow> False))"

lemma record_window_simps [simp]:
  "wn_sent (record_reply x w) = wn_sent w" "wn_sent (record_timeout w) = wn_sent w"
  "wn_received (record_reply x w) = add64 (wn_received w) 1" "wn_received (record_timeout w) = wn_received w"
  "wn_lost (record_reply x w) = wn_lost w" "wn_lost (record_timeout w) = add64 (wn_lost w) 1"
  by (simp_all add: record_reply_def record_timeout_def window_push_def)

lemma ping_round_sent:
  "wn_sent (pg_window (ping_round i r p))
    = (if rd_paused r then wn_sent (pg_window p) else add64 (wn_sent (pg_window p)) 1)"
  by (auto simp: ping_round_def Let_def split: received.splits option.splits)

lemma ping_round_judged:
  assumes "wn_received (pg_window p) + wn_lost (pg_window p) + 1 < 2 ^ 64"
  shows "wn_received (pg_window (ping_round i r p)) + wn_lost (pg_window (ping_round i r p))
    = wn_received (pg_window p) + wn_lost (pg_window p) + (if judged r then 1 else 0)"
  using assms
  by (auto simp: ping_round_def judged_def Let_def add64_small split: received.splits option.splits)

lemma ping_round_tests:
  "rd_paused_after r \<Longrightarrow> rd_send_ok r
    \<Longrightarrow> wn_outcomes (pg_window (ping_round i r p)) = wn_outcomes (pg_window p)"
  "rd_paused r \<Longrightarrow> wn_outcomes (pg_window (ping_round i r p)) = wn_outcomes (pg_window p)"
  by (simp_all add: ping_round_def Let_def)

text \<open>After any rounds: the sent counter is the number of rounds that found the gate open, and every
  one of them that no throughput test or receive error discarded is counted once, as received or
  as lost.\<close>
theorem ping_rounds_counted:
  assumes "length rs < 2 ^ 64"
  shows "wn_sent (pg_window (fold (ping_round i) rs (pinger_new n))) = length (filter (\<lambda>r. \<not> rd_paused r) rs)
    \<and> wn_received (pg_window (fold (ping_round i) rs (pinger_new n)))
        + wn_lost (pg_window (fold (ping_round i) rs (pinger_new n))) = length (filter judged rs)"
  using assms
proof (induction rs rule: rev_induct)
  case Nil
  show ?case by (simp add: pinger_new_def window_new_def)
next
  case (snoc r rs)
  let ?p = "fold (ping_round i) rs (pinger_new n)"
  have IH: "wn_sent (pg_window ?p) = length (filter (\<lambda>r. \<not> rd_paused r) rs)"
    "wn_received (pg_window ?p) + wn_lost (pg_window ?p) = length (filter judged rs)"
    using snoc by simp_all
  have b: "length (filter (\<lambda>r. \<not> rd_paused r) rs) + 1 < 2 ^ 64" "length (filter judged rs) + 1 < 2 ^ 64"
  proof -
    have "length rs + 1 < 2 ^ 64" using snoc.prems by simp
    then show "length (filter (\<lambda>r. \<not> rd_paused r) rs) + 1 < 2 ^ 64" "length (filter judged rs) + 1 < 2 ^ 64"
      using length_filter_le [of "\<lambda>r. \<not> rd_paused r" rs] length_filter_le [of judged rs] by linarith+
  qed
  show ?case
    using ping_round_judged [of ?p i r] b by (simp add: ping_round_sent IH add64_small)
qed

section \<open>Matching\<close>

lemma of_be16_be16: "of_be16 (ucast (drop_bit 8 w)) (ucast w) = w"
  by (rule bit_word_eqI) (auto simp: of_be16_def bit_simps)

lemma is_reply_bytes:
  "is_reply i seq ([129, a, b, c] @ be16 i' @ be16 seq' @ body) \<longleftrightarrow> i' = i \<and> seq' = seq"
  by (simp add: is_reply_def be16_def of_be16_be16)

text \<open>The peer's answer is the echoed packet with the reply type: it matches exactly the ping with
  its identifier and sequence number, so neither another link's pings nor an answer that comes
  after its round count; and the socket filter lets nothing but replies through.\<close>
theorem echo_reply_matches:
  "is_reply i seq (129 # tl (echo_packet i' seq')) = (i' = i \<and> seq' = seq)
    \<and> filter (\<lambda>t. \<not> filter_blocks icmp_filter t) [0..<256] = [129]"
proof
  show "is_reply i seq (129 # tl (echo_packet i' seq')) = (i' = i \<and> seq' = seq)"
    using is_reply_bytes [of i seq 0 0 0 i' seq' "replicate 8 0"] by (simp add: echo_packet_def)
  have f: "\<not> filter_blocks icmp_filter t \<longleftrightarrow> t = 129" if "t < 256" for t
  proof -
    define d m where "d = t div 32" and "m = t mod 32"
    have d: "d < 8" and m: "m < 32" using that by (simp_all add: d_def m_def less_mult_imp_div_less)
    have "t = d * 32 + m" by (simp add: d_def m_def)
    then have "d = 4 \<and> m = 1 \<Longrightarrow> t = 129" by simp
    moreover have "t = 129 \<Longrightarrow> d = 4 \<and> m = 1" by (simp add: d_def m_def)
    ultimately have t: "t = 129 \<longleftrightarrow> d = 4 \<and> m = 1" by blast
    show ?thesis
    proof (cases "d = 4")
      case True
      then have "icmp_filter ! d = (- 1) AND NOT (push_bit 1 1)" by (simp add: icmp_filter_def)
      with True m show ?thesis
        unfolding t filter_blocks_def d_def [symmetric] m_def [symmetric] by (auto simp: bit_simps)
    next
      case False
      with d have "icmp_filter ! d = - 1" by (simp add: icmp_filter_def)
      with False m show ?thesis
        unfolding t filter_blocks_def d_def [symmetric] m_def [symmetric] by simp
    qed
  qed
  have "filter (\<lambda>t. \<not> filter_blocks icmp_filter t) [0..<256] = filter (\<lambda>t. t = 129) [0..<256]"
    by (rule filter_cong) (simp_all add: f)
  also have "\<dots> = [129]"
  proof -
    have u: "[0..<256] = [0..<129] @ 129 # [130..<256]"
      using upt_add_eq_append [of 0 129 127] upt_conv_Cons [of 129 256] by simp
    show ?thesis unfolding u filter_append filter.simps
      by (simp add: filter_empty_conv del: upt_rec_numeral)
  qed
  finally show "filter (\<lambda>t. \<not> filter_blocks icmp_filter t) [0..<256] = [129]" .
qed

section \<open>The gate over time\<close>

text \<open>Runs of the gate with the clock, counting the tests that begin. One test runs at a time
  (the lock of \<open>throughput.rs\<close>), and the grace is never empty.\<close>

inductive gate_run :: "gate \<times> nat \<Rightarrow> nat \<Rightarrow> gate \<times> nat \<Rightarrow> bool" where
  run_refl: "gate_run s 0 s"
| run_tick: "gate_run s k (g, t) \<Longrightarrow> gate_run s k (g, t + d)"
| run_begin: "gate_run s k (g, t) \<Longrightarrow> \<not> gt_running g \<Longrightarrow> gate_run s (Suc k) (gate_begin t g, t)"
| run_end: "gate_run s k (g, t) \<Longrightarrow> gt_running g \<Longrightarrow> 0 < grace \<Longrightarrow> gate_run s k (gate_end t grace g, t)"

lemma gate_run_time: "gate_run s k s' \<Longrightarrow> snd s \<le> snd s'"
  by (induction rule: gate_run.induct) auto

text \<open>The newest pause is the open one while a test runs; afterwards it ends where \<open>until\<close> does.\<close>

definition newest_pause_ok :: "gate \<Rightarrow> nat \<Rightarrow> bool" where
  "newest_pause_ok g t \<longleftrightarrow> list_all (\<lambda>(b, e). b \<le> t) (gt_pauses g)
     \<and> (if gt_running g then \<exists>ps b. gt_pauses g = ps @ [(b, None)]
        else case gt_until g of None \<Rightarrow> True | Some u \<Rightarrow> \<exists>ps b. gt_pauses g = ps @ [(b, Some u)])"

lemma pop_over_snoc: "0 < n \<Longrightarrow> \<exists>ps. pop_over n (xs @ [x]) = ps @ [x] \<and> set ps \<subseteq> set xs"
proof -
  assume n: "0 < n"
  have "pop_over n (xs @ [x]) = drop (Suc (length xs) - n) xs @ [x]"
    using n by (simp add: pop_over_drop)
  with set_drop_subset [of "Suc (length xs) - n" xs] show ?thesis by blast
qed

lemma gate_begin_newest:
  assumes "newest_pause_ok g t" shows "newest_pause_ok (gate_begin t g) t"
proof -
  obtain ps where "pop_over pause_history (gt_pauses g @ [(t, None)]) = ps @ [(t, None)]"
      "set ps \<subseteq> set (gt_pauses g)"
    using pop_over_snoc [of pause_history "gt_pauses g" "(t, None)"] by (auto simp: pause_history_def)
  with assms show ?thesis by (auto simp: newest_pause_ok_def gate_begin_def list_all_iff)
qed

lemma gate_end_newest:
  assumes "newest_pause_ok g t" "gt_running g" shows "newest_pause_ok (gate_end t grace g) t"
proof -
  obtain ps b where "gt_pauses g = ps @ [(b, None)]" using assms by (auto simp: newest_pause_ok_def)
  with assms show ?thesis by (auto simp: newest_pause_ok_def gate_end_def list_all_iff)
qed

lemma newest_pause_later: "newest_pause_ok g t \<Longrightarrow> newest_pause_ok g (t + d)"
proof -
  have "list_all (\<lambda>(b, e). b \<le> t) ps \<Longrightarrow> list_all (\<lambda>(b, e). b \<le> t + d) ps" for ps :: "(nat \<times> nat option) list"
    by (induction ps) auto
  then show "newest_pause_ok g t \<Longrightarrow> newest_pause_ok g (t + d)" by (simp add: newest_pause_ok_def)
qed

lemma newest_pause_run:
  assumes "gate_run s k s'" "newest_pause_ok (fst s) (snd s)" shows "newest_pause_ok (fst s') (snd s')"
  using assms
  by (induction rule: gate_run.induct) (simp_all add: gate_begin_newest gate_end_newest newest_pause_later)

text \<open>A pause that covers an instant, with at most \<open>k\<close> newer ones behind it.\<close>

definition pause_covers :: "nat \<Rightarrow> nat \<times> nat option \<Rightarrow> bool" where
  "pause_covers t p \<longleftrightarrow> fst p \<le> t \<and> (case snd p of None \<Rightarrow> True | Some e \<Rightarrow> t < e)"

definition covered_within :: "nat \<Rightarrow> nat \<Rightarrow> gate \<Rightarrow> bool" where
  "covered_within t k g \<longleftrightarrow> (\<exists>ps p qs. gt_pauses g = ps @ p # qs \<and> pause_covers t p \<and> length qs \<le> k)"

lemma close_first_split:
  "close_first u (xs @ y # ys) = xs' @ y' # ys' \<Longrightarrow> length xs' = length xs
    \<Longrightarrow> length ys' = length ys \<and> (y' = y \<or> snd y = None \<and> y' = (fst y, Some u))"
proof (induction u xs arbitrary: xs' rule: close_first.induct)
  case (1 t)
  have "length (close_first t ys) = length ys" for t ys
    by (induction t ys rule: close_first.induct) auto
  with 1 show ?case by (cases y; cases "snd y") auto
qed (auto simp: Cons_eq_append_conv)

lemma close_first_length: "length (close_first u xs) = length xs"
  by (induction u xs rule: close_first.induct) auto

lemma covered_end:
  assumes "covered_within t k g" "t \<le> now" "0 < grace" shows "covered_within t k (gate_end now grace g)"
proof -
  obtain ps p qs where g: "gt_pauses g = ps @ p # qs" "pause_covers t p" "length qs \<le> k"
    using assms(1) by (auto simp: covered_within_def)
  define zs where "zs = close_first (now + grace) (rev qs @ p # rev ps)"
  have l: "length zs = length qs + Suc (length ps)" by (simp add: zs_def close_first_length)
  obtain xs y ys where z: "zs = xs @ y # ys" "length xs = length qs"
  proof
    show "zs = take (length qs) zs @ zs ! length qs # drop (Suc (length qs)) zs"
      using l by (intro id_take_nth_drop) simp
    show "length (take (length qs) zs) = length qs" using l by simp
  qed
  have "y = p \<or> snd p = None \<and> y = (fst p, Some (now + grace))"
    using close_first_split [of "now + grace" "rev qs" p "rev ps" xs y ys] z by (simp add: zs_def)
  then have "pause_covers t y" using g(2) assms(2,3) by (auto simp: pause_covers_def)
  moreover have "gt_pauses (gate_end now grace g) = rev ys @ y # rev xs"
    using z g(1) by (simp add: gate_end_def zs_def)
  ultimately show ?thesis using g(3) z(2) unfolding covered_within_def
    by (intro exI [of _ "rev ys"] exI [of _ y] exI [of _ "rev xs"]) simp
qed

lemma covered_begin:
  assumes "covered_within t k g" "Suc k < pause_history" shows "covered_within t (Suc k) (gate_begin now g)"
proof -
  obtain ps p qs where g: "gt_pauses g = ps @ p # qs" "pause_covers t p" "length qs \<le> k"
    using assms(1) by (auto simp: covered_within_def)
  define n where "n = Suc (length ps + Suc (length qs)) - pause_history"
  have "n \<le> length ps" using g(3) assms(2) by (simp add: n_def)
  then have "gt_pauses (gate_begin now g) = drop n ps @ p # (qs @ [(now, None)])"
    by (simp add: gate_begin_def pop_over_drop g(1) n_def)
  then show ?thesis using g unfolding covered_within_def
    by (intro exI [of _ "drop n ps"] exI [of _ p] exI [of _ "qs @ [(now, None)]"]) simp
qed

lemma covered_gate_run:
  assumes "gate_run s k s'" "covered_within t 0 (fst s)" "t \<le> snd s" "k < pause_history"
  shows "covered_within t k (fst s')"
  using assms
proof (induction rule: gate_run.induct)
  case (run_begin s k g t')
  then show ?case by (simp add: covered_begin)
next
  case (run_end s k g t' grace)
  then have "t \<le> t'" using gate_run_time [OF run_end.hyps(1)] by simp
  with run_end show ?case by (simp add: covered_end)
qed simp_all

lemma paused_covered:
  assumes "newest_pause_ok g t" "paused g t" shows "covered_within t 0 g"
proof -
  obtain ps b e where g: "gt_pauses g = ps @ [(b, e)]" "case e of None \<Rightarrow> True | Some u \<Rightarrow> t < u"
    using assms by (auto simp: newest_pause_ok_def paused_def split: if_splits option.splits)
  then have "b \<le> t" using assms(1) by (simp add: newest_pause_ok_def)
  with g show ?thesis unfolding covered_within_def
    by (intro exI [of _ ps] exI [of _ "(b, e)"] exI [of _ "[]"]) (simp add: pause_covers_def)
qed

lemma covered_overlapped: "covered_within t k g \<Longrightarrow> lo \<le> t \<Longrightarrow> t < hi \<Longrightarrow> overlapped g lo hi"
  by (auto simp: covered_within_def overlapped_def pause_covers_def list_ex_iff split: option.splits)

lemma newest_pause_default: "newest_pause_ok gate_default t"
  by (simp add: newest_pause_ok_def gate_default_def)

text \<open>C24: whenever pings were paused at an instant \<open>t\<close>, the gate reports every block that contains \<open>t\<close>
  as overlapped by a test, as long as fewer than 16 further tests have begun when it is asked: no
  block loses its pings to a test and is then reported as undisturbed.\<close>
theorem paused_blocks_are_flagged:
  assumes "gate_run (gate_default, t0) k0 (g, t)" "paused g t"
    "gate_run (g, t) k (g', t')" "k < 16" "lo \<le> t" "t < hi"
  shows "overlapped g' lo hi"
proof -
  have "newest_pause_ok g t" using newest_pause_run [OF assms(1)] by (simp add: newest_pause_default)
  then have "covered_within t 0 g" using assms(2) by (rule paused_covered)
  then have "covered_within t k g'" using covered_gate_run [OF assms(3)] assms(4) by (simp add: pause_history_def)
  then show ?thesis using assms(5,6) by (rule covered_overlapped)
qed

theorem paused_blocks_are_flagged_witness:
  "paused (gate_begin 5 gate_default) 7
   \<and> overlapped (gate_begin 60 (gate_end 8 20 (gate_begin 5 gate_default))) 0 10"
proof
  let ?b = "gate_begin 5 gate_default"
  have r: "gate_run (gate_default, 5) 1 (?b, 5 + 2)"
    unfolding One_nat_def by (intro run_tick run_begin run_refl) (simp add: gate_default_def)
  show p: "paused ?b 7" by (simp add: paused_def gate_begin_def)
  have run: "gate_run (?b, 5 + 2) 0 (?b, 5 + 2 + 1)" by (intro run_tick run_refl)
  have "gate_run (?b, 5 + 2) 0 (gate_end (5 + 2 + 1) 20 ?b, 5 + 2 + 1)"
    by (rule run_end [OF run]) (simp_all add: gate_begin_def)
  then have "gate_run (?b, 5 + 2) 0 (gate_end (5 + 2 + 1) 20 ?b, 5 + 2 + 1 + 52)" by (rule run_tick)
  then have "gate_run (?b, 5 + 2) (Suc 0) (gate_begin (5 + 2 + 1 + 52) (gate_end (5 + 2 + 1) 20 ?b), 5 + 2 + 1 + 52)"
    by (rule run_begin) (simp add: gate_end_def)
  from paused_blocks_are_flagged [OF r _ this, of 0 10] p
  show "overlapped (gate_begin 60 (gate_end 8 20 ?b)) 0 10" by simp
qed

text \<open>The gate during one wait; every test that ends leaves at least \<open>grace\<close>.\<close>

inductive waits :: "nat \<Rightarrow> gate \<times> nat \<Rightarrow> nat \<Rightarrow> gate \<times> nat \<Rightarrow> bool" for grace :: nat where
  wait_refl: "waits grace s 0 s"
| wait_tick: "waits grace s k (g, t) \<Longrightarrow> waits grace s k (g, t + d)"
| wait_begin: "waits grace s k (g, t) \<Longrightarrow> \<not> gt_running g \<Longrightarrow> waits grace s (Suc k) (gate_begin t g, t)"
| wait_end: "waits grace s k (g, t) \<Longrightarrow> gt_running g \<Longrightarrow> grace \<le> gr \<Longrightarrow> waits grace s k (gate_end t gr g, t)"

lemma waits_time: "waits grace s k s' \<Longrightarrow> snd s \<le> snd s'"
  by (induction rule: waits.induct) auto

lemma waits_paused:
  assumes "waits grace s k s'"
  shows "0 < k \<Longrightarrow> gt_running (fst s') \<or> (\<exists>u. gt_until (fst s') = Some u \<and> snd s + grace \<le> u)"
  using assms
proof (induction rule: waits.induct)
  case (wait_end s k g t gr)
  then show ?case using waits_time [OF wait_end.hyps(1)] by (auto simp: gate_end_def)
qed (auto simp: gate_begin_def)

text \<open>A test that starts while a ping waits is still visible when the wait is over, provided the
  wait (from \<open>t\<close> to \<open>t'\<close>) is shorter than the grace of every test (the agent's grace is at least two
  intervals, a wait at most one): the ping is discarded, however short the test was.\<close>
theorem short_tests_discard_pings:
  assumes "waits grace (g, t) k (g', t')" "0 < k" "t' < t + grace"
  shows "paused g' t'"
  using waits_paused [OF assms(1,2)] assms(3) by (auto simp: paused_def)

theorem short_tests_discard_pings_witness:
  "paused (gate_end 101 2000 (gate_begin 100 gate_default)) 900"
proof -
  have "waits 2000 (gate_default, 90) 0 (gate_default, 90 + 10)" by (intro wait_tick wait_refl)
  then have b: "waits 2000 (gate_default, 90) (Suc 0) (gate_begin (90 + 10) gate_default, 90 + 10)"
    by (rule wait_begin) (simp add: gate_default_def)
  have e: "waits 2000 (gate_default, 90) (Suc 0)
      (gate_end (90 + 10 + 1) 2000 (gate_begin (90 + 10) gate_default), 90 + 10 + 1)"
    by (rule wait_end [OF wait_tick [OF b]]) (simp_all add: gate_begin_def)
  from short_tests_discard_pings [OF wait_tick [OF e, of 799]] show ?thesis by simp
qed

end
