(* ===== verification/Json.thy ===== *)
theory Json
  imports Proto
begin

text \<open>
  JSON documents as the agent reads them from ubus, nft and iperf3: a document is a value of
  \<open>json\<close>; the accessors are the ones of \<open>serde_json::Value\<close> the sources call, with the results
  its documentation gives (an absent key or a value of another kind is null or nothing). Also the
  string functions of the standard library the agent uses. Strings are byte strings: trimming
  knows the ASCII white space.
\<close>

section \<open>Documents\<close>

datatype json =
    JNull
  | JBool bool
  | JInt int
  | JFloat f64
  | JStr string
  | JArr "json list"
  | JObj "(string \<times> json) list"

text \<open>\<open>v.get(key)\<close>, \<open>v[key]\<close> and the typed views.\<close>

fun j_get :: "json \<Rightarrow> string \<Rightarrow> json option" where
  "j_get (JObj m) k = map_of m k"
| "j_get _ k = None"

definition j_index :: "json \<Rightarrow> string \<Rightarrow> json" where
  "j_index v k = (case j_get v k of Some x \<Rightarrow> x | None \<Rightarrow> JNull)"

fun as_str :: "json \<Rightarrow> string option" where
  "as_str (JStr s) = Some s"
| "as_str _ = None"

fun as_array :: "json \<Rightarrow> json list option" where
  "as_array (JArr xs) = Some xs"
| "as_array _ = None"

fun as_object :: "json \<Rightarrow> (string \<times> json) list option" where
  "as_object (JObj m) = Some m"
| "as_object _ = None"

fun as_u64 :: "json \<Rightarrow> nat option" where
  "as_u64 (JInt n) = (if 0 \<le> n \<and> n < 2 ^ 64 then Some (nat n) else None)"
| "as_u64 _ = None"

fun as_i64 :: "json \<Rightarrow> int option" where
  "as_i64 (JInt n) = (if - (2 ^ 63) \<le> n \<and> n < 2 ^ 63 then Some n else None)"
| "as_i64 _ = None"

fun as_f64 :: "json \<Rightarrow> f64 option" where
  "as_f64 (JInt n) = Some (r64 (of_int n))"
| "as_f64 (JFloat x) = Some x"
| "as_f64 _ = None"

fun is_number :: "json \<Rightarrow> bool" where
  "is_number (JInt _) = True"
| "is_number (JFloat _) = True"
| "is_number _ = False"

text \<open>\<open>v.as_array().into_iter().flatten()\<close>.\<close>

definition elements :: "json \<Rightarrow> json list" where
  "elements v = (case as_array v of Some xs \<Rightarrow> xs | None \<Rightarrow> [])"

text \<open>A \<open>HashMap\<close> collected from pairs: a later pair replaces an earlier one.\<close>

definition collect_map :: "('k \<times> 'v) list \<Rightarrow> ('k, 'v) hmap" where
  "collect_map ps = fold (\<lambda>(k, v). hm_insert k v) ps []"

lemma collect_map_ok [simp]: "hm_ok (collect_map ps)"
proof -
  have "hm_ok m \<Longrightarrow> hm_ok (fold (\<lambda>(k, v). hm_insert k v) ps m)" for m :: "('a, 'b) hmap"
    by (induction ps arbitrary: m) auto
  then show ?thesis by (simp add: collect_map_def hm_ok_def)
qed

lemma map_of_rev_ok: "distinct (map fst ps) \<Longrightarrow> map_of (rev ps) = map_of ps"
  by (rule map_of_eqI) (auto simp: rev_map [symmetric])

lemma collect_map_get: "hm_get (collect_map ps) k = map_of (rev ps) k"
proof -
  have "hm_get (fold (\<lambda>(k, v). hm_insert k v) ps m) k
    = (case map_of (rev ps) k of Some v \<Rightarrow> Some v | None \<Rightarrow> hm_get m k)" for m :: "('b, 'a) hmap"
    by (induction ps arbitrary: m) (auto simp: map_add_def split: option.splits)
  then show ?thesis by (simp add: collect_map_def split: option.splits)
qed

section \<open>Strings\<close>

definition white :: "char \<Rightarrow> bool" where
  "white c \<longleftrightarrow> c \<in> {CHR 0x09, CHR 0x0A, CHR 0x0B, CHR 0x0C, CHR 0x0D, CHR 0x20}"

definition trim :: "string \<Rightarrow> string" where
  "trim s = rev (dropWhile white (rev (dropWhile white s)))"

fun strip_prefix :: "string \<Rightarrow> string \<Rightarrow> string option" where
  "strip_prefix [] s = Some s"
| "strip_prefix (p # ps) [] = None"
| "strip_prefix (p # ps) (c # s) = (if p = c then strip_prefix ps s else None)"

definition strip_suffix :: "string \<Rightarrow> string \<Rightarrow> string option" where
  "strip_suffix p s = map_option rev (strip_prefix (rev p) (rev s))"

lemma strip_prefix_iff: "strip_prefix p s = Some r \<longleftrightarrow> s = p @ r"
  by (induction p s rule: strip_prefix.induct) auto

lemma strip_suffix_iff: "strip_suffix p s = Some r \<longleftrightarrow> s = r @ p"
proof
  assume "strip_suffix p s = Some r"
  then obtain x where x: "strip_prefix (rev p) (rev s) = Some x" "r = rev x"
    by (auto simp: strip_suffix_def)
  then have "rev s = rev p @ x" by (simp add: strip_prefix_iff)
  then have "rev (rev s) = rev (rev p @ x)" by (rule arg_cong)
  with x show "s = r @ p" by simp
next
  assume "s = r @ p"
  then have "strip_prefix (rev p) (rev s) = Some (rev r)" by (simp add: strip_prefix_iff)
  then show "strip_suffix p s = Some r" by (simp add: strip_suffix_def)
qed

text \<open>\<open>split\<close> on a character, and \<open>split_whitespace\<close>.\<close>

fun split_where :: "(char \<Rightarrow> bool) \<Rightarrow> string \<Rightarrow> string list" where
  "split_where P [] = [[]]"
| "split_where P (x # s) = (if P x then [] # split_where P s
     else (case split_where P s of w # ws \<Rightarrow> (x # w) # ws | [] \<Rightarrow> [[x]]))"

definition split_char :: "char \<Rightarrow> string \<Rightarrow> string list" where
  "split_char c = split_where (\<lambda>x. x = c)"

definition split_whitespace :: "string \<Rightarrow> string list" where
  "split_whitespace s = filter (\<lambda>w. w \<noteq> []) (split_where white s)"

text \<open>\<open>rsplit_once\<close>: at the last occurrence.\<close>

definition rsplit_once :: "char \<Rightarrow> string \<Rightarrow> (string \<times> string) option" where
  "rsplit_once c s = map_option (\<lambda>(a, b). (rev b, rev a)) (split_once c (rev s))"

text \<open>Parsing an unsigned number of a given width: an optional plus sign, then digits only.\<close>

definition digit_value :: "char \<Rightarrow> nat option" where
  "digit_value c = (let n = of_char c :: nat in if 48 \<le> n \<and> n \<le> 57 then Some (n - 48) else None)"

fun parse_digits :: "nat \<Rightarrow> string \<Rightarrow> nat option" where
  "parse_digits acc [] = Some acc"
| "parse_digits acc (c # s) = (case digit_value c of Some d \<Rightarrow> parse_digits (10 * acc + d) s | None \<Rightarrow> None)"

definition parse_unsigned :: "nat \<Rightarrow> string \<Rightarrow> nat option" where
  "parse_unsigned width s =
     (let ds = (case s of CHR 0x2B # r \<Rightarrow> r | _ \<Rightarrow> s)
      in if ds = [] then None
         else case parse_digits 0 ds of Some n \<Rightarrow> if n < 2 ^ width then Some n else None | None \<Rightarrow> None)"

text \<open>Parsing a decimal \<open>f64\<close>: a sign, then infinity or NaN spelled out, or digits with an optional
  fraction and exponent; the exact value rounded once.\<close>

definition take_digits :: "string \<Rightarrow> string \<times> string" where
  "take_digits s = (takeWhile (\<lambda>c. digit_value c \<noteq> None) s, dropWhile (\<lambda>c. digit_value c \<noteq> None) s)"

definition parse_exponent :: "string \<Rightarrow> int option" where
  "parse_exponent s =
     (case s of
        [] \<Rightarrow> Some 0
      | c # r \<Rightarrow> if c \<noteq> CHR ''e'' \<and> c \<noteq> CHR ''E'' then None
          else (let (neg, ds) = (case r of CHR ''-'' # q \<Rightarrow> (True, q) | CHR 0x2B # q \<Rightarrow> (False, q) | _ \<Rightarrow> (False, r))
                in if ds = [] then None
                   else map_option (\<lambda>n. if neg then - int n else int n) (parse_digits 0 ds)))"

definition parse_decimal :: "string \<Rightarrow> rat option" where
  "parse_decimal s =
     (let (whole, r) = take_digits s;
          (frac, r') = (case r of CHR ''.'' # q \<Rightarrow> take_digits q | _ \<Rightarrow> ([], r))
      in if whole = [] \<and> frac = [] then None
         else case (parse_digits 0 (whole @ frac), parse_exponent r') of
                (Some n, Some e) \<Rightarrow> Some (of_nat n * 10 powi (e - int (length frac)))
              | _ \<Rightarrow> None)"

definition parse_f64 :: "string \<Rightarrow> f64 option" where
  "parse_f64 s =
     (let (neg, r) = (case s of CHR ''-'' # q \<Rightarrow> (True, q) | CHR 0x2B # q \<Rightarrow> (False, q) | _ \<Rightarrow> (False, s));
          l = to_ascii_lowercase r;
          v = (if l = ''inf'' \<or> l = ''infinity'' then Some PInf
               else if l = ''nan'' then Some NaN
               else map_option r64 (parse_decimal r))
      in if neg then map_option f_neg v else v)"

section \<open>Numbers round trip\<close>

lemma parse_digits_append:
  "parse_digits acc (xs @ ys) = (case parse_digits acc xs of Some n \<Rightarrow> parse_digits n ys | None \<Rightarrow> None)"
  by (induction acc xs rule: parse_digits.induct) (auto split: option.splits)

lemma digit_value_digit: "d < 10 \<Longrightarrow> digit_value (char_of (48 + d)) = Some d"
  by (simp add: digit_value_def)

lemma parse_show_nat: "parse_digits 0 (show_nat n) = Some n"
proof (induction n rule: show_nat.induct)
  case (1 n)
  have d: "digit_value (char_of (48 + n mod 10)) = Some (n mod 10)" by (simp add: digit_value_digit)
  show ?case
  proof (cases "n < 10")
    case True
    with d show ?thesis by (subst show_nat.simps) simp
  next
    case False
    with d 1 show ?thesis by (subst show_nat.simps) (simp add: parse_digits_append)
  qed
qed

lemma show_nat_digits: "c \<in> set (show_nat n) \<Longrightarrow> digit_value c \<noteq> None"
proof (induction n rule: show_nat.induct)
  case (1 n)
  have "digit_value (char_of (48 + n mod 10)) = Some (n mod 10)" by (simp add: digit_value_digit)
  moreover have "c \<in> set (if n < 10 then [] else show_nat (n div 10)) \<or> c = char_of (48 + n mod 10)"
    using 1(2) by (subst (asm) show_nat.simps) auto
  ultimately show ?case using 1(1) by (auto split: if_splits)
qed

lemma show_nat_nonempty [simp]: "show_nat n \<noteq> []"
  by (subst show_nat.simps) simp

lemma parse_unsigned_show_nat: "n < 2 ^ w \<Longrightarrow> parse_unsigned w (show_nat n) = Some n"
proof -
  assume n: "n < 2 ^ w"
  have "CHR 0x2B \<notin> set (show_nat n)" using show_nat_digits [of "CHR 0x2B" n] by (auto simp: digit_value_def)
  then have "(case show_nat n of CHR 0x2B # r \<Rightarrow> r | _ \<Rightarrow> show_nat n) = show_nat n"
    by (auto split: list.splits char.splits bool.splits)
  with n show ?thesis by (simp add: parse_unsigned_def Let_def parse_show_nat)
qed

end
