(* ===== verification/Transport.thy ===== *)
theory Transport
  imports Json "HOL-Library.Word"
begin

text \<open>
  The carrier-independent part of \<open>crates/mielofon-transport\<close>: length-prefixed frames
  (\<open>frame.rs\<close>), the one-request-per-stream exchange built on them (\<open>session.rs\<close>) and the
  endpoint list (\<open>resolve.rs\<close>). A stream is the bytes it carries until its sender closes it.
  The JSON encoding of a message, the literal-address parser and the name lookup are arguments.
\<close>

section \<open>Frames\<close>

type_synonym byte = "8 word"

definition max_frame :: nat where
  "max_frame = 16 * 1024 * 1024"

datatype frame_error = Too_large nat | Closed | Io_error | Json_error

definition be32 :: "nat \<Rightarrow> byte list" where
  "be32 n = [of_nat (n div 2 ^ 24), of_nat (n div 2 ^ 16), of_nat (n div 2 ^ 8), of_nat n]"

definition of_be32 :: "byte list \<Rightarrow> nat" where
  "of_be32 bs = fold (\<lambda>b n. n * 256 + unat b) bs 0"

text \<open>\<open>as u32\<close> keeps the low 32 bits of the length.\<close>

definition write_frame :: "('a \<Rightarrow> byte list option) \<Rightarrow> 'a \<Rightarrow> byte list \<Rightarrow> frame_error + byte list" where
  "write_frame enc v w =
     (case enc v of
        None \<Rightarrow> Inl Json_error
      | Some body \<Rightarrow> if max_frame < length body then Inl (Too_large (length body))
          else Inr (w @ be32 (length body mod 2 ^ 32) @ body))"

text \<open>\<open>read_exact\<close> fails at the end of the stream: in the header as \<open>Closed\<close>, in the body as an I/O
  error.\<close>

definition read_frame :: "(byte list \<Rightarrow> 'a option) \<Rightarrow> byte list \<Rightarrow> frame_error + 'a \<times> byte list" where
  "read_frame dec r =
     (if length r < 4 then Inl Closed
      else let len = of_be32 (take 4 r); rest = drop 4 r
           in if max_frame < len then Inl (Too_large len)
              else if length rest < len then Inl Io_error
              else case dec (take len rest) of
                     None \<Rightarrow> Inl Json_error
                   | Some v \<Rightarrow> Inr (v, drop len rest))"

section \<open>Requests\<close>

text \<open>The serving side: what it writes before it closes the stream, for the bytes it received.\<close>

definition respond ::
  "(byte list \<Rightarrow> 'q option) \<Rightarrow> ('r \<Rightarrow> byte list option) \<Rightarrow> ('q \<Rightarrow> 'r option) \<Rightarrow> byte list
    \<Rightarrow> frame_error + byte list" where
  "respond dec enc handle stream =
     (case read_frame dec stream of
        Inl e \<Rightarrow> Inl e
      | Inr (req, _) \<Rightarrow>
          (case handle req of
             Some resp \<Rightarrow> write_frame enc resp []
           | None \<Rightarrow> Inr []))"

text \<open>The requesting side over a server: a server that fails drops the stream, which ends it.\<close>

definition request ::
  "('q \<Rightarrow> byte list option) \<Rightarrow> (byte list \<Rightarrow> 'r option) \<Rightarrow> (byte list \<Rightarrow> frame_error + byte list) \<Rightarrow> 'q
    \<Rightarrow> frame_error + 'r" where
  "request enc dec server req =
     (case write_frame enc req [] of
        Inl e \<Rightarrow> Inl e
      | Inr bytes \<Rightarrow>
          (case read_frame dec (case server bytes of Inr answer \<Rightarrow> answer | Inl _ \<Rightarrow> []) of
             Inl e \<Rightarrow> Inl e
           | Inr (resp, _) \<Rightarrow> Inr resp))"

section \<open>Endpoints\<close>

record endpoint =
  ep_host :: string
  ep_port :: nat

definition server_name :: "endpoint \<Rightarrow> string" where
  "server_name e = ep_host e"

definition parse_endpoint :: "(string \<Rightarrow> 'ip option) \<Rightarrow> string \<Rightarrow> nat \<Rightarrow> string + endpoint" where
  "parse_endpoint ip_of entry0 default_port =
     (let entry = trim entry0
      in if entry = [] then Inl ''empty endpoint''
         else case strip_prefix ''['' entry of
           Some rest \<Rightarrow>
             (case split_once CHR '']'' rest of
                None \<Rightarrow> Inl (entry @ '': unterminated IPv6 literal'')
              | Some (host, tail) \<Rightarrow>
                  if ip_of host = None then Inl (entry @ '': bad IPv6 literal'')
                  else case strip_prefix '':'' tail of
                         Some p \<Rightarrow>
                           (case parse_unsigned 16 p of
                              None \<Rightarrow> Inl (entry @ '': bad port'')
                            | Some port \<Rightarrow> Inr \<lparr>ep_host = host, ep_port = port\<rparr>)
                       | None \<Rightarrow> if tail = [] then Inr \<lparr>ep_host = host, ep_port = default_port\<rparr>
                           else Inl (entry @ '': junk after IPv6 literal''))
         | None \<Rightarrow>
             if 1 < length (filter (\<lambda>c. c = CHR '':'') entry)
             then (if ip_of entry = None then Inl (entry @ '': bad IPv6 literal (use [addr]:port)'')
                   else Inr \<lparr>ep_host = entry, ep_port = default_port\<rparr>)
             else case rsplit_once CHR '':'' entry of
               Some (host, p) \<Rightarrow>
                 (case parse_unsigned 16 p of
                    None \<Rightarrow> Inl (entry @ '': bad port'')
                  | Some port \<Rightarrow> Inr \<lparr>ep_host = host, ep_port = port\<rparr>)
             | None \<Rightarrow> Inr \<lparr>ep_host = entry, ep_port = default_port\<rparr>)"

text \<open>A lookup that fails yields no address.\<close>

definition endpoint_addrs ::
  "(string \<Rightarrow> 'ip option) \<Rightarrow> (string \<Rightarrow> nat \<Rightarrow> ('ip \<times> nat) list option) \<Rightarrow> endpoint \<Rightarrow> ('ip \<times> nat) list" where
  "endpoint_addrs ip_of lookup ep =
     (case ip_of (ep_host ep) of
        Some ip \<Rightarrow> [(ip, ep_port ep)]
      | None \<Rightarrow> (case lookup (ep_host ep) (ep_port ep) of Some addrs \<Rightarrow> addrs | None \<Rightarrow> []))"

definition push_addr :: "string \<Rightarrow> 'a \<Rightarrow> ('a \<times> string) list \<Rightarrow> ('a \<times> string) list" where
  "push_addr host a out = (if list_ex (\<lambda>(x, _). x = a) out then out else out @ [(a, host)])"

definition resolve_all ::
  "(string \<Rightarrow> 'ip option) \<Rightarrow> (string \<Rightarrow> nat \<Rightarrow> ('ip \<times> nat) list option) \<Rightarrow> endpoint list
    \<Rightarrow> (('ip \<times> nat) \<times> string) list" where
  "resolve_all ip_of lookup endpoints =
     fold (\<lambda>ep out. fold (push_addr (ep_host ep)) (endpoint_addrs ip_of lookup ep) out) endpoints []"

section \<open>Lemmas\<close>

lemma unat_of_nat8: "unat (of_nat n :: byte) = n mod 256"
  by (simp add: unat_of_nat take_bit_eq_mod)

lemma of_be32_be32: "n < 2 ^ 32 \<Longrightarrow> of_be32 (be32 n) = n"
proof -
  assume n: "n < 2 ^ 32"
  define a b c where "a = n div 256" and "b = a div 256" and "c = b div 256"
  have e: "n div 256 = a" "n div 65536 = b" "n div 16777216 = c"
    by (simp_all add: a_def b_def c_def div_mult2_eq [symmetric])
  have "c < 256" using n by (simp add: e [symmetric] less_mult_imp_div_less)
  moreover have "256 * a + n mod 256 = n" "256 * b + a mod 256 = a" "256 * c + b mod 256 = b"
    by (simp_all add: a_def b_def c_def)
  ultimately show ?thesis
    by (simp add: of_be32_def be32_def unat_of_nat8 e)
qed

lemma length_be32 [simp]: "length (be32 n) = 4"
  by (simp add: be32_def)

lemma read_frame_append:
  assumes "dec body = Some v" "length body \<le> max_frame"
  shows "read_frame dec (be32 (length body mod 2 ^ 32) @ body @ rest) = Inr (v, rest)"
proof -
  have l: "length body < 2 ^ 32" using assms(2) by (simp add: max_frame_def)
  then show ?thesis using assms
    by (simp add: read_frame_def of_be32_be32 Let_def)
qed

lemma write_frame_SomeD:
  "write_frame enc v w = Inr bs \<Longrightarrow> \<exists>body. enc v = Some body \<and> length body \<le> max_frame
    \<and> bs = w @ be32 (length body mod 2 ^ 32) @ body"
  by (auto simp: write_frame_def split: option.splits if_splits)

section \<open>Streams of frames\<close>

text \<open>Writing messages one after the other; reading until the stream ends or fails.\<close>

fun write_frames :: "('a \<Rightarrow> byte list option) \<Rightarrow> 'a list \<Rightarrow> byte list \<Rightarrow> frame_error + byte list" where
  "write_frames enc [] w = Inr w"
| "write_frames enc (v # vs) w = (case write_frame enc v w of Inl e \<Rightarrow> Inl e | Inr w' \<Rightarrow> write_frames enc vs w')"

fun read_frames :: "nat \<Rightarrow> (byte list \<Rightarrow> 'a option) \<Rightarrow> byte list \<Rightarrow> 'a list \<times> frame_error" where
  "read_frames 0 dec r = ([], Closed)"
| "read_frames (Suc n) dec r = (case read_frame dec r of
      Inl e \<Rightarrow> ([], e)
    | Inr (v, r') \<Rightarrow> (let (vs, e) = read_frames n dec r' in (v # vs, e)))"

lemma write_frame_prefix: "write_frame enc v w = map_sum id ((@) w) (write_frame enc v [])"
  by (auto simp: write_frame_def split: option.splits)

lemma write_frames_prefix: "write_frames enc vs w = map_sum id ((@) w) (write_frames enc vs [])"
proof (induction vs arbitrary: w)
  case (Cons v vs)
  show ?case
  proof (cases "write_frame enc v []")
    case (Inr bs)
    have "write_frames enc vs (w @ bs) = map_sum id ((@) (w @ bs)) (write_frames enc vs [])"
      and "write_frames enc vs bs = map_sum id ((@) bs) (write_frames enc vs [])" by (rule Cons.IH)+
    then show ?thesis
      by (cases "write_frames enc vs []") (simp_all add: write_frame_prefix [of enc v w] Inr)
  qed (simp add: write_frame_prefix [of enc v w])
qed simp

section \<open>Properties\<close>

text \<open>C16: frames never lose their place: whatever messages a sender managed to write, the receiver reads
  exactly those, in order, and then a clean end, whatever bytes the messages encode to.\<close>
theorem frames_round_trip:
  assumes "\<And>v b. enc v = Some b \<Longrightarrow> dec b = Some v" "write_frames enc vs [] = Inr bs"
  shows "read_frames (Suc (length vs)) dec bs = (vs, Closed)"
  using assms(2)
proof (induction vs arbitrary: bs)
  case Nil
  then show ?case by (simp add: read_frame_def)
next
  case (Cons v vs)
  obtain w where w: "write_frame enc v [] = Inr w" "write_frames enc vs w = Inr bs"
    using Cons.prems by (auto split: sum.splits)
  obtain body where b: "enc v = Some body" "length body \<le> max_frame" "w = be32 (length body mod 2 ^ 32) @ body"
    using write_frame_SomeD [OF w(1)] by auto
  obtain tail where t: "write_frames enc vs [] = Inr tail" "bs = w @ tail"
    using w(2) unfolding write_frames_prefix [of enc vs w] by (cases "write_frames enc vs []") auto
  have "read_frame dec bs = Inr (v, tail)"
    using read_frame_append [of dec body v tail] assms(1) [OF b(1)] b(2) by (simp add: t(2) b(3))
  with Cons.IH [OF t(1)] show ?case by simp
qed

text \<open>A codec for the witness: lists of bytes as they are.\<close>

theorem frames_round_trip_witness:
  "read_frames (Suc (length [[7, 8], [] :: byte list])) Some (be32 2 @ [7, 8] @ be32 0) = ([[7, 8], []], Closed)"
  by (rule frames_round_trip [where enc = Some]) (simp_all add: write_frame_def max_frame_def flip: numeral_2_eq_2)

text \<open>One request on one stream: the requester gets what the handler answered, or the clean end of
  a stream the handler closed without an answer.\<close>
theorem request_gets_the_answer:
  assumes "\<And>v b. enc_q v = Some b \<Longrightarrow> dec_q b = Some v" "\<And>v b. enc_r v = Some b \<Longrightarrow> dec_r b = Some v"
    "enc_q q = Some bq" "length bq \<le> max_frame"
    "case handle q of None \<Rightarrow> True | Some r \<Rightarrow> (case enc_r r of None \<Rightarrow> False | Some b \<Rightarrow> length b \<le> max_frame)"
  shows "request enc_q dec_r (respond dec_q enc_r handle) q
    = (case handle q of Some r \<Rightarrow> Inr r | None \<Rightarrow> Inl Closed)"
proof -
  have q: "read_frame dec_q (be32 (length bq mod 2 ^ 32) @ bq) = Inr (q, [])"
    using read_frame_append [of dec_q bq q "[]"] assms(1) [OF assms(3)] assms(4) by simp
  show ?thesis
  proof (cases "handle q")
    case None
    with q assms(3,4) show ?thesis
      by (simp add: request_def respond_def write_frame_def) (simp add: read_frame_def)
  next
    case (Some r)
    then obtain br where br: "enc_r r = Some br" "length br \<le> max_frame"
      using assms(5) by (auto split: option.splits)
    have "read_frame dec_r (be32 (length br mod 2 ^ 32) @ br) = Inr (r, [])"
      using read_frame_append [of dec_r br r "[]"] assms(2) [OF br(1)] br(2) by simp
    with q assms(3,4) br Some show ?thesis
      by (simp add: request_def respond_def write_frame_def)
  qed
qed

theorem request_gets_the_answer_witness:
  "request Some Some (respond Some Some (\<lambda>q. if q = [1] then Some [2, 3] else None)) [1] = Inr [2, 3 :: byte]"
  using request_gets_the_answer [of Some Some Some Some "[1]" "[1]" "\<lambda>q. if q = [1] then Some [2, 3] else None"]
  by (simp add: max_frame_def)

text \<open>A requester never gets an answer the handler did not give, whatever breaks on the way.\<close>
lemma request_answer_genuine:
  assumes "\<And>v b. enc_q v = Some b \<Longrightarrow> dec_q b = Some v" "\<And>v b. enc_r v = Some b \<Longrightarrow> dec_r b = Some v"
    "request enc_q dec_r (respond dec_q enc_r handle) q = Inr r"
  shows "handle q = Some r"
proof -
  obtain bq where bq: "enc_q q = Some bq" "length bq \<le> max_frame"
      "write_frame enc_q q [] = Inr (be32 (length bq mod 2 ^ 32) @ bq)"
    using assms(3) write_frame_SomeD [of enc_q q] by (auto simp: request_def split: sum.splits)
  then have q: "read_frame dec_q (be32 (length bq mod 2 ^ 32) @ bq) = Inr (q, [])"
    using read_frame_append [of dec_q bq q "[]"] assms(1) [OF bq(1)] by simp
  have server: "respond dec_q enc_r handle (be32 (length bq mod 2 ^ 32) @ bq)
    = (case handle q of Some resp \<Rightarrow> write_frame enc_r resp [] | None \<Rightarrow> Inr [])"
    unfolding respond_def q by simp
  show ?thesis
  proof (cases "handle q")
    case None
    with assms(3) bq(3) server show ?thesis by (simp add: request_def) (simp add: read_frame_def)
  next
    case (Some v)
    show ?thesis
    proof (cases "write_frame enc_r v []")
      case (Inl e)
      with assms(3) bq(3) server Some show ?thesis by (simp add: request_def) (simp add: read_frame_def)
    next
      case (Inr w)
      obtain br where br: "enc_r v = Some br" "length br \<le> max_frame" "w = be32 (length br mod 2 ^ 32) @ br"
        using write_frame_SomeD [OF Inr] by auto
      have "read_frame dec_r w = Inr (v, [])"
        using read_frame_append [of dec_r br v "[]"] assms(2) [OF br(1)] br(2,3) by simp
      with assms(3) bq(3) server Some Inr show ?thesis by (simp add: request_def)
    qed
  qed
qed

text \<open>A header cut short is reported like a clean end.\<close>
lemma cut_header_is_closed: "read_frame dec [0, 0, 1] = Inl Closed" "read_frame dec [] = Inl Closed"
  by (simp_all add: read_frame_def)

section \<open>Resolution\<close>

lemma push_addr_fst:
  "map fst (fold (push_addr h) as out) = fold (\<lambda>a xs. if a \<in> set xs then xs else xs @ [a]) as (map fst out)"
proof (induction "as" arbitrary: out)
  case (Cons a "as")
  have "list_ex (\<lambda>(x, _). x = a) out \<longleftrightarrow> a \<in> fst ` set out" by (force simp: list_ex_iff)
  with Cons show ?case by (simp add: push_addr_def)
qed simp

lemma resolve_fst:
  "map fst (resolve_all ip_of lookup eps)
    = fold (\<lambda>a xs. if a \<in> set xs then xs else xs @ [a]) (concat (map (endpoint_addrs ip_of lookup) eps)) []"
proof -
  have "map fst (fold (\<lambda>ep out. fold (push_addr (ep_host ep)) (endpoint_addrs ip_of lookup ep) out) eps out)
    = fold (\<lambda>a xs. if a \<in> set xs then xs else xs @ [a]) (concat (map (endpoint_addrs ip_of lookup) eps)) (map fst out)"
    for out
    by (induction eps arbitrary: out) (simp_all add: push_addr_fst)
  then show ?thesis by (simp add: resolve_all_def)
qed

lemma first_seen:
  "distinct xs \<Longrightarrow> distinct (fold (\<lambda>a xs. if a \<in> set xs then xs else xs @ [a]) as xs)
    \<and> set (fold (\<lambda>a xs. if a \<in> set xs then xs else xs @ [a]) as xs) = set xs \<union> set as
    \<and> (\<exists>ys. fold (\<lambda>a xs. if a \<in> set xs then xs else xs @ [a]) as xs = xs @ ys)"
proof (induction "as" arbitrary: xs)
  case (Cons a "as")
  show ?case
  proof (cases "a \<in> set xs")
    case True
    with Cons.IH [OF Cons.prems] show ?thesis by auto
  next
    case False
    then have "distinct (xs @ [a])" using Cons.prems by simp
    from Cons.IH [OF this] False show ?thesis by auto
  qed
qed simp

text \<open>Resolution: every address of every endpoint, each once, and the first address of the list
  first; an endpoint whose lookup fails removes no other endpoint's addresses.\<close>
theorem resolve_all_complete:
  "distinct (map fst (resolve_all ip_of lookup eps))
   \<and> fst ` set (resolve_all ip_of lookup eps) = (\<Union>ep \<in> set eps. set (endpoint_addrs ip_of lookup ep))
   \<and> (case concat (map (endpoint_addrs ip_of lookup) eps) of
        [] \<Rightarrow> resolve_all ip_of lookup eps = []
      | a # _ \<Rightarrow> map fst (take 1 (resolve_all ip_of lookup eps)) = [a])"
proof -
  let ?as = "concat (map (endpoint_addrs ip_of lookup) eps)"
  let ?f = "fold (\<lambda>a xs. if a \<in> set xs then xs else xs @ [a])"
  have f: "map fst (resolve_all ip_of lookup eps) = ?f ?as []" by (rule resolve_fst)
  have "set (map fst (resolve_all ip_of lookup eps)) = set ?as"
    unfolding f using first_seen [of "[]" ?as] by simp
  moreover have "distinct (map fst (resolve_all ip_of lookup eps))"
    unfolding f using first_seen [of "[]" ?as] by simp
  moreover have "case ?as of [] \<Rightarrow> resolve_all ip_of lookup eps = []
      | a # _ \<Rightarrow> map fst (take 1 (resolve_all ip_of lookup eps)) = [a]"
  proof (cases ?as)
    case Nil
    have "map fst (resolve_all ip_of lookup eps) = ?f [] []" using f unfolding Nil .
    then show ?thesis unfolding Nil by simp
  next
    case (Cons a as')
    then have "?f ?as [] = ?f as' [a]" by simp
    moreover obtain ys where "?f as' [a] = [a] @ ys" using first_seen [of "[a]" as'] by auto
    ultimately have "take 1 (map fst (resolve_all ip_of lookup eps)) = [a]" using f by simp
    with Cons show ?thesis by (simp add: take_map)
  qed
  ultimately show ?thesis by simp
qed

end
