(* ===== verification/AgentConfig.thy ===== *)
theory AgentConfig
  imports Transport "HOL-Library.List_Lexorder" "HOL-Library.Char_ord"
begin

text \<open>
  The agent's configuration (\<open>crates/agent/src/config.rs\<close>) as it is built from the \<open>values\<close>
  object of \<open>ubus call uci get\<close>: every option with its default and its bounds. Durations are
  nanoseconds. A panic of the standard library is an error of its own.
\<close>

section \<open>Options\<close>

type_synonym uci_section = "(string \<times> json) list"

definition uci_opt :: "uci_section \<Rightarrow> string \<Rightarrow> string option" where
  "uci_opt sec name =
     (case map_of sec name of
        None \<Rightarrow> None
      | Some v \<Rightarrow> (case as_str v of
          None \<Rightarrow> None
        | Some s \<Rightarrow> if trim s = [] then None else Some (trim s)))"

definition uci_num :: "(string \<Rightarrow> 'a option) \<Rightarrow> uci_section \<Rightarrow> string \<Rightarrow> 'a \<Rightarrow> 'a" where
  "uci_num parse sec name def =
     (case uci_opt sec name of
        None \<Rightarrow> def
      | Some v \<Rightarrow> (case parse v of Some x \<Rightarrow> x | None \<Rightarrow> def))"

definition uci_flag :: "uci_section \<Rightarrow> string \<Rightarrow> bool \<Rightarrow> bool" where
  "uci_flag sec name def =
     (case map_option to_ascii_lowercase (uci_opt sec name) of
        None \<Rightarrow> def
      | Some v \<Rightarrow> if v \<in> set [''1'', ''on'', ''true'', ''yes'', ''enabled''] then True
          else if v \<in> set [''0'', ''off'', ''false'', ''no'', ''disabled''] then False
          else def)"

definition uci_list :: "uci_section \<Rightarrow> string \<Rightarrow> string list" where
  "uci_list sec name =
     (case map_of sec name of
        Some (JArr items) \<Rightarrow> List.map_filter as_str items
      | Some (JStr s) \<Rightarrow> [s]
      | _ \<Rightarrow> [])"

definition iface_globs :: "uci_section \<Rightarrow> string list" where
  "iface_globs main =
     (let out = concat (map split_whitespace (uci_list main ''iface''));
          out = (if out = [] then map (\<lambda>p. p @ ''*'') (concat (map split_whitespace (uci_list main ''iface_prefix'')))
                 else out);
          out = remdups_adj (sort out)
      in if out = [] then [''awg_*''] else out)"

fun trim_start_matches :: "nat \<Rightarrow> string \<Rightarrow> string \<Rightarrow> string" where
  "trim_start_matches 0 p s = s"
| "trim_start_matches (Suc n) p s = (case strip_prefix p s of Some r \<Rightarrow> trim_start_matches n p r | None \<Rightarrow> s)"

datatype config_error = Not_set string | Bad_endpoint string | Panic | No_reply | No_values

definition default_port :: nat where
  "default_port = 9552"

fun parse_all :: "(string \<Rightarrow> 'ip option) \<Rightarrow> string list \<Rightarrow> config_error + endpoint list" where
  "parse_all ip_of [] = Inr []"
| "parse_all ip_of (e # es) =
     (case parse_endpoint ip_of e default_port of
        Inl err \<Rightarrow> Inl (Bad_endpoint err)
      | Inr ep \<Rightarrow> (case parse_all ip_of es of Inl err \<Rightarrow> Inl err | Inr eps \<Rightarrow> Inr (ep # eps)))"

definition endpoint_entries :: "uci_section \<Rightarrow> string list" where
  "endpoint_entries main =
     (let entries = filter (\<lambda>s. s \<noteq> []) (map trim (uci_list main ''endpoint''))
      in if entries \<noteq> [] then entries
         else case uci_opt main ''controller_url'' of
           None \<Rightarrow> []
         | Some url \<Rightarrow> [hd (split_char CHR ''/''
             (trim_start_matches (length url) ''http://'' (trim_start_matches (length url) ''https://'' url)))])"

definition endpoints :: "(string \<Rightarrow> 'ip option) \<Rightarrow> uci_section \<Rightarrow> config_error + endpoint list" where
  "endpoints ip_of main =
     (let entries = endpoint_entries main
      in if entries = [] then Inl (Not_set ''endpoint'') else parse_all ip_of entries)"

section \<open>Durations\<close>

text \<open>\<open>f64::clamp\<close> leaves NaN alone; \<open>Duration::from_secs_f64\<close> panics on NaN, infinities, negative
  values and values beyond its range.\<close>

definition f_clamp :: "f64 \<Rightarrow> f64 \<Rightarrow> f64 \<Rightarrow> f64" where
  "f_clamp lo hi x = (if f_lt x lo then lo else if f_lt hi x then hi else x)"

fun duration_of_secs :: "f64 \<Rightarrow> nat option" where
  "duration_of_secs (Fin x) = (if 0 \<le> x \<and> x < 2 ^ 64 then Some (nat (round_even (x * 1000000000))) else None)"
| "duration_of_secs _ = None"

text \<open>\<open>Duration::as_secs_f64\<close>.\<close>

definition as_secs_f64 :: "nat \<Rightarrow> f64" where
  "as_secs_f64 ns = f_add (f_of_nat (ns div 1000000000)) (f_div (f_of_nat (ns mod 1000000000)) (Fin 1000000000))"

definition secs :: "nat \<Rightarrow> nat" where
  "secs n = n * 1000000000"

definition clamp :: "nat \<Rightarrow> nat \<Rightarrow> nat \<Rightarrow> nat" where
  "clamp lo hi n = max lo (min hi n)"

section \<open>The configuration\<close>

record agent_cfg =
  ac_agent :: string
  ac_endpoints :: "endpoint list"
  ac_cacert :: string
  ac_cert :: string
  ac_key :: string
  ac_ospf_protocol :: string
  ac_ifaces :: "string list"
  ac_loopback_iface :: string
  ac_excludes :: "string list"
  ac_ping_interval :: nat
  ac_ping_window :: nat
  ac_quiet_max_mbps :: f64
  ac_tcp_duration :: nat
  ac_tcp_rate_mbps :: f64
  ac_iperf_port :: nat
  ac_udp_port :: nat
  ac_udp_rate_mbps :: f64
  ac_iperf_bin :: string
  ac_prometheus_textfile :: "string option"
  ac_prometheus_interval :: nat
  ac_refresh_interval :: nat
  ac_mark_enabled :: bool
  ac_mark_block :: nat
  ac_mark_table :: string
  ac_log_level :: string
  ac_otel_endpoint :: string
  ac_otel_traces :: bool
  ac_otel_logs :: bool

definition str_opt :: "uci_section \<Rightarrow> string \<Rightarrow> string \<Rightarrow> string" where
  "str_opt sec name def = (case uci_opt sec name of Some s \<Rightarrow> s | None \<Rightarrow> def)"

definition required :: "uci_section \<Rightarrow> string \<Rightarrow> config_error + string" where
  "required sec name = (case uci_opt sec name of Some s \<Rightarrow> Inr s | None \<Rightarrow> Inl (Not_set name))"

definition uci_excludes :: "(string \<times> json) list \<Rightarrow> string list" where
  "uci_excludes sections =
     sort (List.map_filter (\<lambda>sec. uci_opt sec ''interface'')
       (filter (\<lambda>sec. (case map_of sec ''.type'' of Some t \<Rightarrow> as_str t | None \<Rightarrow> None) = Some ''exclude'')
         (List.map_filter (\<lambda>(_, v). as_object v) sections)))"

definition uci_object :: "json option \<Rightarrow> uci_section" where
  "uci_object v = (case v of Some (JObj m) \<Rightarrow> m | _ \<Rightarrow> [])"

definition from_uci :: "(string \<Rightarrow> 'ip option) \<Rightarrow> json \<Rightarrow> string \<Rightarrow> config_error + agent_cfg" where
  "from_uci ip_of vals host =
     (let sections = uci_object (Some vals);
          main = uci_object (map_of sections ''main'');
          excludes = uci_excludes sections;
          interval = f_clamp (r64 (1 / 10)) (Fin 60) (uci_num parse_f64 main ''ping_interval'' (Fin 1))
      in case endpoints ip_of main of Inl e \<Rightarrow> Inl e | Inr eps \<Rightarrow>
         case required main ''cacert'' of Inl e \<Rightarrow> Inl e | Inr cacert \<Rightarrow>
         case required main ''cert'' of Inl e \<Rightarrow> Inl e | Inr cert \<Rightarrow>
         case required main ''key'' of Inl e \<Rightarrow> Inl e | Inr key \<Rightarrow>
         case duration_of_secs interval of None \<Rightarrow> Inl Panic | Some ping_interval \<Rightarrow>
         Inr \<lparr>ac_agent = str_opt main ''agent_name'' host, ac_endpoints = eps, ac_cacert = cacert, ac_cert = cert,
           ac_key = key, ac_ospf_protocol = str_opt main ''ospf_protocol'' ''mesh_v3'',
           ac_ifaces = iface_globs main, ac_loopback_iface = str_opt main ''loopback_iface'' ''dummy_awg'',
           ac_excludes = excludes, ac_ping_interval = ping_interval,
           ac_ping_window = clamp 2 3600 (uci_num (parse_unsigned 64) main ''ping_window'' 60),
           ac_quiet_max_mbps = uci_num parse_f64 main ''quiet_max_mbps'' (Fin 15),
           ac_tcp_duration = secs (clamp 1 60 (uci_num (parse_unsigned 64) main ''tcp_duration'' 4)),
           ac_tcp_rate_mbps = f_max (uci_num parse_f64 main ''tcp_rate_mbps'' (Fin 20)) (Fin 0),
           ac_iperf_port = uci_num (parse_unsigned 16) main ''iperf_port'' 5201,
           ac_udp_port = uci_num (parse_unsigned 16) main ''udp_port'' 0,
           ac_udp_rate_mbps = f_max (uci_num parse_f64 main ''udp_rate_mbps'' (Fin 20)) (Fin 0),
           ac_iperf_bin = str_opt main ''iperf_bin'' ''iperf3'',
           ac_prometheus_textfile = uci_opt main ''prometheus_textfile'',
           ac_prometheus_interval = secs (max (uci_num (parse_unsigned 64) main ''prometheus_interval'' 20) 1),
           ac_refresh_interval = secs (max (uci_num (parse_unsigned 64) main ''refresh_interval'' 60) 10),
           ac_mark_enabled = uci_flag main ''mark_enabled'' True,
           ac_mark_block = secs (clamp 2 600 (uci_num (parse_unsigned 64) main ''mark_block_secs'' 10)),
           ac_mark_table = str_opt main ''mark_table'' ''inet fw4'',
           ac_log_level = str_opt main ''log_level'' ''notice'',
           ac_otel_endpoint = str_opt main ''otel_endpoint'' [],
           ac_otel_traces = uci_flag main ''otel_traces'' True,
           ac_otel_logs = uci_flag main ''otel_logs'' False\<rparr>)"

text \<open>Loading: the reply of the call, or its failure.\<close>

definition load_config :: "(string \<Rightarrow> 'ip option) \<Rightarrow> json option \<Rightarrow> string \<Rightarrow> config_error + agent_cfg" where
  "load_config ip_of reply host =
     (case reply of
        None \<Rightarrow> Inl No_reply
      | Some r \<Rightarrow> (case j_get r ''values'' of
          None \<Rightarrow> Inl No_values
        | Some vals \<Rightarrow> from_uci ip_of vals host))"

definition hostname :: "string option \<Rightarrow> string" where
  "hostname file = (case map_option trim file of Some s \<Rightarrow> if s = [] then ''mielofon-agent'' else s
     | None \<Rightarrow> ''mielofon-agent'')"

section \<open>Lemmas\<close>

lemma tenth: "r64 (1 / 10) = Fin (3602879701896397 / 36028797018963968)"
  by code_simp

lemma f_clamp_cases:
  "f_clamp (Fin a) (Fin b) x = NaN \<or> (\<exists>q. f_clamp (Fin a) (Fin b) x = Fin q \<and> (a \<le> b \<longrightarrow> a \<le> q \<and> q \<le> b))"
  by (cases x) (auto simp: f_clamp_def)

lemma duration_bounds:
  assumes "duration_of_secs (f_clamp (r64 (1 / 10)) (Fin 60) x) = Some d"
  shows "100000000 \<le> d \<and> d \<le> 60000000000"
proof -
  obtain q where q: "f_clamp (r64 (1 / 10)) (Fin 60) x = Fin q" "3602879701896397 / 36028797018963968 \<le> q" "q \<le> 60"
    using f_clamp_cases [of "3602879701896397 / 36028797018963968" 60 x] assms by (auto simp: tenth)
  have "d = nat (round_even (q * 1000000000))" using assms q by (auto split: if_splits)
  moreover have "100000000 \<le> round_even (q * 1000000000)" using q(2) by (intro round_even_ge) simp
  moreover have "round_even (q * 1000000000) \<le> 60000000000" using q(3) by (intro round_even_le) simp
  ultimately show ?thesis by linarith
qed

lemma parse_all_length: "parse_all ip_of es = Inr eps \<Longrightarrow> length eps = length es"
  by (induction ip_of es arbitrary: eps rule: parse_all.induct) (auto split: sum.splits)

lemma sorted_remdups_adj_distinct: "sorted xs \<Longrightarrow> distinct (remdups_adj (xs :: 'a :: linorder list))"
  by (induction xs rule: remdups_adj.induct) (auto simp: order_antisym)

lemma iface_globs_ok: "iface_globs main \<noteq> [] \<and> sorted (iface_globs main) \<and> distinct (iface_globs main)"
  by (auto simp: iface_globs_def Let_def sorted_remdups_adj sorted_remdups_adj_distinct)

section \<open>Properties\<close>

text \<open>C36: whatever the UCI values are, a configuration that loads is usable: at least one endpoint and one
  interface glob, and every cadence, window, duration and rate within its bounds.\<close>
theorem config_within_bounds:
  assumes "from_uci ip_of vals host = Inr c"
  shows "ac_endpoints c \<noteq> [] \<and> ac_ifaces c \<noteq> [] \<and> sorted (ac_ifaces c) \<and> distinct (ac_ifaces c)
    \<and> sorted (ac_excludes c)
    \<and> 100000000 \<le> ac_ping_interval c \<and> ac_ping_interval c \<le> secs 60
    \<and> 2 \<le> ac_ping_window c \<and> ac_ping_window c \<le> 3600
    \<and> secs 1 \<le> ac_tcp_duration c \<and> ac_tcp_duration c \<le> secs 60
    \<and> secs 2 \<le> ac_mark_block c \<and> ac_mark_block c \<le> secs 600
    \<and> secs 1 \<le> ac_prometheus_interval c \<and> secs 10 \<le> ac_refresh_interval c
    \<and> \<not> f_lt (ac_tcp_rate_mbps c) (Fin 0) \<and> \<not> f_lt (ac_udp_rate_mbps c) (Fin 0)"
proof -
  define main where "main = uci_object (map_of (uci_object (Some vals)) ''main'')"
  define iv where "iv = f_clamp (r64 (1 / 10)) (Fin 60) (uci_num parse_f64 main ''ping_interval'' (Fin 1))"
  obtain eps where eps: "endpoints ip_of main = Inr eps" "ac_endpoints c = eps"
    and d: "duration_of_secs iv = Some (ac_ping_interval c)"
    and i: "ac_ifaces c = iface_globs main"
    and x: "ac_excludes c = uci_excludes (uci_object (Some vals))"
    and n: "ac_ping_window c = clamp 2 3600 (uci_num (parse_unsigned 64) main ''ping_window'' 60)"
      "ac_tcp_duration c = secs (clamp 1 60 (uci_num (parse_unsigned 64) main ''tcp_duration'' 4))"
      "ac_mark_block c = secs (clamp 2 600 (uci_num (parse_unsigned 64) main ''mark_block_secs'' 10))"
      "ac_prometheus_interval c = secs (max (uci_num (parse_unsigned 64) main ''prometheus_interval'' 20) 1)"
      "ac_refresh_interval c = secs (max (uci_num (parse_unsigned 64) main ''refresh_interval'' 60) 10)"
      "ac_tcp_rate_mbps c = f_max (uci_num parse_f64 main ''tcp_rate_mbps'' (Fin 20)) (Fin 0)"
      "ac_udp_rate_mbps c = f_max (uci_num parse_f64 main ''udp_rate_mbps'' (Fin 20)) (Fin 0)"
    using assms unfolding from_uci_def Let_def main_def [symmetric] iv_def [symmetric]
    by (auto split: sum.splits option.splits)
  have "eps \<noteq> []" using eps(1) parse_all_length by (fastforce simp: endpoints_def Let_def split: if_splits)
  moreover have "sorted (ac_excludes c)" by (simp add: x uci_excludes_def)
  moreover have "\<not> f_lt (f_max y (Fin 0)) (Fin 0)" for y by (cases y) (auto simp: f_max_def)
  ultimately show ?thesis
    using duration_bounds [OF d [unfolded iv_def]] iface_globs_ok [of main]
    by (auto simp: eps i n clamp_def secs_def)
qed

text \<open>A minimal configuration, and one with out-of-range options.\<close>

definition uci_minimal :: "(string \<times> json) list \<Rightarrow> json" where
  "uci_minimal opts = JObj [(''main'', JObj (opts @ [(''endpoint'', JArr [JStr ''hub.example.com:9552'', JStr ''203.0.113.1'']),
     (''cacert'', JStr ''ca''), (''cert'', JStr ''c''), (''key'', JStr ''k'')])),
     (''x'', JObj [(''.type'', JStr ''exclude''), (''interface'', JStr ''awg_legacy'')])]"

lemma wild_config_loads:
  "case from_uci (\<lambda>_. None :: nat option) (uci_minimal [(''ping_interval'', JStr ''0.001''), (''ping_window'', JStr ''1''),
       (''tcp_rate_mbps'', JStr ''-3'')]) ''host'' of
     Inr c \<Rightarrow> ac_ping_interval c = 100000000 \<and> ac_ping_window c = 2 \<and> ac_tcp_rate_mbps c = Fin 0
       \<and> ac_excludes c = [''awg_legacy''] \<and> length (ac_endpoints c) = 2 \<and> ac_agent c = ''host''
   | Inl _ \<Rightarrow> False"
  by code_simp

theorem config_within_bounds_witness:
  "\<exists>c. from_uci (\<lambda>_. None :: nat option) (uci_minimal [(''ping_interval'', JStr ''0.001''), (''ping_window'', JStr ''1''),
       (''tcp_rate_mbps'', JStr ''-3'')]) ''host'' = Inr c \<and> ac_endpoints c \<noteq> [] \<and> 2 \<le> ac_ping_window c"
proof -
  obtain c where c: "from_uci (\<lambda>_. None :: nat option) (uci_minimal [(''ping_interval'', JStr ''0.001''),
      (''ping_window'', JStr ''1''), (''tcp_rate_mbps'', JStr ''-3'')]) ''host'' = Inr c"
    using wild_config_loads by (auto split: sum.splits)
  from config_within_bounds [OF this] c show ?thesis by blast
qed

text \<open>\<open>nan\<close> is a number to the parser and passes the clamp: the conversion to a duration panics and
  the agent does not start, although malformed options are meant to fall back to their defaults.\<close>
lemma nan_interval_panics:
  "from_uci (\<lambda>_. None :: nat option) (uci_minimal [(''ping_interval'', JStr ''nan'')]) ''host'' = Inl Panic"
  by code_simp

end
