(* ===== verification/Discover.thy ===== *)
theory Discover
  imports AgentConfig
begin

text \<open>
  Link discovery of the agent (\<open>crates/agent/src/discover.rs\<close>): the managed links from a
  \<open>bird status\<close> snapshot and the netifd status of each interface. The bus is a function of object
  and method (a failed call is no reply); parsing an IPv6 address is an argument.
\<close>

unbundle bit_operations_syntax

section \<open>Links\<close>

type_synonym ipv6 = "128 word"

record link =
  li_interface :: string
  li_to :: string
  li_source :: ipv6
  li_target :: ipv6
  li_peer_ll :: "ipv6 option"
  li_cost :: "nat option"
  li_peer_rid :: "string option"

record discovered =
  di_links :: "link list"
  di_router_id :: "string option"

type_synonym bus = "string \<Rightarrow> string \<Rightarrow> json option"

section \<open>Names\<close>

definition peer_hostname :: "string \<Rightarrow> string option" where
  "peer_hostname name =
     (case strip_prefix ''peer_'' name of
        None \<Rightarrow> None
      | Some host \<Rightarrow> if host = [] then None else Some (map (\<lambda>c. if c = CHR ''_'' then CHR ''.'' else c) host))"

definition peer_name :: "json \<Rightarrow> string option" where
  "peer_name bgp =
     (case map_option trim (as_str (j_index bgp ''description'')) of
        Some (c # d) \<Rightarrow> Some (c # d)
      | _ \<Rightarrow> (case as_str (j_index bgp ''name'') of Some n \<Rightarrow> peer_hostname n | None \<Rightarrow> None))"

definition peer_short_label :: "string \<Rightarrow> string" where
  "peer_short_label host = hd (split_char CHR ''.'' host)"

fun glob_match :: "string \<Rightarrow> string \<Rightarrow> bool" where
  "glob_match [] n = (n = [])"
| "glob_match (c # p) n =
     (if c = CHR ''*'' then list_ex (\<lambda>k. glob_match p (drop k n)) [0..<Suc (length n)]
      else if c = CHR ''?'' then n \<noteq> [] \<and> glob_match p (tl n)
      else n \<noteq> [] \<and> hd n = c \<and> glob_match p (tl n))"

definition glob_token :: "string \<Rightarrow> string \<Rightarrow> string option" where
  "glob_token pattern name =
     (case split_once CHR ''*'' pattern of
        None \<Rightarrow> None
      | Some (pre, suf) \<Rightarrow>
          if CHR ''*'' \<in> set suf \<or> CHR ''?'' \<in> set pre \<or> CHR ''?'' \<in> set suf then None
          else case strip_prefix pre name of
                 None \<Rightarrow> None
               | Some r \<Rightarrow> (case strip_suffix suf r of
                   None \<Rightarrow> None
                 | Some mid \<Rightarrow> if mid = [] then None else Some mid))"

definition iface_token :: "string \<Rightarrow> string list \<Rightarrow> string option" where
  "iface_token iface globs = (case find (\<lambda>g. glob_match g iface) globs of
     Some g \<Rightarrow> glob_token g iface | None \<Rightarrow> None)"

section \<open>The snapshot\<close>

definition mesh_ospf :: "json \<Rightarrow> agent_cfg \<Rightarrow> json option" where
  "mesh_ospf status cfg =
     (case as_array (j_index status ''ospf'') of
        None \<Rightarrow> None
      | Some a \<Rightarrow> find (\<lambda>x. j_index x ''protocol'' = JStr (ac_ospf_protocol cfg)) a)"

text \<open>The peers of the snapshot: node name and router id.\<close>

definition bgp_peers :: "json \<Rightarrow> (string \<times> string option) list" where
  "bgp_peers status = List.map_filter (\<lambda>b. case peer_name b of
       Some host \<Rightarrow> Some (host, as_str (j_index b ''neighbor_id'')) | None \<Rightarrow> None) (elements (j_index status ''bgp''))"

text \<open>A pair of strings of one row of a table.\<close>

definition row_strs :: "string \<Rightarrow> string \<Rightarrow> json \<Rightarrow> (string \<times> string) option" where
  "row_strs a b row = (case (as_str (j_index row a), as_str (j_index row b)) of
     (Some x, Some y) \<Rightarrow> Some (x, y) | _ \<Rightarrow> None)"

definition resolve_peer ::
  "string list \<Rightarrow> (string \<times> string option) list \<Rightarrow> (string, string) hmap \<Rightarrow> (string, string) hmap \<Rightarrow> string
    \<Rightarrow> string option" where
  "resolve_peer globs peers rid_of known iface =
     (let by_label = collect_map (map (\<lambda>(h, _). (peer_short_label h, h)) peers);
          by_rid = collect_map (List.map_filter (\<lambda>(h, rid). map_option (\<lambda>r. (r, h)) rid) peers)
      in case (case hm_get rid_of iface of Some rid \<Rightarrow> hm_get by_rid rid | None \<Rightarrow> None) of
           Some h \<Rightarrow> Some h
         | None \<Rightarrow> (case hm_get known iface of
             Some h \<Rightarrow> Some h
           | None \<Rightarrow> (case iface_token iface globs of
               Some t \<Rightarrow> hm_get by_label t
             | None \<Rightarrow> None)))"

text \<open>An interface row passes: a point-to-point interface a glob selects and no exclusion names.\<close>

definition managed_iface :: "agent_cfg \<Rightarrow> json \<Rightarrow> string option" where
  "managed_iface cfg row =
     (case as_str (j_index row ''interface'') of
        None \<Rightarrow> None
      | Some iface \<Rightarrow>
          if (case as_str (j_index row ''type'') of Some t \<Rightarrow> t \<noteq> ''ptp'' | None \<Rightarrow> False) then None
          else if \<not> list_ex (\<lambda>g. glob_match g iface) (ac_ifaces cfg) then None
          else if iface \<in> set (ac_excludes cfg) then None
          else Some iface)"

definition select_links :: "json \<Rightarrow> agent_cfg \<Rightarrow> (string, string) hmap \<Rightarrow> (string \<times> string) list" where
  "select_links status cfg known =
     (case mesh_ospf status cfg of
        None \<Rightarrow> []
      | Some ospf \<Rightarrow>
          let peers = bgp_peers status;
              rid_of = collect_map (List.map_filter (row_strs ''interface'' ''rid'') (elements (j_index ospf ''neighbors'')))
          in List.map_filter (\<lambda>row. case managed_iface cfg row of
               None \<Rightarrow> None
             | Some iface \<Rightarrow> map_option (\<lambda>h. (iface, h)) (resolve_peer (ac_ifaces cfg) peers rid_of known iface))
             (elements (j_index ospf ''interfaces'')))"

section \<open>Addresses\<close>

definition is_link_local :: "ipv6 \<Rightarrow> bool" where
  "is_link_local a \<longleftrightarrow> (ucast (drop_bit 112 a) :: 16 word) AND 0xffc0 = 0xfe80"

definition is_global :: "ipv6 \<Rightarrow> bool" where
  "is_global a \<longleftrightarrow> \<not> is_link_local a"

definition ipv6_addresses :: "(string \<Rightarrow> ipv6 option) \<Rightarrow> json \<Rightarrow> (ipv6 \<times> nat option) list" where
  "ipv6_addresses ip_of status = List.map_filter (\<lambda>a.
     (case as_str (j_index a ''address'') of
        None \<Rightarrow> None
      | Some s \<Rightarrow> map_option (\<lambda>ip. (ip, as_u64 (j_index a ''mask''))) (ip_of s)))
     (elements (j_index status ''ipv6-address''))"

definition derive_address :: "(string \<Rightarrow> ipv6 option) \<Rightarrow> json \<Rightarrow> (ipv6 \<times> ipv6) option" where
  "derive_address ip_of status =
     (let addrs = ipv6_addresses ip_of status;
          source = (case find (\<lambda>(a, mask). mask = Some 127 \<and> is_global a) addrs of
              Some (a, _) \<Rightarrow> Some a
            | None \<Rightarrow> map_option fst (find (\<lambda>(a, _). is_global a) addrs))
      in map_option (\<lambda>s. (s, s XOR 1)) source)"

definition loopback_address :: "(string \<Rightarrow> ipv6 option) \<Rightarrow> json \<Rightarrow> ipv6 option" where
  "loopback_address ip_of status = find is_global (map fst (ipv6_addresses ip_of status))"

definition cost_row :: "json \<Rightarrow> (string \<times> nat) option" where
  "cost_row i = (case (as_str (j_index i ''interface''), as_u64 (j_index i ''cost'')) of
     (Some iface, Some c) \<Rightarrow> if c < 2 ^ 32 then Some (iface, c) else None
   | _ \<Rightarrow> None)"

definition interface_costs :: "json \<Rightarrow> agent_cfg \<Rightarrow> (string, nat) hmap" where
  "interface_costs status cfg =
     (case mesh_ospf status cfg of
        None \<Rightarrow> []
      | Some ospf \<Rightarrow> collect_map (List.map_filter cost_row (elements (j_index ospf ''interfaces''))))"

definition neighbor_rids :: "json \<Rightarrow> agent_cfg \<Rightarrow> (string, string) hmap" where
  "neighbor_rids status cfg =
     (case mesh_ospf status cfg of
        None \<Rightarrow> []
      | Some ospf \<Rightarrow> collect_map (List.map_filter (row_strs ''interface'' ''rid'') (elements (j_index ospf ''neighbors''))))"

definition neighbor_row :: "(string \<Rightarrow> ipv6 option) \<Rightarrow> json \<Rightarrow> (string \<times> ipv6) option" where
  "neighbor_row ip_of n =
     (case row_strs ''interface'' ''ip'' n of
        None \<Rightarrow> None
      | Some (iface, s) \<Rightarrow> (case ip_of s of
          Some ip \<Rightarrow> if is_link_local ip then Some (iface, ip) else None
        | None \<Rightarrow> None))"

definition neighbor_addrs :: "(string \<Rightarrow> ipv6 option) \<Rightarrow> json \<Rightarrow> agent_cfg \<Rightarrow> (string, ipv6) hmap" where
  "neighbor_addrs ip_of status cfg =
     (case mesh_ospf status cfg of
        None \<Rightarrow> []
      | Some ospf \<Rightarrow> collect_map (List.map_filter (neighbor_row ip_of) (elements (j_index ospf ''neighbors''))))"

section \<open>Discovery\<close>

definition netifd_object :: "string \<Rightarrow> string" where
  "netifd_object iface = ''network.interface.'' @ iface"

definition discover_link ::
  "(string \<Rightarrow> ipv6 option) \<Rightarrow> bus \<Rightarrow> json \<Rightarrow> agent_cfg \<Rightarrow> string \<times> string \<Rightarrow> link option" where
  "discover_link ip_of bus status cfg = (\<lambda>(iface, peer).
     (case bus (netifd_object iface) ''status'' of
        None \<Rightarrow> None
      | Some st \<Rightarrow>
          map_option (\<lambda>(source, target).
            \<lparr>li_interface = iface, li_to = peer, li_source = source, li_target = target,
             li_peer_ll = hm_get (neighbor_addrs ip_of status cfg) iface,
             li_cost = hm_get (interface_costs status cfg) iface,
             li_peer_rid = hm_get (neighbor_rids status cfg) iface\<rparr>)
            (derive_address ip_of st)))"

definition discover :: "(string \<Rightarrow> ipv6 option) \<Rightarrow> bus \<Rightarrow> agent_cfg \<Rightarrow> (string, string) hmap \<Rightarrow> discovered" where
  "discover ip_of bus cfg known =
     (case bus ''bird'' ''status'' of
        None \<Rightarrow> \<lparr>di_links = [], di_router_id = None\<rparr>
      | Some status \<Rightarrow>
          \<lparr>di_links = sort_key li_interface
             (List.map_filter (discover_link ip_of bus status cfg) (select_links status cfg known)),
           di_router_id = (case as_str (j_index (j_index status ''status'') ''router_id'') of
             Some (c # r) \<Rightarrow> Some (c # r) | _ \<Rightarrow> None)\<rparr>)"

definition discover_loopback :: "(string \<Rightarrow> ipv6 option) \<Rightarrow> bus \<Rightarrow> agent_cfg \<Rightarrow> ipv6 option" where
  "discover_loopback ip_of bus cfg =
     (case bus (netifd_object (ac_loopback_iface cfg)) ''status'' of
        None \<Rightarrow> None
      | Some st \<Rightarrow> loopback_address ip_of st)"

section \<open>Globs\<close>

text \<open>The names a pattern stands for.\<close>

fun glob_lang :: "string \<Rightarrow> string set" where
  "glob_lang [] = {[]}"
| "glob_lang (c # p) =
     (if c = CHR ''*'' then {u @ v |u v. v \<in> glob_lang p}
      else if c = CHR ''?'' then {d # v |d v. v \<in> glob_lang p}
      else {c # v |v. v \<in> glob_lang p})"

lemma some_suffix: "list_ex (\<lambda>k. P (drop k n)) [0..<Suc (length n)] \<longleftrightarrow> (\<exists>u v. n = u @ v \<and> P v)"
proof
  assume "list_ex (\<lambda>k. P (drop k n)) [0..<Suc (length n)]"
  then obtain k where "P (drop k n)" unfolding list_ex_iff by blast
  then show "\<exists>u v. n = u @ v \<and> P v"
    by (intro exI [of _ "take k n"] exI [of _ "drop k n"]) simp
next
  assume "\<exists>u v. n = u @ v \<and> P v"
  then obtain u v where "n = u @ v" "P v" by blast
  then have "length u < Suc (length n)" "P (drop (length u) n)" by simp_all
  then show "list_ex (\<lambda>k. P (drop k n)) [0..<Suc (length n)]"
    unfolding list_ex_iff set_upt by fastforce
qed

text \<open>C34: the backtracking matcher decides the language of the pattern: a star stands for any run, a
  question mark for one character, anything else for itself.\<close>
theorem glob_match_language: "glob_match p n = (n \<in> glob_lang p)"
proof (induction p n rule: glob_match.induct)
  case (2 c p n)
  consider "c = CHR ''*''" | "c = CHR ''?''" | "c \<noteq> CHR ''*''" "c \<noteq> CHR ''?''" by blast
  then show ?case
  proof cases
    case 1
    have "glob_match (c # p) n \<longleftrightarrow> (\<exists>u v. n = u @ v \<and> glob_match p v)"
      using 1 some_suffix [of "glob_match p" n] by simp
    also have "\<dots> \<longleftrightarrow> (\<exists>u v. n = u @ v \<and> v \<in> glob_lang p)"
    proof -
      have "glob_match p v = (v \<in> glob_lang p)" if "n = u @ v" for u v
      proof -
        have "length u \<in> set [0..<Suc (length n)]" using that by simp
        from 2(1) [OF 1 this] that show ?thesis by simp
      qed
      then show ?thesis by blast
    qed
    finally show ?thesis using 1 by simp
  next
    case 2
    then show ?thesis using "2.IH"(2) by (cases n) auto
  next
    case 3
    then show ?thesis using "2.IH"(3) by (cases n) auto
  qed
qed simp

text \<open>The token of a name is what the star of the pattern stands for.\<close>

lemma glob_lang_literal: "CHR ''*'' \<notin> set p \<Longrightarrow> CHR ''?'' \<notin> set p \<Longrightarrow> glob_lang (p @ q) = {p @ v |v. v \<in> glob_lang q}"
  by (induction p) auto

lemma glob_token_lang:
  assumes "glob_token p n = Some t"
  shows "\<exists>pre suf. p = pre @ ''*'' @ suf \<and> n = pre @ t @ suf \<and> t \<noteq> [] \<and> n \<in> glob_lang p"
proof -
  obtain pre suf r where s: "split_once CHR ''*'' p = Some (pre, suf)" "CHR ''*'' \<notin> set suf" "CHR ''?'' \<notin> set pre"
      "CHR ''?'' \<notin> set suf" "strip_prefix pre n = Some r" "strip_suffix suf r = Some t" "t \<noteq> []"
    using assms by (auto simp: glob_token_def split: option.splits if_splits)
  have p: "p = pre @ CHR ''*'' # suf" "CHR ''*'' \<notin> set pre" using split_once_SomeD [OF s(1)] by auto
  have n: "n = pre @ t @ suf" using s(5,6) by (simp add: strip_prefix_iff strip_suffix_iff)
  have "glob_lang suf = {suf}" using glob_lang_literal [OF s(2,4), of "[]"] by simp
  then have "n \<in> glob_lang p" using p s(3) by (auto simp: glob_lang_literal n)
  with p n s(7) show ?thesis by auto
qed

section \<open>Addresses of a tunnel\<close>

lemma is_global_xor: "is_global (a XOR 1) = is_global a"
proof -
  have "drop_bit 112 (a XOR 1) = drop_bit 112 a"
    by (rule bit_word_eqI) (auto simp: bit_simps)
  then show ?thesis by (simp add: is_global_def is_link_local_def)
qed

lemma derive_address_global:
  "derive_address ip_of st = Some (s, t) \<Longrightarrow> is_global s \<and> t = s XOR 1"
  by (auto simp: derive_address_def Let_def find_Some_iff split: option.splits)

lemma find_append: "find P (xs @ ys) = (case find P xs of Some x \<Rightarrow> Some x | None \<Rightarrow> find P ys)"
  by (induction xs) auto

text \<open>The two ends of a tunnel probe each other: when one end derives source \<open>s\<close> and target \<open>t\<close>, and
  the other end's first global address is \<open>t\<close> with a /127 mask, the other end derives source \<open>t\<close> and
  target \<open>s\<close>.\<close>
theorem tunnel_ends_agree:
  assumes "derive_address ip_of near = Some (s, t)"
    "ipv6_addresses ip_of far = lls @ (t, Some 127) # rest" "list_all (\<lambda>(a, _). is_link_local a) lls"
  shows "derive_address ip_of far = Some (t, s)"
proof -
  have t: "is_global s" "t = s XOR 1" using derive_address_global [OF assms(1)] by simp_all
  then have g: "is_global t" by (simp add: is_global_xor)
  have "find (\<lambda>(a, mask). mask = Some 127 \<and> is_global a) lls = None"
    using assms(3) by (auto simp: find_None_iff list_all_iff is_global_def)
  then have "find (\<lambda>(a, mask). mask = Some 127 \<and> is_global a) (ipv6_addresses ip_of far) = Some (t, Some 127)"
    using g by (simp add: assms(2) find_append)
  moreover have "t XOR 1 = s" by (simp add: t(2) xor.assoc)
  ultimately show ?thesis by (simp add: derive_address_def)
qed

text \<open>A table of addresses for the witnesses.\<close>

definition ip_table :: "string \<Rightarrow> ipv6 option" where
  "ip_table s = map_of [(''fe80::1'', 0xfe800000000000000000000000000001), (''fd00::40:1'', 0xfd000000000000000000000000400001),
     (''fd00::40:0'', 0xfd000000000000000000000000400000)] s"

definition addr_status :: "(string \<times> int) list \<Rightarrow> json" where
  "addr_status as = JObj [(''ipv6-address'', JArr (map (\<lambda>(a, m). JObj [(''address'', JStr a), (''mask'', JInt m)]) as))]"

theorem tunnel_ends_agree_witness:
  "derive_address ip_table (addr_status [(''fe80::1'', 64), (''fd00::40:0'', 127)])
   = Some (0xfd000000000000000000000000400000, 0xfd000000000000000000000000400001)"
proof (rule tunnel_ends_agree)
  show "derive_address ip_table (addr_status [(''fd00::40:1'', 127)])
      = Some (0xfd000000000000000000000000400001, 0xfd000000000000000000000000400000)"
    by code_simp
  show "ipv6_addresses ip_table (addr_status [(''fe80::1'', 64), (''fd00::40:0'', 127)])
      = [(0xfe800000000000000000000000000001, Some 64)] @ (0xfd000000000000000000000000400000, Some 127) # []"
    by code_simp
  show "list_all (\<lambda>(a, _). is_link_local a) [(0xfe800000000000000000000000000001, Some 64 :: nat option)]"
    by code_simp
qed

section \<open>What discovery yields\<close>

definition link_ok :: "agent_cfg \<Rightarrow> link \<Rightarrow> bool" where
  "link_ok cfg l \<longleftrightarrow> list_ex (\<lambda>g. glob_match g (li_interface l)) (ac_ifaces cfg)
     \<and> li_interface l \<notin> set (ac_excludes cfg)
     \<and> is_global (li_source l) \<and> li_target l = li_source l XOR 1
     \<and> (case li_peer_ll l of Some a \<Rightarrow> is_link_local a | None \<Rightarrow> True)
     \<and> (case li_cost l of Some c \<Rightarrow> c < 2 ^ 32 | None \<Rightarrow> True)"

lemma set_map_filter_iff: "y \<in> set (List.map_filter f xs) \<longleftrightarrow> (\<exists>x \<in> set xs. f x = Some y)"
  by (induction xs) (auto simp: List.map_filter_simps split: option.splits)

lemma collect_map_values:
  assumes "hm_get (collect_map ps) k = Some v" shows "(k, v) \<in> set ps"
  using assms by (auto simp: collect_map_get dest: map_of_SomeD)

lemma neighbor_row_local: "neighbor_row ip_of n = Some (i, a) \<Longrightarrow> is_link_local a"
  by (cases "row_strs ''interface'' ''ip'' n")
    (auto simp: neighbor_row_def split: option.split_asm prod.split_asm if_split_asm)

lemma cost_row_width: "cost_row r = Some (i, c) \<Longrightarrow> c < 2 ^ 32"
  by (cases "as_str (j_index r ''interface'')"; cases "as_u64 (j_index r ''cost'')")
    (auto simp: cost_row_def split: if_split_asm)

lemma neighbor_addrs_local: "hm_get (neighbor_addrs ip_of status cfg) i = Some a \<Longrightarrow> is_link_local a"
  by (auto simp: neighbor_addrs_def set_map_filter_iff split: option.split_asm
      dest!: collect_map_values dest: neighbor_row_local)

lemma interface_costs_width: "hm_get (interface_costs status cfg) i = Some c \<Longrightarrow> c < 2 ^ 32"
  by (auto simp: interface_costs_def set_map_filter_iff split: option.split_asm
      dest!: collect_map_values dest: cost_row_width simp del: power_numeral)

lemma select_links_managed:
  "(i, h) \<in> set (select_links status cfg known) \<Longrightarrow> list_ex (\<lambda>g. glob_match g i) (ac_ifaces cfg) \<and> i \<notin> set (ac_excludes cfg)"
  by (auto simp: select_links_def managed_iface_def Let_def set_map_filter_iff split: option.splits if_splits)

lemma discover_link_ok:
  assumes "discover_link ip_of bus status cfg p = Some l" "p \<in> set (select_links status cfg known)"
  shows "link_ok cfg l"
proof -
  obtain i h s t st where p: "p = (i, h)" and d: "derive_address ip_of st = Some (s, t)"
    and l: "l = \<lparr>li_interface = i, li_to = h, li_source = s, li_target = t,
             li_peer_ll = hm_get (neighbor_addrs ip_of status cfg) i,
             li_cost = hm_get (interface_costs status cfg) i,
             li_peer_rid = hm_get (neighbor_rids status cfg) i\<rparr>"
    using assms(1) by (auto simp: discover_link_def split: option.splits prod.splits)
  show ?thesis
    using select_links_managed assms(2) derive_address_global [OF d]
    by (auto simp: link_ok_def l p split: option.splits dest: neighbor_addrs_local interface_costs_width)
qed

text \<open>C26: discovery yields well-formed links only, sorted by interface: each interface is selected by a
  glob and not excluded, its source is global and its target the other address of the pair, its
  neighbour address is link-local, its cost fits 32 bits.\<close>
theorem discovered_links_well_formed:
  "list_all (link_ok cfg) (di_links (discover ip_of bus cfg known))
   \<and> sorted (map li_interface (di_links (discover ip_of bus cfg known)))"
proof (cases "bus ''bird'' ''status''")
  case (Some status)
  have "link_ok cfg l" if "l \<in> set (List.map_filter (discover_link ip_of bus status cfg) (select_links status cfg known))" for l
    using that discover_link_ok by (auto simp: set_map_filter_iff)
  then show ?thesis by (simp add: discover_def Some list_all_iff)
qed (simp add: discover_def)

text \<open>The peer of an interface: the router id of its neighbour first, then what it resolved to before,
  then the token of its name.\<close>

lemma resolve_peer_order:
  "hm_get rid_of i = Some rid \<Longrightarrow> map_of (rev (List.map_filter (\<lambda>(h, r). map_option (\<lambda>r. (r, h)) r) peers)) rid = Some h
    \<Longrightarrow> resolve_peer globs peers rid_of known i = Some h"
  "hm_get rid_of i = None \<Longrightarrow> hm_get known i = Some h \<Longrightarrow> resolve_peer globs peers rid_of known i = Some h"
  by (simp_all add: resolve_peer_def Let_def collect_map_get)

text \<open>A failed snapshot empties the link set and forgets this node's router id.\<close>

lemma failed_snapshot_drops_links: "bus ''bird'' ''status'' = None \<Longrightarrow> discover ip_of bus cfg known = \<lparr>di_links = [], di_router_id = None\<rparr>"
  by (simp add: discover_def)

end
