(* ===== verification/Nft.thy ===== *)
theory Nft
  imports Discover
begin

text \<open>
  The marking rules as the agent handles them (\<open>crates/agent/src/nft.rs\<close>): the sets it reads, the
  colours, the transaction that asserts membership, and the parser of a listing. The \<open>nft\<close> process
  itself is outside: a listing is a document or missing.
\<close>

definition counter_sets :: "string list" where
  "counter_sets = [''mf_tx_a_s'', ''mf_tx_a_l'', ''mf_tx_b_s'', ''mf_tx_b_l'',
     ''mf_rx_a_s'', ''mf_rx_a_l'', ''mf_rx_b_s'', ''mf_rx_b_l'']"

definition colour_map :: string where
  "colour_map = ''mf_colour''"

record set_counters =
  sc_handle :: nat
  sc_elems :: "(string, nat \<times> nat) hmap"

section \<open>Reading a listing\<close>

definition opt_u64 :: "json option \<Rightarrow> nat" where
  "opt_u64 v = (case v of Some j \<Rightarrow> (case as_u64 j of Some n \<Rightarrow> n | None \<Rightarrow> 0) | None \<Rightarrow> 0)"

definition opt_get :: "json option \<Rightarrow> string \<Rightarrow> json option" where
  "opt_get v k = (case v of Some j \<Rightarrow> j_get j k | None \<Rightarrow> None)"

definition opt_str :: "json option \<Rightarrow> string option" where
  "opt_str v = (case v of Some j \<Rightarrow> as_str j | None \<Rightarrow> None)"

definition parse_elem :: "json \<Rightarrow> (string \<times> nat \<times> nat) option" where
  "parse_elem e =
     (case j_get e ''elem'' of
        None \<Rightarrow> None
      | Some el \<Rightarrow> (case opt_str (j_get el ''val'') of
          None \<Rightarrow> None
        | Some iface \<Rightarrow> let c = j_get el ''counter''
            in Some (iface, opt_u64 (opt_get c ''packets''), opt_u64 (opt_get c ''bytes''))))"

definition parse_set :: "string \<Rightarrow> json \<Rightarrow> (string \<times> set_counters) option" where
  "parse_set table item =
     (case j_get item ''set'' of
        None \<Rightarrow> None
      | Some s \<Rightarrow>
          if opt_str (j_get s ''table'') \<noteq> Some table then None
          else case opt_str (j_get s ''name'') of
                 None \<Rightarrow> None
               | Some name \<Rightarrow>
                   if name \<notin> set counter_sets then None
                   else Some (name, \<lparr>sc_handle = opt_u64 (j_get s ''handle''),
                     sc_elems = collect_map (List.map_filter parse_elem
                       (case j_get s ''elem'' of Some v \<Rightarrow> elements v | None \<Rightarrow> []))\<rparr>))"

definition parse_sets :: "json \<Rightarrow> string \<Rightarrow> (string, set_counters) hmap" where
  "parse_sets reply table =
     (case j_get reply ''nftables'' of
        None \<Rightarrow> []
      | Some v \<Rightarrow> collect_map (List.map_filter (parse_set table) (elements v)))"

section \<open>Colours\<close>

datatype colour = Col_A | Col_B

definition of_block :: "nat \<Rightarrow> colour" where
  "of_block n = (if n mod 2 = 0 then Col_A else Col_B)"

fun colour_letter :: "colour \<Rightarrow> char" where
  "colour_letter Col_A = CHR ''a''"
| "colour_letter Col_B = CHR ''b''"

section \<open>The transaction\<close>

definition iface_char :: "char \<Rightarrow> bool" where
  "iface_char c \<longleftrightarrow> (let n = of_char c :: nat in 48 \<le> n \<and> n \<le> 57 \<or> 65 \<le> n \<and> n \<le> 90 \<or> 97 \<le> n \<and> n \<le> 122)
     \<or> c \<in> {CHR ''_'', CHR ''-'', CHR ''.''}"

definition nft_quoted :: "string \<Rightarrow> string option" where
  "nft_quoted iface = (if iface \<noteq> [] \<and> length iface < 16 \<and> list_all iface_char iface
     then Some ([CHR 0x22] @ iface @ [CHR 0x22]) else None)"

fun join :: "string \<Rightarrow> string list \<Rightarrow> string" where
  "join sep [] = []"
| "join sep [x] = x"
| "join sep (x # y # ys) = x @ sep @ join sep (y # ys)"

definition script_line :: "string \<Rightarrow> string" where
  "script_line s = s @ [CHR 0x0A]"

definition add_line :: "string \<Rightarrow> string \<Rightarrow> string \<Rightarrow> string" where
  "add_line table setname body = script_line (''add element '' @ table @ '' '' @ setname @ '' { '' @ body @ '' }'')"

definition assert_script :: "string \<Rightarrow> string list \<Rightarrow> colour \<Rightarrow> string" where
  "assert_script table ifaces colour =
     (let names = List.map_filter nft_quoted ifaces;
          body = join '', '' names;
          adds = (if names = [] then [] else concat (map (\<lambda>s. add_line table s body) counter_sets));
          flush = script_line (''flush map '' @ table @ '' '' @ colour_map);
          chain = ''mielofon_'' @ [colour_letter colour];
          pairs = join '', '' (map (\<lambda>n. n @ '' : jump '' @ chain) names)
      in adds @ flush @ (if names = [] then [] else add_line table colour_map pairs))"

end
