(* ===== verification/AgentMark.thy ===== *)
theory AgentMark
  imports Nft
begin

text \<open>
  The passive tier on the agent (\<open>crates/agent/src/mark.rs\<close>): block numbers, the queue of finished
  blocks, and the read that turns two listings of a colour's counters into the block between them.
  The clock and the replies of \<open>nft\<close> are arguments. The last section models the kernel's counters
  as hypotheses on listings and states what a reported block means.
\<close>

section \<open>The queue\<close>

definition queue_cap :: nat where
  "queue_cap = 64"

type_synonym block_queue = "(string, mark_block list) hmap"

definition queued :: "block_queue \<Rightarrow> string \<Rightarrow> mark_block list" where
  "queued q iface = (case hm_get q iface of Some bs \<Rightarrow> bs | None \<Rightarrow> [])"

definition take_blocks :: "string \<Rightarrow> block_queue \<Rightarrow> mark_block list \<times> block_queue" where
  "take_blocks iface q = (case hm_get q iface of Some bs \<Rightarrow> (bs, hm_insert iface [] q) | None \<Rightarrow> ([], q))"

definition push_block :: "string \<Rightarrow> mark_block \<Rightarrow> block_queue \<Rightarrow> block_queue" where
  "push_block iface b q =
     (let bs = queued q iface; bs = (if queue_cap \<le> length bs then tl bs else bs)
      in hm_insert iface (bs @ [b]) q)"

section \<open>The marker\<close>

record read_outcome =
  ro_blocks :: nat
  ro_resets :: nat

text \<open>\<open>last\<close>: the previous read of each counter set, with the block it was read for.\<close>

record marker =
  mk_family :: string
  mk_table_name :: string
  mk_block :: nat
  mk_queue :: block_queue
  mk_last :: "(string, nat \<times> set_counters) hmap"

definition mk_table :: "marker \<Rightarrow> string" where
  "mk_table m = mk_family m @ '' '' @ mk_table_name m"

definition marker_new :: "string \<Rightarrow> nat \<Rightarrow> block_queue \<Rightarrow> marker" where
  "marker_new table block q =
     (case split_whitespace table of
        [] \<Rightarrow> \<lparr>mk_family = ''inet'', mk_table_name = ''fw4'', mk_block = block, mk_queue = q, mk_last = []\<rparr>
      | [f] \<Rightarrow> \<lparr>mk_family = f, mk_table_name = ''fw4'', mk_block = block, mk_queue = q, mk_last = []\<rparr>
      | f # t # _ \<Rightarrow> \<lparr>mk_family = f, mk_table_name = t, mk_block = block, mk_queue = q, mk_last = []\<rparr>)"

text \<open>The saturating cast of a float to \<open>u64\<close>.\<close>

fun f_to_u64 :: "f64 \<Rightarrow> nat" where
  "f_to_u64 (Fin x) = nat (max 0 (min (2 ^ 64 - 1) (if x < 0 then \<lceil>x\<rceil> else \<lfloor>x\<rfloor>)))"
| "f_to_u64 PInf = 2 ^ 64 - 1"
| "f_to_u64 _ = 0"

definition block_of :: "marker \<Rightarrow> f64 \<Rightarrow> nat" where
  "block_of m unix_secs = f_to_u64 (f_floor (f_div unix_secs (as_secs_f64 (mk_block m))))"

definition flip :: "marker \<Rightarrow> string list \<Rightarrow> nat \<Rightarrow> string" where
  "flip m ifaces n = assert_script (mk_table m) ifaces (of_block n)"

definition block_sets :: "nat \<Rightarrow> string list" where
  "block_sets n = (let c = colour_letter (of_block n)
     in [''mf_tx_'' @ [c] @ ''_s'', ''mf_tx_'' @ [c] @ ''_l'', ''mf_rx_'' @ [c] @ ''_s'', ''mf_rx_'' @ [c] @ ''_l''])"

text \<open>The baseline of a set for block \<open>n\<close>: its read for block \<open>n - 2\<close>.\<close>

definition baseline :: "(string, nat \<times> set_counters) hmap \<Rightarrow> nat \<Rightarrow> string \<Rightarrow> set_counters option" where
  "baseline lst n name = (case hm_get lst name of
     Some (read_for, prev) \<Rightarrow> if read_for + 2 = n then Some prev else None | None \<Rightarrow> None)"

definition checked_sub :: "nat \<Rightarrow> nat \<Rightarrow> nat option" where
  "checked_sub a b = (if b \<le> a then Some (a - b) else None)"

definition set_delta ::
  "(string, nat \<times> set_counters) hmap \<Rightarrow> nat \<Rightarrow> (string, set_counters) hmap \<Rightarrow> string \<Rightarrow> string \<Rightarrow> (nat \<times> nat) option" where
  "set_delta lst n sets iface name =
     (case hm_get sets name of None \<Rightarrow> None | Some cur \<Rightarrow>
      case hm_get (sc_elems cur) iface of None \<Rightarrow> None | Some now \<Rightarrow>
      case baseline lst n name of None \<Rightarrow> None | Some base \<Rightarrow>
      case hm_get (sc_elems base) iface of None \<Rightarrow> None | Some prev \<Rightarrow>
      case checked_sub (fst now) (fst prev) of None \<Rightarrow> None | Some p \<Rightarrow>
        map_option (\<lambda>b. (p, b)) (checked_sub (snd now) (snd prev)))"

definition rebuilt :: "(string, nat \<times> set_counters) hmap \<Rightarrow> nat \<Rightarrow> (string, set_counters) hmap \<Rightarrow> bool" where
  "rebuilt lst n sets = list_ex (\<lambda>name. (case (baseline lst n name, hm_get sets name) of
     (Some prev, Some cur) \<Rightarrow> sc_handle prev \<noteq> sc_handle cur | _ \<Rightarrow> False)) (block_sets n)"

definition had_baseline :: "(string, nat \<times> set_counters) hmap \<Rightarrow> nat \<Rightarrow> string \<Rightarrow> bool" where
  "had_baseline lst n iface = list_all (\<lambda>name. (case baseline lst n name of
     Some prev \<Rightarrow> hm_has (sc_elems prev) iface | None \<Rightarrow> False)) (block_sets n)"

definition finish_block ::
  "(string, nat \<times> set_counters) hmap \<Rightarrow> nat \<Rightarrow> (string, set_counters) hmap \<Rightarrow> nat \<Rightarrow> bool \<Rightarrow> string \<Rightarrow> mark_block" where
  "finish_block lst n sets block under_test iface =
     (let reset_block = mark_block_default\<lparr>mb_n := n, mb_secs := block div 1000000000 mod 2 ^ 32, mb_reset := True,
            mb_under_test := under_test\<rparr>
      in if rebuilt lst n sets then reset_block
         else case map (set_delta lst n sets iface) (block_sets n) of
           [Some tx_s, Some tx_l, Some rx_s, Some rx_l] \<Rightarrow>
             \<lparr>mb_n = n, mb_secs = block div 1000000000 mod 2 ^ 32,
              mb_tx_pkts_s = fst tx_s, mb_tx_pkts_l = fst tx_l, mb_tx_bytes = add64 (snd tx_s) (snd tx_l),
              mb_rx_pkts_s = fst rx_s, mb_rx_pkts_l = fst rx_l, mb_rx_bytes = add64 (snd rx_s) (snd rx_l),
              mb_reset = False, mb_under_test = under_test\<rparr>
         | _ \<Rightarrow> reset_block)"

definition read_iface ::
  "(string, nat \<times> set_counters) hmap \<Rightarrow> nat \<Rightarrow> (string, set_counters) hmap \<Rightarrow> nat \<Rightarrow> bool \<Rightarrow> string
    \<Rightarrow> read_outcome \<times> block_queue \<Rightarrow> read_outcome \<times> block_queue" where
  "read_iface lst n sets block under_test iface = (\<lambda>(out, q).
     if had_baseline lst n iface
     then let b = finish_block lst n sets block under_test iface
          in (\<lparr>ro_blocks = ro_blocks out + 1, ro_resets = ro_resets out + (if mb_reset b then 1 else 0)\<rparr>,
              push_block iface b q)
     else (out, q))"

definition move_baseline ::
  "nat \<Rightarrow> (string, set_counters) hmap \<Rightarrow> (string, nat \<times> set_counters) hmap \<Rightarrow> (string, nat \<times> set_counters) hmap" where
  "move_baseline n sets lst =
     hm_retain (\<lambda>k _. k \<in> set counter_sets)
       (fold (\<lambda>name m. case hm_get sets name of Some cur \<Rightarrow> hm_insert name (n, cur) m | None \<Rightarrow> m) (block_sets n) lst)"

datatype mark_error = No_listing | Missing_set string

definition read_block ::
  "string list \<Rightarrow> nat \<Rightarrow> bool \<Rightarrow> json option \<Rightarrow> marker \<Rightarrow> (mark_error + read_outcome) \<times> marker" where
  "read_block ifaces n under_test reply m =
     (case reply of
        None \<Rightarrow> (Inl No_listing, m)
      | Some r \<Rightarrow>
          let sets = parse_sets r (mk_table_name m)
          in case find (\<lambda>name. \<not> hm_has sets name) (block_sets n) of
               Some name \<Rightarrow> (Inl (Missing_set name), m)
             | None \<Rightarrow>
                 let (out, q) = fold (read_iface (mk_last m) n sets (mk_block m) under_test) ifaces
                       (\<lparr>ro_blocks = 0, ro_resets = 0\<rparr>, mk_queue m)
                 in (Inr out, m\<lparr>mk_queue := q, mk_last := move_baseline n sets (mk_last m)\<rparr>))"

section \<open>Lemmas\<close>

lemma queued_push: "queued (push_block i b q) j = (if j = i
    then (if queue_cap \<le> length (queued q i) then tl (queued q i) else queued q i) @ [b] else queued q j)"
  by (auto simp: push_block_def queued_def Let_def)

lemma queued_take: "queued (snd (take_blocks i q)) j = (if j = i then [] else queued q j)"
  "fst (take_blocks i q) = queued q i"
  by (auto simp: take_blocks_def queued_def split: option.splits)

lemma block_sets_parity: "block_sets (n + 2) = block_sets n"
  by (simp add: block_sets_def of_block_def)

lemma block_sets_counter: "set (block_sets n) \<subseteq> set counter_sets"
  by (cases "of_block n") (simp_all add: block_sets_def Let_def counter_sets_def)

lemma baseline_iff: "baseline lst n name = Some sc \<longleftrightarrow> (\<exists>m. hm_get lst name = Some (m, sc) \<and> m + 2 = n)"
  by (auto simp: baseline_def split: option.splits)

section \<open>What a block means\<close>

text \<open>The kernel, as the listings show it. \<open>listing n\<close> is what a successful read for block \<open>n\<close> returns;
  \<open>traffic name i n\<close> is what a set counted for an interface in block \<open>n\<close>. While a set keeps its handle
  its counters only grow, by the traffic of its colour's blocks.\<close>

type_synonym listings = "nat \<Rightarrow> (string, set_counters) hmap"
type_synonym traffic = "string \<Rightarrow> string \<Rightarrow> nat \<Rightarrow> nat \<times> nat"

definition kernel_counts :: "listings \<Rightarrow> traffic \<Rightarrow> bool" where
  "kernel_counts listing traffic \<longleftrightarrow> (\<forall>n name i prev cur p c.
     name \<in> set (block_sets n) \<longrightarrow> hm_get (listing n) name = Some prev \<longrightarrow> hm_get (listing (n + 2)) name = Some cur \<longrightarrow>
     sc_handle prev = sc_handle cur \<longrightarrow> hm_get (sc_elems prev) i = Some p \<longrightarrow> hm_get (sc_elems cur) i = Some c \<longrightarrow>
     fst c = fst p + fst (traffic name i (n + 2)) \<and> snd c = snd p + snd (traffic name i (n + 2)))"

text \<open>A block is exact: flagged as reset, or the numbers of its interface in its block.\<close>

definition exact_block :: "traffic \<Rightarrow> string \<Rightarrow> mark_block \<Rightarrow> bool" where
  "exact_block traffic i b \<longleftrightarrow>
     (if mb_reset b then True
      else map (\<lambda>name. fst (traffic name i (mb_n b))) (block_sets (mb_n b))
          = [mb_tx_pkts_s b, mb_tx_pkts_l b, mb_rx_pkts_s b, mb_rx_pkts_l b]
        \<and> (case map (\<lambda>name. snd (traffic name i (mb_n b))) (block_sets (mb_n b)) of
             [a, b1, c, d] \<Rightarrow> mb_tx_bytes b = add64 a b1 \<and> mb_rx_bytes b = add64 c d
           | _ \<Rightarrow> False))"

text \<open>What happens to a marker: reads of blocks in any order, each with any reply, and replies that
  drain an interface's queue.\<close>

datatype mark_event = Read_at "string list" nat bool "json option" | Drain string

fun mark_step :: "mark_event \<Rightarrow> marker \<times> (string \<times> mark_block) list \<Rightarrow> marker \<times> (string \<times> mark_block) list" where
  "mark_step (Read_at ifaces n ut reply) (m, out) = (snd (read_block ifaces n ut reply m), out)"
| "mark_step (Drain i) (m, out) =
     (let (bs, q) = take_blocks i (mk_queue m) in (m\<lparr>mk_queue := q\<rparr>, out @ map (Pair i) bs))"

fun event_seen :: "listings \<Rightarrow> string \<Rightarrow> mark_event \<Rightarrow> bool" where
  "event_seen listing table (Read_at _ n _ (Some r)) = (parse_sets r table = listing n)"
| "event_seen listing table _ = True"

definition last_ok :: "listings \<Rightarrow> (string, nat \<times> set_counters) hmap \<Rightarrow> bool" where
  "last_ok listing lst \<longleftrightarrow> hm_ok lst \<and> (\<forall>name m sc. hm_get lst name = Some (m, sc) \<longrightarrow>
     name \<in> set (block_sets m) \<and> hm_get (listing m) name = Some sc)"

definition queue_exact :: "traffic \<Rightarrow> block_queue \<Rightarrow> bool" where
  "queue_exact traffic q \<longleftrightarrow> (\<forall>i. list_all (exact_block traffic i) (queued q i))"

lemma set_delta_exact:
  assumes k: "kernel_counts listing traffic" and l: "last_ok listing lst"
    and r: "\<not> rebuilt lst n (listing n)" and name: "name \<in> set (block_sets n)"
    and d: "set_delta lst n (listing n) i name = Some pb"
  shows "pb = (fst (traffic name i n), snd (traffic name i n))"
proof -
  obtain cur now base prev where s: "hm_get (listing n) name = Some cur" "hm_get (sc_elems cur) i = Some now"
      "baseline lst n name = Some base" "hm_get (sc_elems base) i = Some prev"
      "fst prev \<le> fst now" "snd prev \<le> snd now" "pb = (fst now - fst prev, snd now - snd prev)"
    using d by (auto simp: set_delta_def checked_sub_def split: option.splits if_splits)
  obtain m where m: "hm_get lst name = Some (m, base)" "n = m + 2" using s(3) by (auto simp: baseline_iff)
  have b: "name \<in> set (block_sets m)" "hm_get (listing m) name = Some base"
    using l m(1) by (auto simp: last_ok_def)
  have "sc_handle base = sc_handle cur"
    using r name s(1,3) by (auto simp: rebuilt_def list_ex_iff)
  then have "fst now = fst prev + fst (traffic name i n) \<and> snd now = snd prev + snd (traffic name i n)"
    using k b s(1,2,4) m(2) unfolding kernel_counts_def by blast
  with s(7) show ?thesis by simp
qed

lemma finish_block_exact:
  assumes "kernel_counts listing traffic" "last_ok listing lst"
  shows "exact_block traffic i (finish_block lst n (listing n) block ut i)"
proof (cases "mb_reset (finish_block lst n (listing n) block ut i)")
  case False
  then have r: "\<not> rebuilt lst n (listing n)" by (auto simp: finish_block_def Let_def)
  obtain w x y z where names: "block_sets n = [w, x, y, z]" by (simp add: block_sets_def Let_def)
  obtain a b c d where ds: "set_delta lst n (listing n) i w = Some a" "set_delta lst n (listing n) i x = Some b"
      "set_delta lst n (listing n) i y = Some c" "set_delta lst n (listing n) i z = Some d"
    using False r by (auto simp: finish_block_def Let_def names split: option.splits)
  have "a = traffic w i n" "b = traffic x i n" "c = traffic y i n" "d = traffic z i n"
    using set_delta_exact [OF assms r _ ds(1)] set_delta_exact [OF assms r _ ds(2)]
      set_delta_exact [OF assms r _ ds(3)] set_delta_exact [OF assms r _ ds(4)] by (simp_all add: names)
  then show ?thesis using r ds by (simp add: exact_block_def finish_block_def Let_def names)
qed (simp add: exact_block_def)

lemma push_exact:
  assumes "queue_exact traffic q" "exact_block traffic i b" shows "queue_exact traffic (push_block i b q)"
proof -
  have "list_all P (tl xs)" if "list_all P xs" for P and xs :: "mark_block list" using that by (cases xs) auto
  with assms show ?thesis by (auto simp: queue_exact_def queued_push)
qed

lemma read_ifaces_exact:
  assumes "kernel_counts listing traffic" "last_ok listing lst" "queue_exact traffic q"
  shows "queue_exact traffic (snd (fold (read_iface lst n (listing n) block ut) ifaces (out, q)))"
  using assms(3)
proof (induction ifaces arbitrary: out q)
  case (Cons i ifaces)
  then show ?case
    by (auto simp: read_iface_def Let_def intro!: Cons.IH push_exact finish_block_exact [OF assms(1,2)])
qed simp

lemma last_okI:
  "hm_ok lst \<Longrightarrow> (\<And>name m sc. hm_get lst name = Some (m, sc) \<Longrightarrow> name \<in> set (block_sets m) \<and> hm_get (listing m) name = Some sc)
    \<Longrightarrow> last_ok listing lst"
  unfolding last_ok_def by blast

lemma last_okD:
  "last_ok listing lst \<Longrightarrow> hm_get lst name = Some (m, sc) \<Longrightarrow> name \<in> set (block_sets m) \<and> hm_get (listing m) name = Some sc"
  unfolding last_ok_def by blast

lemma last_ok_insert:
  assumes "last_ok listing lst" "name \<in> set (block_sets n)" "hm_get (listing n) name = Some cur"
  shows "last_ok listing (hm_insert name (n, cur) lst)"
proof (rule last_okI)
  show "hm_ok (hm_insert name (n, cur) lst)" using assms(1) by (simp add: last_ok_def)
  fix k m sc assume g: "hm_get (hm_insert name (n, cur) lst) k = Some (m, sc)"
  show "k \<in> set (block_sets m) \<and> hm_get (listing m) k = Some sc"
  proof (cases "k = name")
    case True
    with g assms(2,3) show ?thesis by simp
  next
    case False
    with g have "hm_get lst k = Some (m, sc)" by simp
    then show ?thesis by (rule last_okD [OF assms(1)])
  qed
qed

lemma last_ok_retain:
  assumes "last_ok listing lst" shows "last_ok listing (hm_retain P lst)"
proof (rule last_okI)
  have ok: "hm_ok lst" using assms by (simp add: last_ok_def)
  then show "hm_ok (hm_retain P lst)" by simp
  fix k m sc assume "hm_get (hm_retain P lst) k = Some (m, sc)"
  then have "hm_get lst k = Some (m, sc)" using ok by (auto simp: hm_get_retain split: option.splits if_splits)
  then show "k \<in> set (block_sets m) \<and> hm_get (listing m) k = Some sc" by (rule last_okD [OF assms])
qed

lemma move_baseline_ok:
  assumes "last_ok listing lst" shows "last_ok listing (move_baseline n (listing n) lst)"
proof -
  have "last_ok listing (fold (\<lambda>name m. case hm_get (listing n) name of Some cur \<Rightarrow> hm_insert name (n, cur) m | None \<Rightarrow> m) names l)"
    if "set names \<subseteq> set (block_sets n)" "last_ok listing l" for names l
    using that
  proof (induction names arbitrary: l)
    case (Cons name names)
    then have "last_ok listing (case hm_get (listing n) name of Some cur \<Rightarrow> hm_insert name (n, cur) l | None \<Rightarrow> l)"
      using last_ok_insert by (cases "hm_get (listing n) name") simp_all
    with Cons show ?case by simp
  qed simp
  from this [OF subset_refl assms] show ?thesis
    unfolding move_baseline_def by (rule last_ok_retain)
qed

lemma mark_step_exact:
  assumes k: "kernel_counts listing traffic" and e: "event_seen listing (mk_table_name m) ev"
    and l: "last_ok listing (mk_last m)" and q: "queue_exact traffic (mk_queue m)"
    and d: "list_all (\<lambda>(i, b). exact_block traffic i b) out"
    and s: "mark_step ev (m, out) = (m', out')"
  shows "mk_table_name m' = mk_table_name m \<and> last_ok listing (mk_last m') \<and> queue_exact traffic (mk_queue m')
    \<and> list_all (\<lambda>(i, b). exact_block traffic i b) out'"
proof (cases ev)
  case (Read_at ifaces n ut reply)
  show ?thesis
  proof (cases "reply = None \<or> (\<exists>r. reply = Some r \<and> find (\<lambda>name. \<not> hm_has (parse_sets r (mk_table_name m)) name) (block_sets n) \<noteq> None)")
    case True
    then have "m' = m" "out' = out" using s by (auto simp: Read_at read_block_def Let_def split: option.splits)
    with l q d show ?thesis by simp
  next
    case False
    then obtain r where r: "reply = Some r" "find (\<lambda>name. \<not> hm_has (listing n) name) (block_sets n) = None"
        "parse_sets r (mk_table_name m) = listing n"
      using e by (auto simp: Read_at)
    obtain o2 q2 where f: "fold (read_iface (mk_last m) n (listing n) (mk_block m) ut) ifaces
        (\<lparr>ro_blocks = 0, ro_resets = 0\<rparr>, mk_queue m) = (o2, q2)" by (metis surj_pair)
    have m': "m' = m\<lparr>mk_queue := q2, mk_last := move_baseline n (listing n) (mk_last m)\<rparr>" "out' = out"
      using s by (simp_all add: Read_at read_block_def r f Let_def)
    have "queue_exact traffic q2" using read_ifaces_exact [OF k l q] f by (metis snd_conv)
    with l d move_baseline_ok show ?thesis by (simp add: m')
  qed
next
  case (Drain i)
  obtain q2 where t: "take_blocks i (mk_queue m) = (queued (mk_queue m) i, q2)" 
    using queued_take(2) by (metis prod.collapse)
  have m': "m' = m\<lparr>mk_queue := q2\<rparr>" "out' = out @ map (Pair i) (queued (mk_queue m) i)"
    using s by (simp_all add: Drain t)
  have "queued q2 j = (if j = i then [] else queued (mk_queue m) j)" for j
    using queued_take(1) [of i "mk_queue m" j] t by simp
  then have "queue_exact traffic q2" using q by (simp add: queue_exact_def)
  moreover have "list_all (\<lambda>(i, b). exact_block traffic i b) (map (Pair i) (queued (mk_queue m) i))"
    using q by (simp add: queue_exact_def list_all_iff)
  ultimately show ?thesis using l d by (simp add: m')
qed

section \<open>Properties\<close>

text \<open>C14: every block the agent ever delivers is exact: whatever reads fail, are missed, come twice or
  find the table rebuilt, and whatever is drained when, a delivered block is either flagged as reset
  or carries exactly what its interface sent and received in its own block, never more than one
  block's worth.\<close>
theorem delivered_blocks_exact:
  assumes "kernel_counts listing traffic" "list_all (event_seen listing (mk_table_name (marker_new table block []))) evs"
  shows "list_all (\<lambda>(i, b). exact_block traffic i b) (snd (fold mark_step evs (marker_new table block [], [])))"
proof -
  define tbl where "tbl = mk_table_name (marker_new table block [])"
  have "mk_table_name (fst (fold mark_step evs (m, out))) = tbl
      \<and> list_all (\<lambda>(i, b). exact_block traffic i b) (snd (fold mark_step evs (m, out)))"
    if "list_all (event_seen listing tbl) evs" "mk_table_name m = tbl" "last_ok listing (mk_last m)"
      "queue_exact traffic (mk_queue m)" "list_all (\<lambda>(i, b). exact_block traffic i b) out" for m out
    using that
  proof (induction evs arbitrary: m out)
    case (Cons ev evs)
    obtain m' out' where st: "mark_step ev (m, out) = (m', out')" by (metis surj_pair)
    have "mk_table_name m' = mk_table_name m \<and> last_ok listing (mk_last m') \<and> queue_exact traffic (mk_queue m')
        \<and> list_all (\<lambda>(i, b). exact_block traffic i b) out'"
      by (rule mark_step_exact [OF assms(1) _ _ _ _ st]) (use Cons.prems in simp_all)
    with Cons show ?case by (simp add: st)
  qed simp
  moreover have "last_ok listing (mk_last (marker_new table block []))" "queue_exact traffic (mk_queue (marker_new table block []))"
    by (simp_all add: marker_new_def last_ok_def hm_ok_def queue_exact_def queued_def split: list.split)
  ultimately show ?thesis using assms(2) by (simp add: tbl_def)
qed

text \<open>Two reads of colour A with a failed read between them; what the second delivers.\<close>

definition count_at :: "nat \<Rightarrow> string \<Rightarrow> nat \<times> nat" where
  "count_at k name = (if name \<in> {''mf_tx_a_l'', ''mf_rx_a_l''} then (100 * k, 140000 * k) else (10 * k, 1000 * k))"

definition sets_at :: "nat \<Rightarrow> (string, set_counters) hmap" where
  "sets_at k = map (\<lambda>name. (name, \<lparr>sc_handle = 7, sc_elems = [(''awg0'', count_at k name)]\<rparr>)) (block_sets 10)"

definition listing_json :: "nat \<Rightarrow> json" where
  "listing_json k = JObj [(''nftables'', JArr (map (\<lambda>name. JObj [(''set'', JObj [(''table'', JStr ''fw4''), (''name'', JStr name),
     (''handle'', JInt 7), (''elem'', JArr [JObj [(''elem'', JObj [(''val'', JStr ''awg0''),
       (''counter'', JObj [(''packets'', JInt (int (fst (count_at k name)))), (''bytes'', JInt (int (snd (count_at k name))))])])]])])])
     (block_sets 10)))]"

definition two_listings :: listings where
  "two_listings n = (if n = 10 then sets_at 1 else if n = 12 then sets_at 3 else [])"

definition steady_traffic :: traffic where
  "steady_traffic name i n = count_at 2 name"

definition two_reads :: "mark_event list" where
  "two_reads = [Read_at [''awg0''] 10 False (Some (listing_json 1)), Read_at [''awg0''] 11 False None,
     Read_at [''awg0''] 12 True (Some (listing_json 3)), Drain ''awg0'']"

lemma two_listings_count: "kernel_counts two_listings steady_traffic"
proof -
  have get: "hm_get (sets_at k) name = Some sc \<Longrightarrow> sc = \<lparr>sc_handle = 7, sc_elems = [(''awg0'', count_at k name)]\<rparr>" for k name sc
    by (auto simp: sets_at_def dest!: map_of_SomeD)
  show ?thesis unfolding kernel_counts_def
  proof (intro allI impI)
    fix n name i prev cur p c
    assume a: "hm_get (two_listings n) name = Some prev" "hm_get (two_listings (n + 2)) name = Some cur"
      "hm_get (sc_elems prev) i = Some p" "hm_get (sc_elems cur) i = Some c"
    have "n = 10" using a(1,2) by (auto simp: two_listings_def split: if_splits)
    then have "prev = \<lparr>sc_handle = 7, sc_elems = [(''awg0'', count_at 1 name)]\<rparr>"
      "cur = \<lparr>sc_handle = 7, sc_elems = [(''awg0'', count_at 3 name)]\<rparr>"
      using a(1,2) get by (simp_all add: two_listings_def)
    with a(3,4) show "fst c = fst p + fst (steady_traffic name i (n + 2)) \<and> snd c = snd p + snd (steady_traffic name i (n + 2))"
      by (auto simp: steady_traffic_def count_at_def split: if_splits)
  qed
qed

theorem delivered_blocks_exact_witness:
  "list_all (\<lambda>(i, b). exact_block steady_traffic i b)
     (snd (fold mark_step two_reads (marker_new ''inet fw4'' 10000000000 [], [])))
   \<and> map (\<lambda>(i, b). (i, mb_n b, mb_tx_pkts_l b, mb_rx_bytes b, mb_reset b, mb_under_test b))
       (snd (fold mark_step two_reads (marker_new ''inet fw4'' 10000000000 [], [])))
     = [(''awg0'', 12, 200, 282000, False, True)]"
proof
  show "list_all (\<lambda>(i, b). exact_block steady_traffic i b)
     (snd (fold mark_step two_reads (marker_new ''inet fw4'' 10000000000 [], [])))"
  proof (rule delivered_blocks_exact [OF two_listings_count])
    have "parse_sets (listing_json 1) ''fw4'' = sets_at 1" "parse_sets (listing_json 3) ''fw4'' = sets_at 3"
      by code_simp+
    moreover have "mk_table_name (marker_new ''inet fw4'' 10000000000 []) = ''fw4''" by code_simp
    ultimately show "list_all (event_seen two_listings (mk_table_name (marker_new ''inet fw4'' 10000000000 []))) two_reads"
      by (simp add: two_reads_def two_listings_def)
  qed
  show "map (\<lambda>(i, b). (i, mb_n b, mb_tx_pkts_l b, mb_rx_bytes b, mb_reset b, mb_under_test b))
       (snd (fold mark_step two_reads (marker_new ''inet fw4'' 10000000000 [], [])))
     = [(''awg0'', 12, 200, 282000, False, True)]"
    by code_simp
qed

end
