(* ===== verification/Bird.thy ===== *)
theory Bird
  imports Discover
begin

text \<open>
  BIRD actions of the agent (\<open>crates/agent/src/bird.rs\<close>): applying an OSPF cost with retries while
  another reconfiguration is in flight, and resolving a target. A bus call answers with a document
  or the text of its error; decoding one route entry is an argument.
\<close>

definition busy_code :: int where
  "busy_code = 5"

definition max_tries :: nat where
  "max_tries = 5"

definition show_int :: "int \<Rightarrow> string" where
  "show_int n = (if n < 0 then ''-'' @ show_nat (nat (- n)) else show_nat (nat n))"

definition reply_code :: "json \<Rightarrow> int \<Rightarrow> int" where
  "reply_code res def = (case as_i64 (j_index res ''code'') of Some c \<Rightarrow> c | None \<Rightarrow> def)"

text \<open>The replies are given per attempt; the loop runs over the attempts left. The result comes with
  the number of calls made.\<close>

fun cost_attempts :: "(nat \<Rightarrow> string + json) \<Rightarrow> nat list \<Rightarrow> (string + unit) \<times> nat" where
  "cost_attempts replies [] = (Inl (''bird reconfiguration busy after '' @ show_nat max_tries @ '' tries''), 0)"
| "cost_attempts replies (attempt # todo) =
     (case replies attempt of
        Inl e \<Rightarrow> (Inl (''bird set_ospf_cost: '' @ e), 1)
      | Inr res \<Rightarrow>
          let code = reply_code res (- 1)
          in if code = 0 then (Inr (), 1)
             else if code = busy_code then
               (if attempt < max_tries then (let (r, calls) = cost_attempts replies todo in (r, calls + 1))
                else (Inl (''bird reconfiguration busy after '' @ show_nat max_tries @ '' tries''), 1))
             else (Inl (''bird returned code '' @ show_int code), 1))"

definition set_ospf_cost :: "(nat \<Rightarrow> string + json) \<Rightarrow> (string + unit) \<times> nat" where
  "set_ospf_cost replies = cost_attempts replies [1..<Suc max_tries]"

definition bird_route :: "(json \<Rightarrow> route_rep option) \<Rightarrow> (string \<Rightarrow> string + json) \<Rightarrow> string \<Rightarrow> int \<times> route_rep list" where
  "bird_route route_of call target =
     (if target = [] then (2, [])
      else case call target of
             Inl _ \<Rightarrow> (1, [])
           | Inr res \<Rightarrow> (reply_code res 1, List.map_filter route_of (elements (j_index res ''routes''))))"

section \<open>Properties\<close>

text \<open>A reply that says busy, and one that says done.\<close>

definition replies_code :: "(nat \<Rightarrow> string + json) \<Rightarrow> nat \<Rightarrow> int \<Rightarrow> bool" where
  "replies_code replies k c = (case replies k of Inr res \<Rightarrow> reply_code res (- 1) = c | Inl _ \<Rightarrow> False)"

lemma cost_attempts_ok:
  assumes "sorted_wrt (<) as" "list_all (\<lambda>a. a \<le> max_tries) as"
  shows "(fst (cost_attempts replies as) = Inr ()) = (\<exists>k < length as. replies_code replies (as ! k) 0
      \<and> (\<forall>j < k. replies_code replies (as ! j) busy_code))
    \<and> snd (cost_attempts replies as) \<le> length as"
  using assms
proof (induction replies as rule: cost_attempts.induct)
  case (2 replies a as)
  show ?case
  proof (cases "replies_code replies a busy_code")
    case True
    then have n: "\<not> replies_code replies a 0" by (auto simp: replies_code_def busy_code_def split: sum.splits)
    obtain res where res: "replies a = Inr res" "reply_code res (- 1) = busy_code"
      using True by (auto simp: replies_code_def split: sum.splits)
    have ex: "(\<exists>k < length (a # as). replies_code replies ((a # as) ! k) 0
        \<and> (\<forall>j < k. replies_code replies ((a # as) ! j) busy_code))
      = (\<exists>k < length as. replies_code replies (as ! k) 0 \<and> (\<forall>j < k. replies_code replies (as ! j) busy_code))"
      (is "?l = ?r")
    proof
      assume ?l
      then obtain k where k: "k < length (a # as)" "replies_code replies ((a # as) ! k) 0"
          "\<forall>j < k. replies_code replies ((a # as) ! j) busy_code" by blast
      with n obtain m where "k = Suc m" by (cases k) auto
      with k show ?r by (intro exI [of _ m]) auto
    next
      assume ?r
      then obtain k where "k < length as" "replies_code replies (as ! k) 0"
          "\<forall>j < k. replies_code replies (as ! j) busy_code" by blast
      with True show ?l by (intro exI [of _ "Suc k"]) (auto simp: less_Suc_eq_0_disj)
    qed
    show ?thesis
    proof (cases "a < max_tries")
      case lt: True
      have IH: "(fst (cost_attempts replies as) = Inr ()) = (\<exists>k < length as. replies_code replies (as ! k) 0
          \<and> (\<forall>j < k. replies_code replies (as ! j) busy_code)) \<and> snd (cost_attempts replies as) \<le> length as"
        by (rule 2(1) [OF res(1) refl]) (use 2(2,3) res lt in \<open>simp_all add: busy_code_def\<close>)
      obtain r c where rc: "cost_attempts replies as = (r, c)" by (metis surj_pair)
      have "cost_attempts replies (a # as) = (r, c + 1)" using res lt rc by (simp add: busy_code_def)
      then show ?thesis unfolding ex using IH rc by simp
    next
      case False
      then have "a = max_tries" using 2(3) by simp
      then have "as = []" using 2(2,3) by (cases as) auto
      then show ?thesis unfolding ex using res False by (simp add: busy_code_def)
    qed
  next
    case False
    have ex: "(\<exists>k < length (a # as). replies_code replies ((a # as) ! k) 0
        \<and> (\<forall>j < k. replies_code replies ((a # as) ! j) busy_code)) = replies_code replies a 0"
      (is "?l = ?r")
    proof
      assume ?l
      then obtain k where k: "replies_code replies ((a # as) ! k) 0"
          "\<forall>j < k. replies_code replies ((a # as) ! j) busy_code" by blast
      have "k = 0"
      proof (rule ccontr)
        assume "k \<noteq> 0"
        then have "replies_code replies ((a # as) ! 0) busy_code" using k(2) by blast
        with False show False by simp
      qed
      with k(1) show ?r by simp
    next
      assume ?r
      then show ?l by (intro exI [of _ 0]) simp
    qed
    show ?thesis unfolding ex using False
      by (auto simp: replies_code_def Let_def split: sum.splits)
  qed
qed simp

text \<open>C25: a cost is applied exactly when BIRD accepts it at some attempt and every attempt before it was
  told that a reconfiguration is in flight; in any case the agent stops after at most five calls.\<close>
theorem cost_applied_exactly:
  "(fst (set_ospf_cost replies) = Inr ()) = (\<exists>k < 5. replies_code replies (Suc k) 0
      \<and> {j. j < k \<and> \<not> replies_code replies (Suc j) busy_code} = {})
    \<and> snd (set_ospf_cost replies) \<le> 5"
proof -
  define as where "as = [1..<Suc max_tries]"
  have n: "as ! k = Suc k" if "k < 5" for k using that nth_upt [of 1 k "Suc max_tries"] by (simp add: as_def max_tries_def del: upt_Suc)
  have l: "length as = 5" and s: "sorted_wrt (<) as" and m: "list_all (\<lambda>a. a \<le> max_tries) as"
    by (auto simp: as_def list_all_iff max_tries_def simp del: upt_Suc)
  have "(\<exists>k < 5. replies_code replies (as ! k) 0 \<and> (\<forall>j < k. replies_code replies (as ! j) busy_code))
    = (\<exists>k < 5. replies_code replies (Suc k) 0 \<and> {j. j < k \<and> \<not> replies_code replies (Suc j) busy_code} = {})"
  proof (intro ex_cong1 conj_cong refl)
    fix k :: nat assume k: "k < 5"
    then show "replies_code replies (as ! k) 0 = replies_code replies (Suc k) 0" by (simp only: n)
    have "replies_code replies (as ! j) busy_code = replies_code replies (Suc j) busy_code" if "j < k" for j
      using that k by (simp only: n [of j] less_trans [of j k 5])
    then show "(\<forall>j < k. replies_code replies (as ! j) busy_code)
        = ({j. j < k \<and> \<not> replies_code replies (Suc j) busy_code} = {})" by blast
  qed
  with cost_attempts_ok [OF s m, of replies] show ?thesis
    by (simp only: l set_ospf_cost_def as_def [symmetric])
qed

end
