(* ===== verification/Throughput.thy ===== *)
theory Throughput
  imports Discover Window
begin

text \<open>
  The gated throughput test (\<open>crates/agent/src/throughput.rs\<close>). The interface counters, the clock and
  what an \<open>iperf3\<close> run returned (a document or the text of its error) are arguments, as are the
  spellings of addresses and rates in its command line.
\<close>

record udp_result =
  ud_mbps :: f64
  ud_jitter_ms :: "f64 option"
  ud_loss_pct :: "f64 option"

record outcome =
  oc_busy :: bool
  oc_util_mbps :: f64
  oc_tcp_mbps :: "f64 option"
  oc_udp :: "udp_result option"
  oc_error :: "string option"

definition outcome_default :: outcome where
  "outcome_default = \<lparr>oc_busy = False, oc_util_mbps = Fin 0, oc_tcp_mbps = None, oc_udp = None, oc_error = None\<rparr>"

datatype leg = Tcp | Udp

record throughput =
  tp_iperf_bin :: string
  tp_port :: nat
  tp_udp_port :: nat
  tp_udp_rate_mbps :: f64
  tp_duration :: nat
  tp_tcp_rate_mbps :: f64
  tp_quiet_max_mbps :: f64
  tp_grace :: nat

section \<open>Reading a run\<close>

definition end_summary :: "json \<Rightarrow> string + json" where
  "end_summary js =
     (case as_str (j_index js ''error'') of
        Some err \<Rightarrow> Inl (''iperf3: '' @ err)
      | None \<Rightarrow>
          (case find (\<lambda>key. is_number (j_index (j_index (j_index js ''end'') key) ''bits_per_second''))
              [''sum_received'', ''sum''] of
             Some key \<Rightarrow> Inr (j_index (j_index js ''end'') key)
           | None \<Rightarrow> Inl ''iperf3: no end summary''))"

definition mbps_of :: "json \<Rightarrow> f64" where
  "mbps_of summary = f_div (case as_f64 (j_index summary ''bits_per_second'') of Some x \<Rightarrow> x | None \<Rightarrow> Fin 0) (Fin 1000000)"

definition parse_iperf :: "json \<Rightarrow> string + f64" where
  "parse_iperf js = map_sum id mbps_of (end_summary js)"

definition parse_iperf_udp :: "json \<Rightarrow> string + udp_result" where
  "parse_iperf_udp js = map_sum id (\<lambda>summary. \<lparr>ud_mbps = mbps_of summary,
     ud_jitter_ms = as_f64 (j_index summary ''jitter_ms''), ud_loss_pct = as_f64 (j_index summary ''lost_percent'')\<rparr>) (end_summary js)"

definition link_rate_mbps :: "nat \<Rightarrow> nat \<Rightarrow> nat \<Rightarrow> f64" where
  "link_rate_mbps before after elapsed =
     (let s = as_secs_f64 elapsed
      in if f_le s (Fin 0) then Fin 0
         else f_div (f_div (f_mul (f_of_nat (saturating_sub after before)) (Fin 8)) (Fin 1000000)) s)"

section \<open>The command line\<close>

definition leg_port :: "throughput \<Rightarrow> leg \<Rightarrow> nat" where
  "leg_port t l = (case l of Tcp \<Rightarrow> tp_port t | Udp \<Rightarrow> if 0 < tp_udp_port t then tp_udp_port t else tp_port t)"

definition iperf_args :: "(ipv6 \<Rightarrow> string) \<Rightarrow> (f64 \<Rightarrow> string) \<Rightarrow> throughput \<Rightarrow> link \<Rightarrow> leg \<Rightarrow> string list" where
  "iperf_args show_ip show_rate t l leg =
     [''-J'', ''-6'', ''-c''] @
     (case li_peer_ll l of
        Some ll \<Rightarrow> [show_ip ll @ ''%'' @ li_interface l]
      | None \<Rightarrow> [show_ip (li_target l), ''-B'', show_ip (li_source l)]) @
     [''-p'', show_nat (leg_port t leg), ''-t'', show_nat (max (tp_duration t div 1000000000) 1)] @
     (case leg of
        Tcp \<Rightarrow> if f_lt (Fin 0) (tp_tcp_rate_mbps t) then [''-b'', show_rate (tp_tcp_rate_mbps t) @ ''M''] else []
      | Udp \<Rightarrow> [''-u'', ''-b'', show_rate (tp_udp_rate_mbps t) @ ''M''])"

section \<open>A test\<close>

text \<open>The world of one test: whether the lock was free, the utilisation sample (nothing when the
  counters cannot be read), the clock when the legs start and when they end, and their results.\<close>

record test_world =
  tw_lock_free :: bool
  tw_util :: "f64 option"
  tw_begin :: nat
  tw_end :: nat
  tw_tcp :: "string + json"
  tw_udp :: "string + json"

definition leg_result :: "string \<Rightarrow> string + 'a \<Rightarrow> 'a option \<times> string list" where
  "leg_result name r = (case r of Inr v \<Rightarrow> (Some v, []) | Inl e \<Rightarrow> (None, [name @ '': '' @ e]))"

definition bind_sum :: "string + 'a \<Rightarrow> ('a \<Rightarrow> string + 'b) \<Rightarrow> string + 'b" where
  "bind_sum r f = (case r of Inl e \<Rightarrow> Inl e | Inr v \<Rightarrow> f v)"

fun join_errors :: "string list \<Rightarrow> string" where
  "join_errors [] = []"
| "join_errors [e] = e"
| "join_errors (e # f # es) = e @ ''; '' @ join_errors (f # es)"

definition run_throughput :: "throughput \<Rightarrow> test_world \<Rightarrow> gate \<Rightarrow> outcome \<times> gate" where
  "run_throughput t w g =
     (if \<not> tw_lock_free w then (outcome_default\<lparr>oc_busy := True\<rparr>, g)
      else
        let util = (case tw_util w of Some u \<Rightarrow> u | None \<Rightarrow> Fin 0)
        in if f_lt (tp_quiet_max_mbps t) util
           then (\<lparr>oc_busy = True, oc_util_mbps = util, oc_tcp_mbps = None, oc_udp = None, oc_error = None\<rparr>, g)
           else
             let g = gate_end (tw_end w) (tp_grace t) (gate_begin (tw_begin w) g);
                 (tcp, tcp_errors) = leg_result ''tcp'' (bind_sum (tw_tcp w) parse_iperf);
                 (udp, udp_errors) = (if f_lt (Fin 0) (tp_udp_rate_mbps t)
                    then leg_result ''udp'' (bind_sum (tw_udp w) parse_iperf_udp) else (None, []));
                 errors = tcp_errors @ udp_errors
             in (\<lparr>oc_busy = False, oc_util_mbps = util, oc_tcp_mbps = tcp, oc_udp = udp,
                  oc_error = (if errors = [] then None else Some (join_errors errors))\<rparr>, g))"

section \<open>Lemmas\<close>

text \<open>A summary always has its rate: the default of the parser is never a measured zero.\<close>

lemma end_summary_rate: "end_summary js = Inr s \<Longrightarrow> \<exists>x. as_f64 (j_index s ''bits_per_second'') = Some x"
proof -
  have num: "is_number v \<Longrightarrow> \<exists>x. as_f64 v = Some x" for v by (cases v) auto
  assume "end_summary js = Inr s"
  then show ?thesis by (auto simp: end_summary_def split: option.splits if_splits intro: num)
qed

text \<open>After a test that ran, the gate is closed until the grace is over, and the test is on record.\<close>

lemma run_gate:
  assumes "tw_lock_free w" "\<not> oc_busy (fst (run_throughput t w g))"
  shows "snd (run_throughput t w g) = gate_end (tw_end w) (tp_grace t) (gate_begin (tw_begin w) g)"
  using assms by (auto simp: run_throughput_def Let_def split: prod.splits if_splits)

text \<open>C37: an outcome is measured or explained: a busy outcome carries no number and no error; otherwise
  the error is missing exactly when every leg that runs produced its number.\<close>
theorem measured_or_explained:
  "let out = fst (run_throughput t w g) in
     if oc_busy out then oc_tcp_mbps out = None \<and> oc_udp out = None \<and> oc_error out = None
     else (oc_error out = None)
       = (oc_tcp_mbps out \<noteq> None \<and> (if f_lt (Fin 0) (tp_udp_rate_mbps t) then oc_udp out \<noteq> None else oc_udp out = None))"
  by (auto simp: run_throughput_def outcome_default_def leg_result_def bind_sum_def Let_def split: sum.splits)

end
