(* ===== verification/AgentMetrics.thy ===== *)
theory AgentMetrics
  imports PromText Throughput
begin

text \<open>
  Self-observability of the agent (\<open>crates/agent/src/metrics.rs\<close>): the command counters, the last
  throughput result per link, and the text of the textfile. Counters are as wide as a pointer and
  do not wrap in practice; the decimal spelling of a float is an argument; writing the file is I/O.
\<close>

section \<open>Counters\<close>

record counters =
  cn_commands_received :: nat
  cn_commands_succeeded :: nat
  cn_commands_errored :: nat
  cn_probe_ping :: nat
  cn_probe_iperf :: nat
  cn_probe_busy :: nat
  cn_probe_errors_ping :: nat
  cn_probe_errors_iperf :: nat
  cn_apply_cost :: nat
  cn_apply_cost_errors :: nat
  cn_apply_cost_reapplied :: nat
  cn_session_connects :: nat
  cn_session_dial_errors :: nat
  cn_session_connected :: nat
  cn_mark_blocks :: nat
  cn_mark_resets :: nat
  cn_mark_errors :: nat

definition counters_default :: counters where
  "counters_default = \<lparr>cn_commands_received = 0, cn_commands_succeeded = 0, cn_commands_errored = 0,
     cn_probe_ping = 0, cn_probe_iperf = 0, cn_probe_busy = 0, cn_probe_errors_ping = 0,
     cn_probe_errors_iperf = 0, cn_apply_cost = 0, cn_apply_cost_errors = 0, cn_apply_cost_reapplied = 0,
     cn_session_connects = 0, cn_session_dial_errors = 0, cn_session_connected = 0, cn_mark_blocks = 0,
     cn_mark_resets = 0, cn_mark_errors = 0\<rparr>"

definition set_connected :: "bool \<Rightarrow> counters \<Rightarrow> counters" where
  "set_connected up c = c\<lparr>cn_session_connected := (if up then 1 else 0)\<rparr>"

record last_throughput =
  lt_tcp_mbps :: "f64 option"
  lt_udp :: "udp_result option"
  lt_util_mbps :: f64
  lt_busy :: bool
  lt_unixtime :: nat

record metrics_state =
  me_counters :: counters
  me_throughput :: "(string, last_throughput) hmap"

definition metrics_default :: metrics_state where
  "metrics_default = \<lparr>me_counters = counters_default, me_throughput = []\<rparr>"

text \<open>Per-link statistics of the prober.\<close>

record link_stats =
  st_snapshot :: snapshot
  st_sent :: nat
  st_received :: nat
  st_lost :: nat

definition stats_of :: "window \<Rightarrow> link_stats" where
  "stats_of w = \<lparr>st_snapshot = window_snapshot w, st_sent = wn_sent w, st_received = wn_received w, st_lost = wn_lost w\<rparr>"

section \<open>The text\<close>

type_synonym link_labels = "string \<times> string \<times> string"

definition esc :: "string \<Rightarrow> string" where
  "esc s = replace_char newline [backslash, CHR ''n'']
     (replace_char dquote [backslash, dquote] (replace_char backslash [backslash, backslash] s))"

text \<open>\<open>lbl\<close> without its braces, which \<open>series_of\<close> adds.\<close>

definition lbl :: "link_labels \<Rightarrow> string" where
  "lbl = (\<lambda>(f, t, i). label_pair ''from'' (esc f) @ '','' @ label_pair ''to'' (esc t) @ '',''
     @ label_pair ''interface'' (esc i))"

definition decl :: "string \<Rightarrow> string \<Rightarrow> string \<Rightarrow> string list" where
  "decl name kind help = [''# HELP '' @ name @ '' '' @ help, ''# TYPE '' @ name @ '' '' @ kind]"

definition plain_line :: "string \<Rightarrow> nat \<Rightarrow> string" where
  "plain_line name v = name @ '' '' @ show_nat v"

definition keyed_lines :: "string \<Rightarrow> string \<Rightarrow> (string \<times> nat) list \<Rightarrow> string list" where
  "keyed_lines name label kvs =
     map (\<lambda>(k, v). sample_line (name, label_pair label k, show_nat v)) kvs"

definition global_text :: "counters \<Rightarrow> nat \<Rightarrow> string list" where
  "global_text c links =
     decl ''mielofon_agent_up'' ''gauge'' ''Agent is up and reporting.'' @ [plain_line ''mielofon_agent_up'' 1] @
     decl ''mielofon_agent_links_configured'' ''gauge'' ''Number of links the agent discovered (autodiscover).'' @
     [plain_line ''mielofon_agent_links_configured'' links] @
     decl ''mielofon_agent_session_connected'' ''gauge'' ''1 while a controller session is up.'' @
     [plain_line ''mielofon_agent_session_connected'' (cn_session_connected c)] @
     decl ''mielofon_agent_session_total'' ''counter'' ''Controller sessions established and dial attempts that failed.'' @
     keyed_lines ''mielofon_agent_session_total'' ''result''
       [(''connected'', cn_session_connects c), (''dial_error'', cn_session_dial_errors c)] @
     decl ''mielofon_agent_commands_total'' ''counter'' ''Commands received from the controller, by outcome.'' @
     keyed_lines ''mielofon_agent_commands_total'' ''result''
       [(''received'', cn_commands_received c), (''succeeded'', cn_commands_succeeded c), (''errored'', cn_commands_errored c)] @
     decl ''mielofon_agent_probe_total'' ''counter'' ''Probe runs (always-tier harvests / gated throughput).'' @
     keyed_lines ''mielofon_agent_probe_total'' ''kind''
       [(''ping'', cn_probe_ping c), (''iperf'', cn_probe_iperf c), (''busy'', cn_probe_busy c)] @
     decl ''mielofon_agent_probe_errors_total'' ''counter'' ''Probe runs that produced no usable result, by kind.'' @
     keyed_lines ''mielofon_agent_probe_errors_total'' ''kind''
       [(''ping'', cn_probe_errors_ping c), (''iperf'', cn_probe_errors_iperf c)] @
     decl ''mielofon_agent_mark_total'' ''counter'' ''Alternate-marking blocks finished, blocks reported reset, nft errors.'' @
     keyed_lines ''mielofon_agent_mark_total'' ''result''
       [(''block'', cn_mark_blocks c), (''reset'', cn_mark_resets c), (''error'', cn_mark_errors c)] @
     decl ''mielofon_agent_apply_cost_total'' ''counter'' ''OSPF cost applies by outcome.'' @
     keyed_lines ''mielofon_agent_apply_cost_total'' ''result''
       [(''ok'', cn_apply_cost c), (''error'', cn_apply_cost_errors c), (''reapplied'', cn_apply_cost_reapplied c)]"

type_synonym link_gauge = "link_stats option \<Rightarrow> last_throughput option \<Rightarrow> string option"

definition of_stats :: "(link_stats \<Rightarrow> string option) \<Rightarrow> link_gauge" where
  "of_stats f s t = Option.bind s f"

definition of_thr :: "(last_throughput \<Rightarrow> string option) \<Rightarrow> link_gauge" where
  "of_thr f s t = Option.bind t f"

text \<open>The table of the per-link metrics: name, kind, help and the value the loop picks by name.\<close>

definition per_link :: "(f64 \<Rightarrow> string) \<Rightarrow> (string \<times> string \<times> string \<times> link_gauge) list" where
  "per_link show =
     [(''mielofon_agent_link_configured'', ''gauge'', ''Link discovered/managed by the agent (1 if present).'', \<lambda>s t. Some ''1''),
      (''mielofon_agent_link_rtt_ms'', ''gauge'', ''Rolling mean RTT (ms).'',
        of_stats (\<lambda>s. map_option show (sn_rtt_ms (st_snapshot s)))),
      (''mielofon_agent_link_jitter_ms'', ''gauge'', ''RTT jitter: stddev of the ping window (ms).'',
        of_stats (\<lambda>s. map_option show (sn_jitter_ms (st_snapshot s)))),
      (''mielofon_agent_link_loss_pct'', ''gauge'', ''Packet loss over the ping window (%).'',
        of_stats (\<lambda>s. map_option show (sn_loss_pct (st_snapshot s)))),
      (''mielofon_agent_pings_sent_total'', ''counter'', ''Echo requests sent.'', of_stats (\<lambda>s. Some (show_nat (st_sent s)))),
      (''mielofon_agent_pings_received_total'', ''counter'', ''Echo replies received.'',
        of_stats (\<lambda>s. Some (show_nat (st_received s)))),
      (''mielofon_agent_pings_lost_total'', ''counter'', ''Echo requests unanswered or unsendable.'',
        of_stats (\<lambda>s. Some (show_nat (st_lost s)))),
      (''mielofon_agent_link_tcp_mbps'', ''gauge'', ''Latest TCP throughput (Mbps).'', of_thr (\<lambda>t. map_option show (lt_tcp_mbps t))),
      (''mielofon_agent_link_udp_mbps'', ''gauge'', ''Latest UDP throughput received by the peer (Mbps).'',
        of_thr (\<lambda>t. map_option (\<lambda>u. show (ud_mbps u)) (lt_udp t))),
      (''mielofon_agent_link_udp_jitter_ms'', ''gauge'', ''Latest UDP stream jitter at the peer (ms).'',
        of_thr (\<lambda>t. map_option show (Option.bind (lt_udp t) ud_jitter_ms))),
      (''mielofon_agent_link_udp_loss_pct'', ''gauge'', ''Latest UDP stream packet loss at the peer (%).'',
        of_thr (\<lambda>t. map_option show (Option.bind (lt_udp t) ud_loss_pct))),
      (''mielofon_agent_link_util_mbps'', ''gauge'', ''Link utilization at the last throughput gate (Mbps).'',
        of_thr (\<lambda>t. Some (show (lt_util_mbps t)))),
      (''mielofon_agent_link_busy'', ''gauge'', ''Link busy at last throughput probe (1 if busy).'',
        of_thr (\<lambda>t. Some (if lt_busy t then ''1'' else ''0''))),
      (''mielofon_agent_last_probe_unixtime'', ''gauge'', ''Latest throughput probe timestamp (unix seconds).'',
        of_thr (\<lambda>t. Some (show_nat (lt_unixtime t))))]"

definition link_block ::
  "(string, last_throughput) hmap \<Rightarrow> (link_labels \<times> link_stats option) list \<Rightarrow> string \<Rightarrow> link_gauge \<Rightarrow> metric_sample list" where
  "link_block thr links name gauge = concat (map (\<lambda>(labels, s).
     case gauge s (hm_get thr (snd (snd labels))) of Some v \<Rightarrow> [(name, lbl labels, v)] | None \<Rightarrow> []) links)"

definition render :: "(f64 \<Rightarrow> string) \<Rightarrow> metrics_state \<Rightarrow> (link_labels \<times> link_stats option) list \<Rightarrow> string list" where
  "render show m links =
     global_text (me_counters m) (length links) @
     concat (map (\<lambda>(name, kind, help, gauge).
       decl name kind help @ map sample_line (link_block (me_throughput m) links name gauge)) (per_link show))"

section \<open>Lemmas\<close>

lemma esc_prom_label: "esc = prom_label"
  by (simp add: fun_eq_iff esc_def prom_label_def)

lemma lbl_inject: "lbl a = lbl b \<longleftrightarrow> a = b"
  using label_pair_cancel [of "''interface''" "snd (snd a)" "[]" "snd (snd b)" "[]"]
  by (auto simp: lbl_def esc_prom_label case_prod_unfold prod_eq_iff)

lemma lbl_one_line [simp]: "one_line (lbl l)"
  by (simp add: lbl_def case_prod_unfold label_pair_def esc_prom_label)

lemma link_block_named:
  assumes "brace_free name" "distinct (map fst links)"
  shows "block_named name (head, link_block thr links name gauge)"
proof -
  have "distinct (concat (map (\<lambda>(labels, s). map (\<lambda>x. fst (snd x))
      (case gauge s (hm_get thr (snd (snd labels))) of Some v \<Rightarrow> [(name, lbl labels, v)] | None \<Rightarrow> [])) links))"
    by (rule distinct_concat_keys [OF assms(2)]) (auto simp: lbl_inject split: option.splits)
  with assms(1) show ?thesis
    by (auto simp: block_named_def link_block_def map_concat_keys split: option.splits)
qed

lemma per_link_ok: "distinct (map fst (per_link show))" "list_all brace_free (map fst (per_link show))"
  by (simp_all add: per_link_def brace_free_def)

section \<open>Properties\<close>

text \<open>The per-link part of the textfile never repeats a series, for any node and interface names.\<close>
theorem agent_series_unique:
  assumes "distinct (map fst links)"
  shows "distinct (map series_of (concat (map (\<lambda>(name, _, _, gauge). link_block thr links name gauge) (per_link show))))"
proof -
  have "list_all2 block_named (map fst (per_link show))
      (map (\<lambda>(name, kind, help, gauge). (kind, link_block thr links name gauge)) (per_link show))"
    using per_link_ok(2) [of "show"] link_block_named [OF _ assms]
    by (auto simp: list_all2_conv_all_nth list_all_iff case_prod_unfold)
  from blocks_series_distinct [OF this per_link_ok(1)] show ?thesis
    by (simp add: comp_def case_prod_unfold)
qed

theorem agent_series_unique_witness:
  "distinct (map series_of (concat (map (\<lambda>(name, _, _, gauge).
     link_block [] [((''a'', ''b'', ''t0''), None), ((''a'', ''b'', ''t1''), None)] name gauge) (per_link (\<lambda>_. ''0'')))))"
  by (rule agent_series_unique) simp

end
