(* ===== verification/Agent.thy ===== *)
theory Agent
  imports AgentMark AgentMetrics Bird
begin

text \<open>
  The node agent (\<open>crates/agent/src/agent.rs\<close>): the discovered links and the prober kept in sync
  (\<open>Prober\<close> of \<open>icmp.rs\<close>), and the execution of the controller's commands. What the bus, the
  kernel's byte counters, the clock and a throughput test answer is an argument. The lock around
  cost applies serialises bus calls and has no state.
\<close>

section \<open>The prober\<close>

record prober_entry =
  pe_link :: link
  pe_window :: window
  pe_id :: "16 word"

record prober =
  pb_window_size :: nat
  pb_links :: "(string, prober_entry) hmap"
  pb_next_id :: "16 word"

definition prober_new :: "nat \<Rightarrow> 16 word \<Rightarrow> prober" where
  "prober_new window_size pid = \<lparr>pb_window_size = window_size, pb_links = [], pb_next_id = pid\<rparr>"

definition find_link :: "link list \<Rightarrow> string \<Rightarrow> link option" where
  "find_link links iface = find (\<lambda>l. li_interface l = iface) links"

text \<open>The windows of the entries whose link changed, in the order of the map.\<close>

definition changed_windows :: "link list \<Rightarrow> (string, prober_entry) hmap \<Rightarrow> (string, window) hmap" where
  "changed_windows links m = collect_map (List.map_filter (\<lambda>(iface, e).
     case find_link links iface of
       Some l \<Rightarrow> if l = pe_link e then None else Some (iface, pe_window e)
     | None \<Rightarrow> None) m)"

definition start_probe ::
  "nat \<Rightarrow> link \<Rightarrow> (string, prober_entry) hmap \<times> (string, window) hmap \<times> 16 word
    \<Rightarrow> (string, prober_entry) hmap \<times> (string, window) hmap \<times> 16 word" where
  "start_probe window_size l = (\<lambda>(m, windows, next_id).
     if hm_has m (li_interface l) then (m, windows, next_id)
     else
       let w = (case hm_get windows (li_interface l) of Some w \<Rightarrow> w | None \<Rightarrow> window_new window_size)
       in (hm_insert (li_interface l) \<lparr>pe_link = l, pe_window = w, pe_id = next_id\<rparr> m,
           hm_remove (li_interface l) windows, next_id + 1))"

definition reconcile :: "link list \<Rightarrow> prober \<Rightarrow> prober" where
  "reconcile links p =
     (let kept = hm_retain (\<lambda>iface e. find_link links iface = Some (pe_link e)) (pb_links p);
          (m, _, next_id) = fold (start_probe (pb_window_size p)) links
            (kept, changed_windows links (pb_links p), pb_next_id p)
      in p\<lparr>pb_links := m, pb_next_id := next_id\<rparr>)"

definition prober_stats :: "prober \<Rightarrow> string \<Rightarrow> link_stats option" where
  "prober_stats p iface = map_option (\<lambda>e. stats_of (pe_window e)) (hm_get (pb_links p) iface)"

section \<open>The agent\<close>

record agent =
  ag_cfg :: agent_cfg
  ag_prober :: prober
  ag_gate :: gate
  ag_blocks :: block_queue
  ag_metrics :: metrics_state
  ag_links :: "link list"
  ag_loopback :: "ipv6 option"
  ag_router_id :: "string option"
  ag_counters :: "(string, nat \<times> nat) hmap"
  ag_desired :: "(string, nat) hmap"

definition agent_grace :: "agent_cfg \<Rightarrow> nat" where
  "agent_grace cfg = max (ac_ping_interval cfg * 2) (secs 2)"

definition agent_throughput :: "agent_cfg \<Rightarrow> throughput" where
  "agent_throughput cfg = \<lparr>tp_iperf_bin = ac_iperf_bin cfg, tp_port = ac_iperf_port cfg, tp_udp_port = ac_udp_port cfg,
     tp_udp_rate_mbps = ac_udp_rate_mbps cfg, tp_duration = ac_tcp_duration cfg, tp_tcp_rate_mbps = ac_tcp_rate_mbps cfg,
     tp_quiet_max_mbps = ac_quiet_max_mbps cfg, tp_grace = agent_grace cfg\<rparr>"

definition agent_new :: "agent_cfg \<Rightarrow> 16 word \<Rightarrow> agent" where
  "agent_new cfg pid = \<lparr>ag_cfg = cfg, ag_prober = prober_new (ac_ping_window cfg) pid, ag_gate = gate_default,
     ag_blocks = [], ag_metrics = metrics_default, ag_links = [], ag_loopback = None, ag_router_id = None,
     ag_counters = [], ag_desired = []\<rparr>"

definition bump :: "(counters \<Rightarrow> counters) \<Rightarrow> agent \<Rightarrow> agent" where
  "bump f a = a\<lparr>ag_metrics := (ag_metrics a)\<lparr>me_counters := f (me_counters (ag_metrics a))\<rparr>\<rparr>"

definition link_key_of :: "agent \<Rightarrow> link \<Rightarrow> link_key" where
  "link_key_of a l = new_link (ac_agent (ag_cfg a)) (li_to l) (li_interface l)"

definition agent_interfaces :: "agent \<Rightarrow> string list" where
  "agent_interfaces a = map li_interface (ag_links a)"

definition link_keys :: "agent \<Rightarrow> link_key list" where
  "link_keys a = map (link_key_of a) (ag_links a)"

definition register_req_of :: "(ipv6 \<Rightarrow> string) \<Rightarrow> agent \<Rightarrow> register_req" where
  "register_req_of show_ip a = \<lparr>rq_agent = ac_agent (ag_cfg a), rq_router_id = ag_router_id a, rq_links = link_keys a,
     rq_peer_rids = collect_map (List.map_filter (\<lambda>l. map_option (\<lambda>r. (li_interface l, r)) (li_peer_rid l)) (ag_links a)),
     rq_loopback = map_option show_ip (ag_loopback a)\<rparr>"

section \<open>Utilisation and refresh\<close>

definition util_since_last :: "string \<Rightarrow> nat option \<Rightarrow> nat \<Rightarrow> agent \<Rightarrow> f64 \<times> agent" where
  "util_since_last iface bytes now a =
     (case bytes of
        None \<Rightarrow> (Fin 0, a)
      | Some b \<Rightarrow>
          (case hm_get (ag_counters a) iface of
             Some (before, t) \<Rightarrow> link_rate_mbps before b (saturating_sub now t)
           | None \<Rightarrow> Fin 0,
           a\<lparr>ag_counters := hm_insert iface (b, now) (ag_counters a)\<rparr>))"

text \<open>The links whose cost differs from the one the controller asked for: interface, has, want.\<close>

definition drifted :: "(string, nat) hmap \<Rightarrow> link list \<Rightarrow> (string \<times> nat \<times> nat) list" where
  "drifted desired links = List.map_filter (\<lambda>l.
     case (hm_get desired (li_interface l), li_cost l) of
       (Some want, Some has) \<Rightarrow> if has \<noteq> want then Some (li_interface l, has, want) else None
     | _ \<Rightarrow> None) links"

definition reapply :: "(string \<Rightarrow> nat \<Rightarrow> nat \<Rightarrow> string + json) \<Rightarrow> string \<times> nat \<times> nat \<Rightarrow> agent \<Rightarrow> agent" where
  "reapply replies = (\<lambda>(iface, has, want) a.
     case fst (set_ospf_cost (replies iface want)) of
       Inr _ \<Rightarrow> bump (\<lambda>c. c\<lparr>cn_apply_cost_reapplied := cn_apply_cost_reapplied c + 1\<rparr>) a
     | Inl _ \<Rightarrow> bump (\<lambda>c. c\<lparr>cn_apply_cost_errors := cn_apply_cost_errors c + 1\<rparr>) a)"

definition iface_present :: "link list \<Rightarrow> string \<Rightarrow> 'a \<Rightarrow> bool" where
  "iface_present links iface v = list_ex (\<lambda>l. li_interface l = iface) links"

definition refresh ::
  "(string \<Rightarrow> ipv6 option) \<Rightarrow> bus \<Rightarrow> (string \<Rightarrow> nat \<Rightarrow> nat \<Rightarrow> string + json) \<Rightarrow> agent \<Rightarrow> agent" where
  "refresh ip_of bus replies a =
     (let known = collect_map (map (\<lambda>l. (li_interface l, li_to l)) (ag_links a));
          found = discover ip_of bus (ag_cfg a) known;
          links = di_links found;
          lb = discover_loopback ip_of bus (ag_cfg a);
          a = a\<lparr>ag_prober := reconcile links (ag_prober a),
                ag_counters := hm_retain (iface_present links) (ag_counters a),
                ag_desired := hm_retain (iface_present links) (ag_desired a),
                ag_links := links, ag_loopback := lb, ag_router_id := di_router_id found\<rparr>
      in fold (reapply replies) (drifted (ag_desired a) links) a)"

section \<open>Commands\<close>

text \<open>What the world answers while one command runs.\<close>

record exec_world =
  ew_test :: test_world
  ew_unix :: nat
  ew_bytes :: "nat option"
  ew_now :: nat
  ew_cost :: "nat \<Rightarrow> string + json"
  ew_route :: "string \<Rightarrow> string + json"
  ew_route_of :: "json \<Rightarrow> route_rep option"

definition unknown_interface :: "string \<Rightarrow> string" where
  "unknown_interface iface = ''unknown interface '' @ iface"

definition busy_reply :: "agent \<Rightarrow> string \<Rightarrow> string option \<Rightarrow> link_key \<Rightarrow> string option \<Rightarrow> probe_reply" where
  "busy_reply a i token link tp = \<lparr>pr_agent = ac_agent (ag_cfg a), pr_id = i, pr_link = link, pr_ts = None,
     pr_rtt_ms = None, pr_loss_pct = None, pr_jitter_ms = None, pr_tcp_mbps = None, pr_udp_mbps = None,
     pr_udp_jitter_ms = None, pr_udp_loss_pct = None, pr_util_mbps = Fin 0, pr_state = Busy, pr_token = token,
     pr_note = Some (unknown_interface (lk_iface link)), pr_traceparent = tp, pr_blocks = []\<rparr>"

text \<open>A probe's measurement: utilisation, tcp, udp, state, the token echoed, the note.\<close>

type_synonym probe_result =
  "f64 \<times> f64 option \<times> udp_result option \<times> probe_state \<times> string option \<times> string option"

definition throughput_probe :: "exec_world \<Rightarrow> link \<Rightarrow> string option \<Rightarrow> agent \<Rightarrow> probe_result \<times> agent" where
  "throughput_probe w l token a =
     (let a = bump (\<lambda>c. c\<lparr>cn_probe_iperf := cn_probe_iperf c + 1\<rparr>) a;
          (out, g) = run_throughput (agent_throughput (ag_cfg a)) (ew_test w) (ag_gate a);
          a = a\<lparr>ag_gate := g\<rparr>;
          a = (if oc_busy out then bump (\<lambda>c. c\<lparr>cn_probe_busy := cn_probe_busy c + 1\<rparr>) a else a);
          a = (if oc_error out \<noteq> None then bump (\<lambda>c. c\<lparr>cn_probe_errors_iperf := cn_probe_errors_iperf c + 1\<rparr>) a else a);
          m = ag_metrics a;
          a = a\<lparr>ag_metrics := m\<lparr>me_throughput := hm_insert (li_interface l)
                 \<lparr>lt_tcp_mbps = oc_tcp_mbps out, lt_udp = oc_udp out, lt_util_mbps = oc_util_mbps out,
                  lt_busy = oc_busy out, lt_unixtime = ew_unix w\<rparr> (me_throughput m)\<rparr>\<rparr>
      in ((oc_util_mbps out, oc_tcp_mbps out, oc_udp out, if oc_busy out then Busy else Quiet, token, oc_error out), a))"

definition always_probe :: "exec_world \<Rightarrow> link \<Rightarrow> agent \<Rightarrow> probe_result \<times> agent" where
  "always_probe w l a =
     (let a = bump (\<lambda>c. c\<lparr>cn_probe_ping := cn_probe_ping c + 1\<rparr>) a;
          (util, a) = util_since_last (li_interface l) (ew_bytes w) (ew_now w) a
      in ((util, None, None, if f_lt (ac_quiet_max_mbps (ag_cfg a)) util then Busy else Quiet, None, None), a))"

definition finish_probe ::
  "string \<Rightarrow> tier \<Rightarrow> link_key \<Rightarrow> string option \<Rightarrow> link \<Rightarrow> probe_result \<times> agent \<Rightarrow> probe_reply \<times> agent" where
  "finish_probe i t link tp l = (\<lambda>((util, tcp, udp, st, token, note), a).
     let snap = (case prober_stats (ag_prober a) (li_interface l) of Some s \<Rightarrow> st_snapshot s | None \<Rightarrow> snapshot_default);
         a = (if t = Always \<and> sn_rtt_ms snap = None
              then bump (\<lambda>c. c\<lparr>cn_probe_errors_ping := cn_probe_errors_ping c + 1\<rparr>) a else a);
         a = bump (\<lambda>c. c\<lparr>cn_commands_succeeded := cn_commands_succeeded c + 1\<rparr>) a;
         (blocks, q) = (if t = Always then take_blocks (li_interface l) (ag_blocks a) else ([], ag_blocks a))
     in (\<lparr>pr_agent = ac_agent (ag_cfg a), pr_id = i, pr_link = link, pr_ts = None,
          pr_rtt_ms = sn_rtt_ms snap, pr_loss_pct = sn_loss_pct snap, pr_jitter_ms = sn_jitter_ms snap,
          pr_tcp_mbps = tcp, pr_udp_mbps = map_option ud_mbps udp, pr_udp_jitter_ms = Option.bind udp ud_jitter_ms,
          pr_udp_loss_pct = Option.bind udp ud_loss_pct, pr_util_mbps = util, pr_state = st, pr_token = token,
          pr_note = note, pr_traceparent = tp, pr_blocks = blocks\<rparr>,
         a\<lparr>ag_blocks := q\<rparr>))"

definition execute_probe ::
  "exec_world \<Rightarrow> string \<Rightarrow> tier \<Rightarrow> string option \<Rightarrow> link_key \<Rightarrow> string option \<Rightarrow> agent \<Rightarrow> agent_reply option \<times> agent" where
  "execute_probe w i t token link tp a =
     (case find_link (ag_links a) (lk_iface link) of
        None \<Rightarrow> (if t = Throughput then Some (RProbe (busy_reply a i token link tp)) else None,
          bump (\<lambda>c. c\<lparr>cn_commands_errored := cn_commands_errored c + 1\<rparr>) a)
      | Some l \<Rightarrow>
          let (r, a) = finish_probe i t link tp l
                (if t = Throughput then throughput_probe w l token a else always_probe w l a)
          in (Some (RProbe r), a))"

definition execute_apply ::
  "exec_world \<Rightarrow> string \<Rightarrow> link_key \<Rightarrow> nat \<Rightarrow> string option \<Rightarrow> agent \<Rightarrow> agent_reply option \<times> agent" where
  "execute_apply w i link cost tp a =
     (let note = (case find_link (ag_links a) (lk_iface link) of
            None \<Rightarrow> Some (unknown_interface (lk_iface link))
          | Some _ \<Rightarrow> (case fst (set_ospf_cost (ew_cost w)) of Inl e \<Rightarrow> Some e | Inr _ \<Rightarrow> None));
          a = (case note of
            None \<Rightarrow> (bump (\<lambda>c. c\<lparr>cn_apply_cost := cn_apply_cost c + 1, cn_commands_succeeded := cn_commands_succeeded c + 1\<rparr>) a)
              \<lparr>ag_desired := hm_insert (lk_iface link) cost (ag_desired a)\<rparr>
          | Some _ \<Rightarrow> bump (\<lambda>c. c\<lparr>cn_apply_cost_errors := cn_apply_cost_errors c + 1,
              cn_commands_errored := cn_commands_errored c + 1\<rparr>) a)
      in (Some (RApplied (ac_agent (ag_cfg a)) i link cost note tp), a))"

definition execute_trace :: "exec_world \<Rightarrow> string \<Rightarrow> string \<Rightarrow> string option \<Rightarrow> agent \<Rightarrow> agent_reply option \<times> agent" where
  "execute_trace w i target tp a =
     (let (code, routes) = bird_route (ew_route_of w) (ew_route w) target
      in (Some (RTrace (ac_agent (ag_cfg a)) i tp target code routes),
          bump (\<lambda>c. c\<lparr>cn_commands_succeeded := cn_commands_succeeded c + 1\<rparr>) a))"

fun execute :: "exec_world \<Rightarrow> work_cmd \<Rightarrow> agent \<Rightarrow> agent_reply option \<times> agent" where
  "execute w cmd a0 =
     (let a = bump (\<lambda>c. c\<lparr>cn_commands_received := cn_commands_received c + 1\<rparr>) a0
      in case cmd of
           Probe i t token link tp \<Rightarrow> execute_probe w i t token link tp a
         | ApplyCost i link cost tp \<Rightarrow> execute_apply w i link cost tp a
         | Trace i target tp \<Rightarrow> execute_trace w i target tp a)"

definition render_metrics :: "(f64 \<Rightarrow> string) \<Rightarrow> agent \<Rightarrow> string list" where
  "render_metrics show a = render show (ag_metrics a)
     (map (\<lambda>l. ((ac_agent (ag_cfg a), li_to l, li_interface l), prober_stats (ag_prober a) (li_interface l))) (ag_links a))"

section \<open>What a reconciliation leaves\<close>

definition probe_view :: "prober_entry \<Rightarrow> link \<times> window" where
  "probe_view e = (pe_link e, pe_window e)"

lemma probe_view_new: "probe_view \<lparr>pe_link = l, pe_window = w, pe_id = k\<rparr> = (l, w)"
  by (simp add: probe_view_def)

lemma find_link_simps [simp]:
  "find_link [] i = None"
  "find_link (l # ls) i = (if li_interface l = i then Some l else find_link ls i)"
  by (simp_all add: find_link_def)

lemma find_link_interface: "find_link ls i = Some l \<Longrightarrow> li_interface l = i \<and> l \<in> set ls"
  by (induction ls) (auto split: if_splits)

lemma changed_windows_get:
  assumes "hm_ok m"
  shows "hm_get (changed_windows links m) i = Option.bind (hm_get m i) (\<lambda>e.
    Option.bind (find_link links i) (\<lambda>l. if l = pe_link e then None else Some (pe_window e)))"
proof -
  let ?row = "\<lambda>(iface, e). case find_link links iface of
       Some l \<Rightarrow> if l = pe_link e then None else Some (iface, pe_window e) | None \<Rightarrow> None"
  have keep: "?row p = Some (k, w) \<Longrightarrow> fst p = k" for p k w
    by (auto split: prod.split_asm option.split_asm if_split_asm)
  have sub: "fst ` set (List.map_filter ?row m) \<subseteq> fst ` set m" for m
    by (induction m) (auto simp: List.map_filter_simps split: option.splits if_splits)
  have ok: "distinct (map fst (List.map_filter ?row m))"
    using assms unfolding hm_ok_def
  proof (induction m)
    case (Cons p m)
    then have ih: "distinct (map fst (List.map_filter ?row m))" and new: "fst p \<notin> fst ` set (List.map_filter ?row m)"
      using sub [of m] by auto
    show ?case
    proof (cases "?row p")
      case (Some q)
      with keep [of p "fst q" "snd q"] have "fst q = fst p" by simp
      with Some ih new show ?thesis by (simp add: List.map_filter_simps)
    qed (simp add: List.map_filter_simps ih)
  qed (simp add: List.map_filter_simps)
  have "map_of (List.map_filter ?row m) i = Option.bind (hm_get m i) (\<lambda>e.
    Option.bind (find_link links i) (\<lambda>l. if l = pe_link e then None else Some (pe_window e)))"
    using assms unfolding hm_ok_def
  proof (induction m)
    case (Cons p m)
    obtain k e where p: "p = (k, e)" by (cases p)
    with Cons have "hm_get m k = None" by (auto simp: map_of_eq_None_iff)
    with Cons p show ?case
      by (auto simp: List.map_filter_simps split: option.split)
  qed (simp add: List.map_filter_simps)
  then show ?thesis
    using ok by (simp add: changed_windows_def collect_map_get map_of_rev_ok)
qed

lemma start_probe_steps:
  "map_option probe_view (hm_get (fst (fold (start_probe n) links (m, ws, k))) i) =
     (case hm_get m i of
        Some e \<Rightarrow> Some (probe_view e)
      | None \<Rightarrow> map_option (\<lambda>l. (l, case hm_get ws i of Some w \<Rightarrow> w | None \<Rightarrow> window_new n)) (find_link links i))"
proof (induction links arbitrary: m ws k)
  case (Cons l links)
  show ?case
  proof (cases "hm_get m (li_interface l)")
    case None
    let ?w = "case hm_get ws (li_interface l) of Some w \<Rightarrow> w | None \<Rightarrow> window_new n"
    have "start_probe n l (m, ws, k)
      = (hm_insert (li_interface l) \<lparr>pe_link = l, pe_window = ?w, pe_id = k\<rparr> m, hm_remove (li_interface l) ws, k + 1)"
      using None by (simp add: start_probe_def hm_has_def)
    with None show ?thesis by (cases "li_interface l = i"; cases "hm_get m i") (simp_all add: Cons.IH probe_view_new)
  next
    case (Some e)
    then have "start_probe n l (m, ws, k) = (m, ws, k)" by (simp add: start_probe_def hm_has_def)
    with Some show ?thesis by (cases "li_interface l = i"; cases "hm_get m i") (simp_all add: Cons.IH)
  qed
qed (simp split: option.split)

lemma start_probe_keeps:
  "hm_get m i = Some e \<Longrightarrow> hm_get (fst (fold (start_probe n) links (m, ws, k))) i = Some e"
proof (induction links arbitrary: m ws k)
  case (Cons l links)
  then show ?case by (cases "li_interface l = i"; cases "hm_get m (li_interface l)") (simp_all add: start_probe_def hm_has_def)
qed simp

lemma start_probe_ok:
  "hm_ok m \<Longrightarrow> hm_ok (fst (fold (start_probe n) links (m, ws, k)))"
  by (induction links arbitrary: m ws k) (auto simp: start_probe_def Let_def)

lemma reconcile_links:
  "pb_links (reconcile links p) = fst (fold (start_probe (pb_window_size p)) links
     (hm_retain (\<lambda>iface e. find_link links iface = Some (pe_link e)) (pb_links p),
      changed_windows links (pb_links p), pb_next_id p))"
  by (simp add: reconcile_def Let_def split_beta)

lemma reconcile_ok: "hm_ok (pb_links p) \<Longrightarrow> hm_ok (pb_links (reconcile links p))"
  by (simp add: reconcile_links start_probe_ok)

text \<open>C22: a reconciliation probes exactly the discovered links: an unchanged link keeps its running
  entry, a changed link keeps its window (and so the loss counted on it), a new one starts with an
  empty window, and the probes of removed links stop.\<close>
theorem reconcile_keeps_windows:
  assumes "hm_ok (pb_links p)" and "p' = reconcile links p"
  shows "case find_link links i of
      None \<Rightarrow> hm_get (pb_links p') i = None
    | Some l \<Rightarrow>
        (case hm_get (pb_links p) i of
           None \<Rightarrow> map_option probe_view (hm_get (pb_links p') i) = Some (l, window_new (pb_window_size p))
         | Some e \<Rightarrow>
             if pe_link e = l then hm_get (pb_links p') i = Some e
             else map_option probe_view (hm_get (pb_links p') i) = Some (l, pe_window e))"
proof -
  have link: "map_option probe_view (hm_get (pb_links p') i) = map_option (\<lambda>l.
      (l, case hm_get (pb_links p) i of Some e \<Rightarrow> pe_window e | None \<Rightarrow> window_new (pb_window_size p))) (find_link links i)"
    using assms
    by (cases "find_link links i"; cases "hm_get (pb_links p) i")
      (auto simp: reconcile_links start_probe_steps hm_get_retain changed_windows_get probe_view_def)
  have keep: "hm_get (pb_links p') i = Some e"
    if "hm_get (pb_links p) i = Some e" "find_link links i = Some (pe_link e)" for e
    using that assms by (simp add: reconcile_links start_probe_keeps hm_get_retain)
  show ?thesis
    using link keep by (auto split: option.split)
qed

text \<open>An adjacency flap: the neighbour's address goes away, the window with its loss survives.\<close>

definition tun_link :: "string \<Rightarrow> ipv6 option \<Rightarrow> link" where
  "tun_link i ll = \<lparr>li_interface = i, li_to = ''node-1'', li_source = 0xfd00, li_target = 0xfd01, li_peer_ll = ll,
     li_cost = None, li_peer_rid = None\<rparr>"

definition flapping :: prober where
  "flapping = (let p = reconcile [tun_link ''tun0'' (Some 5)] (prober_new 3 65535)
     in p\<lparr>pb_links := hm_modify ''tun0'' (\<lambda>e. e\<lparr>pe_window := record_timeout (pe_window e)\<rparr>) (pb_links p)\<rparr>)"

lemma flapping_links:
  "pb_links flapping = [(''tun0'', \<lparr>pe_link = tun_link ''tun0'' (Some 5),
     pe_window = \<lparr>wn_size = 3, wn_outcomes = [None], wn_sent = 0, wn_received = 0, wn_lost = 1\<rparr>, pe_id = 65535\<rparr>)]"
  by code_simp

theorem reconcile_keeps_windows_witness:
  "map_option (\<lambda>e. (li_peer_ll (pe_link e), wn_lost (pe_window e)))
     (hm_get (pb_links (reconcile [tun_link ''tun0'' None] flapping)) ''tun0'') = Some (None, 1)"
proof -
  have "hm_ok (pb_links flapping)" by (simp add: flapping_links hm_ok_def)
  from reconcile_keeps_windows [OF this refl, of "[tun_link ''tun0'' None]" "''tun0''"]
  show ?thesis by (auto simp: flapping_links tun_link_def probe_view_def)
qed

section \<open>Commands are answered and counted\<close>

lemma bump_simps [simp]:
  "ag_cfg (bump f a) = ag_cfg a" "ag_prober (bump f a) = ag_prober a" "ag_gate (bump f a) = ag_gate a"
  "ag_blocks (bump f a) = ag_blocks a" "ag_links (bump f a) = ag_links a" "ag_desired (bump f a) = ag_desired a"
  "ag_counters (bump f a) = ag_counters a" "me_counters (ag_metrics (bump f a)) = f (me_counters (ag_metrics a))"
  by (simp_all add: bump_def)

definition answers :: "string \<Rightarrow> string \<Rightarrow> link_key \<Rightarrow> string option \<Rightarrow> string option \<Rightarrow> agent_reply option \<Rightarrow> bool" where
  "answers name i link token tp reply = (case reply of
     Some (RProbe r) \<Rightarrow> pr_agent r = name \<and> pr_id r = i \<and> pr_link r = link \<and> pr_token r = token
       \<and> pr_ts r = None \<and> pr_traceparent r = tp \<and> pr_blocks r = []
   | _ \<Rightarrow> False)"

text \<open>A throughput command is answered whatever happens: the test ran, failed, found the link busy,
  or the interface is not known. The answer carries the controller's link and token unchanged.\<close>
lemma throughput_command_answered:
  "answers (ac_agent (ag_cfg a)) i link token tp (fst (execute w (Probe i Throughput token link tp) a))"
  by (simp add: execute_probe_def answers_def busy_reply_def finish_probe_def throughput_probe_def Let_def split_beta
      split: option.split)

text \<open>What the daemon does to an agent: a command with what the world answers, or a refresh.\<close>

datatype agent_event =
    Executed exec_world work_cmd
  | Refreshed "string \<Rightarrow> ipv6 option" bus "string \<Rightarrow> nat \<Rightarrow> nat \<Rightarrow> string + json"

fun agent_step :: "agent_event \<Rightarrow> agent \<Rightarrow> agent" where
  "agent_step (Executed w cmd) a = snd (execute w cmd a)"
| "agent_step (Refreshed ip_of bus replies) a = refresh ip_of bus replies a"

fun is_executed :: "agent_event \<Rightarrow> bool" where
  "is_executed (Executed _ _) = True"
| "is_executed _ = False"

text \<open>Commands received, answered with a result, answered with an error or dropped.\<close>

definition command_counts :: "agent \<Rightarrow> nat \<times> nat \<times> nat" where
  "command_counts a = (let c = me_counters (ag_metrics a)
     in (cn_commands_received c, cn_commands_succeeded c, cn_commands_errored c))"

lemma counts_frame [simp]:
  "command_counts (a\<lparr>ag_gate := g\<rparr>) = command_counts a"
  "command_counts (a\<lparr>ag_blocks := q\<rparr>) = command_counts a"
  "command_counts (a\<lparr>ag_counters := cs\<rparr>) = command_counts a"
  "command_counts (a\<lparr>ag_desired := d\<rparr>) = command_counts a"
  by (simp_all add: command_counts_def Let_def)

lemma counts_probe:
  "command_counts (snd (throughput_probe w l token a)) = command_counts a"
  "command_counts (snd (always_probe w l a)) = command_counts a"
  by (simp_all add: throughput_probe_def always_probe_def util_since_last_def command_counts_def Let_def split_beta
      bump_def split: option.split)

lemma counts_finish:
  "command_counts (snd (finish_probe i t link tp l p)) =
     (case command_counts (snd p) of (r, s, e) \<Rightarrow> (r, s + 1, e))"
  by (simp add: finish_probe_def command_counts_def Let_def split_beta bump_def split: option.split)

lemma counts_execute:
  "case command_counts a of (r, s, e) \<Rightarrow> command_counts (snd (execute w cmd a)) \<in> {(r + 1, s + 1, e), (r + 1, s, e + 1)}"
proof -
  obtain r s e where c: "command_counts a = (r, s, e)" by (cases "command_counts a")
  let ?a = "bump (\<lambda>c. c\<lparr>cn_commands_received := cn_commands_received c + 1\<rparr>) a"
  have b: "command_counts ?a = (r + 1, s, e)" using c by (simp add: command_counts_def Let_def)
  show ?thesis
  proof (cases cmd)
    case (Probe i t token link tp)
    show ?thesis
    proof (cases "find_link (ag_links a) (lk_iface link)")
      case None
      with Probe b c show ?thesis by (simp add: execute_probe_def command_counts_def Let_def)
    next
      case (Some l)
      with Probe b c show ?thesis by (simp add: execute_probe_def Let_def split_beta counts_finish counts_probe)
    qed
  next
    case (ApplyCost i link cost tp)
    with b c show ?thesis by (simp add: execute_apply_def command_counts_def Let_def split: option.split)
  next
    case (Trace i target tp)
    with b c show ?thesis by (simp add: execute_trace_def command_counts_def Let_def split_beta)
  qed
qed

lemma counts_reapply: "command_counts (fold (reapply replies) ds a) = command_counts a"
  by (induction ds arbitrary: a)
    (auto simp: reapply_def command_counts_def Let_def split: prod.split sum.split)

lemma counts_refresh: "command_counts (refresh ip_of bus replies a) = command_counts a"
proof -
  have "command_counts (a\<lparr>ag_prober := p, ag_counters := c, ag_desired := d, ag_links := l, ag_loopback := b, ag_router_id := r\<rparr>)
      = command_counts a" for p c d l b r by (simp add: command_counts_def)
  then show ?thesis by (simp add: refresh_def Let_def counts_reapply)
qed

text \<open>Every command is counted once: as many are received as were executed, and each ended as
  succeeded or as errored.\<close>
theorem commands_counted:
  "case command_counts (fold agent_step es (agent_new cfg pid)) of
     (received, succeeded, errored) \<Rightarrow> received = length (filter is_executed es) \<and> received = succeeded + errored"
proof -
  have "case command_counts (fold agent_step es a) of (received, succeeded, errored) \<Rightarrow>
      received = r + length (filter is_executed es) \<and> received = succeeded + errored"
    if "command_counts a = (r, s, e)" "r = s + e" for a r s e
    using that
  proof (induction es arbitrary: a r s e)
    case (Cons ev es)
    show ?case
    proof (cases ev)
      case (Executed w cmd)
      from counts_execute [where a = a and w = w and cmd = cmd] Cons.prems
      consider "command_counts (snd (execute w cmd a)) = (r + 1, s + 1, e)"
        | "command_counts (snd (execute w cmd a)) = (r + 1, s, e + 1)" by auto
      then show ?thesis
        by cases (use Cons.IH [of "snd (execute w cmd a)"] Cons.prems Executed in \<open>fastforce simp del: execute.simps\<close>)+
    next
      case (Refreshed ip_of bus replies)
      then show ?thesis using Cons by (simp add: counts_refresh)
    qed
  qed simp
  from this [of "agent_new cfg pid" 0 0 0] show ?thesis
    by (simp add: agent_new_def command_counts_def metrics_default_def counters_default_def)
qed

end
