(* ===== verification/AgentSession.thy ===== *)
theory AgentSession
  imports Agent "HOL-Library.Multiset"
begin

text \<open>
  The agent's side of a controller session (\<open>crates/agent/src/session.rs\<close>) and the tasks around it
  (\<open>main.rs\<close>): dialling with back-off, the hello, re-registration when the links change, and the two
  halves of a marking block. Resolution, the outcome of a dial, the controller's answer and the
  clock are arguments; the atomic steps are what happens between two awaits.
\<close>

section \<open>Dialling\<close>

definition backoff_min :: nat where
  "backoff_min = secs 1"

definition backoff_max :: nat where
  "backoff_max = secs 30"

definition position_of :: "'a \<Rightarrow> ('a \<times> string) list \<Rightarrow> nat option" where
  "position_of a cs = (if list_ex (\<lambda>(c, _). c = a) cs then Some (length (takeWhile (\<lambda>(c, _). c \<noteq> a) cs)) else None)"

definition dial_order :: "'a option \<Rightarrow> ('a \<times> string) list \<Rightarrow> ('a \<times> string) list" where
  "dial_order last_good cs = (case Option.bind last_good (\<lambda>a. position_of a cs) of
     Some pos \<Rightarrow> rotate pos cs | None \<Rightarrow> cs)"

fun dial_each :: "('a \<Rightarrow> string \<Rightarrow> bool) \<Rightarrow> ('a \<times> string) list \<Rightarrow> agent \<Rightarrow> 'a option \<times> agent" where
  "dial_each dial [] a = (None, a)"
| "dial_each dial ((addr, server) # cs) a =
     (if dial addr server
      then (Some addr, bump (\<lambda>c. c\<lparr>cn_session_connects := cn_session_connects c + 1\<rparr>) a)
      else dial_each dial cs (bump (\<lambda>c. c\<lparr>cn_session_dial_errors := cn_session_dial_errors c + 1\<rparr>) a))"

definition connect :: "('a \<Rightarrow> string \<Rightarrow> bool) \<Rightarrow> ('a \<times> string) list \<Rightarrow> 'a option \<Rightarrow> agent \<Rightarrow> 'a option \<times> agent" where
  "connect dial candidates last_good a =
     (if candidates = [] then (None, a) else dial_each dial (dial_order last_good candidates) a)"

section \<open>The runtime\<close>

text \<open>Where the session task is: dialling, waiting for the answer to the first \<open>register\<close> or to a
  later one (with the links it carried), or serving commands. \<open>rt_changed\<close> is the stored permit of
  \<open>links_changed\<close>.\<close>

datatype phase = Dialing | Greeting "link_key list" | Serving | Updating "link_key list"

record 'a runtime =
  rt_agent :: agent
  rt_changed :: bool
  rt_registered :: "link_key list"
  rt_backoff :: nat
  rt_last_good :: "'a option"
  rt_phase :: phase

definition runtime_new :: "agent_cfg \<Rightarrow> 16 word \<Rightarrow> 'a runtime" where
  "runtime_new cfg pid = \<lparr>rt_agent = agent_new cfg pid, rt_changed = False, rt_registered = [],
     rt_backoff = backoff_min, rt_last_good = None, rt_phase = Dialing\<rparr>"

text \<open>What a refresh asks and is answered.\<close>

record refresh_world =
  rw_ip_of :: "string \<Rightarrow> ipv6 option"
  rw_bus :: bus
  rw_cost :: "string \<Rightarrow> nat \<Rightarrow> nat \<Rightarrow> string + json"

definition rediscover :: "refresh_world \<Rightarrow> agent \<Rightarrow> agent" where
  "rediscover w a = refresh (rw_ip_of w) (rw_bus w) (rw_cost w) a"

text \<open>One round of \<open>run\<close> up to the hello: a failed round waits and doubles the back-off.\<close>

definition next_backoff :: "bool \<Rightarrow> nat \<Rightarrow> nat" where
  "next_backoff up backoff = (if up then backoff_min else min (backoff * 2) backoff_max)"

definition dial_round ::
  "('a \<Rightarrow> string \<Rightarrow> bool) \<Rightarrow> ('a \<times> string) list \<Rightarrow> refresh_world \<Rightarrow> 'a runtime \<Rightarrow> 'a runtime" where
  "dial_round dial candidates w rt =
     (let (remote, a) = connect dial candidates (rt_last_good rt) (rt_agent rt);
          rt = rt\<lparr>rt_backoff := next_backoff (remote \<noteq> None) (rt_backoff rt)\<rparr>
      in case remote of
           None \<Rightarrow> rt\<lparr>rt_agent := a\<rparr>
         | Some addr \<Rightarrow>
             let a = rediscover w a
             in rt\<lparr>rt_agent := a, rt_last_good := Some addr, rt_phase := Greeting (link_keys a)\<rparr>)"

definition connected_gauge :: "bool \<Rightarrow> 'a runtime \<Rightarrow> 'a runtime" where
  "connected_gauge up rt = rt\<lparr>rt_agent := bump (set_connected up) (rt_agent rt)\<rparr>"

text \<open>The answer to a \<open>register\<close>; \<open>None\<close>: the request failed. A refused or failed one ends the session.\<close>

definition accepted_links :: "register_resp option \<Rightarrow> link_key list \<Rightarrow> 'a runtime \<Rightarrow> 'a runtime option" where
  "accepted_links answer links rt =
     (case answer of
        Some resp \<Rightarrow> if rs_ok resp then Some (rt\<lparr>rt_registered := links\<rparr>) else None
      | None \<Rightarrow> None)"

definition answered :: "register_resp option \<Rightarrow> 'a runtime \<Rightarrow> 'a runtime" where
  "answered answer rt =
     (case rt_phase rt of
        Greeting links \<Rightarrow>
          (case accepted_links answer links rt of
             Some rt \<Rightarrow> connected_gauge True (rt\<lparr>rt_phase := Serving\<rparr>)
           | None \<Rightarrow> rt\<lparr>rt_phase := Dialing\<rparr>)
      | Updating links \<Rightarrow>
          (case accepted_links answer links rt of
             Some rt \<Rightarrow> rt\<lparr>rt_phase := Serving\<rparr>
           | None \<Rightarrow> connected_gauge False (rt\<lparr>rt_phase := Dialing\<rparr>))
      | _ \<Rightarrow> rt)"

text \<open>The notified branch of \<open>serve\<close> takes the permit and says hello with the links of that moment.\<close>

definition notified :: "'a runtime \<Rightarrow> 'a runtime" where
  "notified rt =
     (if rt_phase rt = Serving \<and> rt_changed rt
      then rt\<lparr>rt_changed := False, rt_phase := Updating (link_keys (rt_agent rt))\<rparr> else rt)"

definition session_lost :: "'a runtime \<Rightarrow> 'a runtime" where
  "session_lost rt = (if rt_phase rt = Serving then connected_gauge False (rt\<lparr>rt_phase := Dialing\<rparr>) else rt)"

definition refresher_tick :: "refresh_world \<Rightarrow> 'a runtime \<Rightarrow> 'a runtime" where
  "refresher_tick w rt =
     (let a = rediscover w (rt_agent rt); rt = rt\<lparr>rt_agent := a\<rparr>
      in if rt_registered rt \<noteq> link_keys a then rt\<lparr>rt_changed := True\<rparr> else rt)"

datatype 'a session_event =
    Dial "'a \<Rightarrow> string \<Rightarrow> bool" "('a \<times> string) list" refresh_world
  | Answer "register_resp option"
  | Notified
  | Lost
  | Tick refresh_world
  | Command exec_world work_cmd

fun session_step :: "'a session_event \<Rightarrow> 'a runtime \<Rightarrow> 'a runtime" where
  "session_step (Dial dial cs w) rt = (if rt_phase rt = Dialing then dial_round dial cs w rt else rt)"
| "session_step (Answer answer) rt = answered answer rt"
| "session_step Notified rt = notified rt"
| "session_step Lost rt = session_lost rt"
| "session_step (Tick w) rt = refresher_tick w rt"
| "session_step (Command w cmd) rt = rt\<lparr>rt_agent := snd (execute w cmd (rt_agent rt))\<rparr>"

section \<open>The marking task\<close>

text \<open>A block that ended, with what its read half a block later will need.\<close>

record ended_block =
  eb_n :: nat
  eb_started :: nat
  eb_ended :: nat
  eb_ifaces :: "string list"

definition until_boundary :: "marker \<Rightarrow> f64 \<Rightarrow> f64" where
  "until_boundary m now = f_max (f_sub (f_mul (f_of_nat (block_of m now + 1)) (as_secs_f64 (mk_block m))) now) (Fin 0)"

definition block_boundary :: "f64 \<Rightarrow> nat \<Rightarrow> bool \<Rightarrow> marker \<Rightarrow> agent \<Rightarrow> ended_block \<times> agent" where
  "block_boundary now ended flipped m a =
     (\<lparr>eb_n = block_of m now, eb_started = (case checked_sub ended (mk_block m) of Some s \<Rightarrow> s | None \<Rightarrow> ended),
       eb_ended = ended, eb_ifaces = agent_interfaces a\<rparr>,
      if flipped then a else bump (\<lambda>c. c\<lparr>cn_mark_errors := cn_mark_errors c + 1\<rparr>) a)"

text \<open>The queue is shared with the agent, which drains it into replies.\<close>

definition block_readout :: "ended_block \<Rightarrow> json option \<Rightarrow> marker \<times> agent \<Rightarrow> marker \<times> agent" where
  "block_readout e reply = (\<lambda>(m, a).
     let under_test = overlapped (ag_gate a) (eb_started e) (eb_ended e);
         (res, m) = read_block (eb_ifaces e) (eb_n e) under_test reply (m\<lparr>mk_queue := ag_blocks a\<rparr>);
         a = a\<lparr>ag_blocks := mk_queue m\<rparr>
     in (m, case res of
          Inr out \<Rightarrow> bump (\<lambda>c. c\<lparr>cn_mark_blocks := cn_mark_blocks c + ro_blocks out,
            cn_mark_resets := cn_mark_resets c + ro_resets out\<rparr>) a
        | Inl _ \<Rightarrow> bump (\<lambda>c. c\<lparr>cn_mark_errors := cn_mark_errors c + 1\<rparr>) a))"

definition log_filter :: "string \<Rightarrow> string" where
  "log_filter level =
     (if level = ''debug'' then ''info,mielofon_agent=debug,mielofon_transport=debug''
      else if level = ''info'' \<or> level = ''notice'' then ''info''
      else if level = ''warning'' \<or> level = ''warn'' then ''warn''
      else if level = ''err'' \<or> level = ''error'' \<or> level = ''crit'' then ''error'' else ''info'')"

section \<open>Lemmas\<close>

lemma mset_rotate: "mset (rotate n xs) = mset xs"
  by (metis rotate_drop_take add.commute append_take_drop_id mset_append)

lemma dial_order_mset: "mset (dial_order lg cs) = mset cs"
  by (simp add: dial_order_def mset_rotate split: option.split)

lemma position_of_rotate: "position_of a cs = Some pos \<Longrightarrow> map fst (take 1 (rotate pos cs)) = [a]"
proof -
  assume p: "position_of a cs = Some pos"
  then have ex: "list_ex (\<lambda>(c, _). c = a) cs" and pos: "pos = length (takeWhile (\<lambda>(c, _). c \<noteq> a) cs)"
    by (simp_all add: position_of_def split: if_split_asm)
  from ex obtain h where "(a, h) \<in> set cs" by (auto simp: list_ex_iff)
  then have lt: "pos < length cs" unfolding pos
    by (metis (mono_tags, lifting) case_prod_conv le_neq_implies_less length_takeWhile_le set_takeWhileD takeWhile_eq_take take_all order_refl)
  have "fst (cs ! pos) = a"
    using nth_length_takeWhile [of "\<lambda>(c, _). c \<noteq> a" cs] lt unfolding pos by (auto split: prod.split_asm)
  with lt show ?thesis
    by (simp add: rotate_drop_take take_Suc hd_append hd_drop_conv_nth)
qed

lemma dial_each_first:
  "fst (dial_each dial cs a) = map_option fst (find (\<lambda>(addr, h). dial addr h) cs)"
  by (induction cs arbitrary: a) auto

text \<open>A round of dialling tries every resolved address at most once, the last one that worked
  first, and connects to the first that answers; it fails only when every address fails.\<close>
theorem connect_first_reachable:
  "fst (connect dial cs last_good a) = map_option fst (find (\<lambda>(addr, h). dial addr h) (dial_order last_good cs))
   \<and> mset (dial_order last_good cs) = mset cs
   \<and> (case last_good of None \<Rightarrow> True
      | Some g \<Rightarrow> if g \<in> fst ` set cs then map fst (take 1 (dial_order last_good cs)) = [g] else dial_order last_good cs = cs)"
proof -
  have "fst (connect dial cs last_good a) = map_option fst (find (\<lambda>(addr, h). dial addr h) (dial_order last_good cs))"
    by (cases "cs = []") (auto simp: connect_def dial_each_first dial_order_def split: option.split)
  moreover have "if g \<in> fst ` set cs then map fst (take 1 (dial_order (Some g) cs)) = [g] else dial_order (Some g) cs = cs" for g
  proof (cases "position_of g cs")
    case None
    then have "g \<notin> fst ` set cs" by (force simp: position_of_def list_ex_iff split: if_split_asm)
    with None show ?thesis by (simp add: dial_order_def)
  next
    case (Some pos)
    then have "g \<in> fst ` set cs" by (force simp: position_of_def list_ex_iff split: if_split_asm)
    with position_of_rotate [OF Some] Some show ?thesis by (simp add: dial_order_def)
  qed
  ultimately show ?thesis
    by (cases last_good) (simp_all only: dial_order_mset option.case simp_thms)
qed

section \<open>Back-off\<close>

text \<open>The back-off after a series of rounds, oldest first; each entry says whether the round connected.\<close>

definition backoff_after :: "bool list \<Rightarrow> nat" where
  "backoff_after rounds = fold next_backoff rounds backoff_min"

text \<open>The wait before the next round is one second doubled once per failed round since the last
  session, never above thirty seconds.\<close>
theorem backoff_schedule:
  "backoff_after rounds = min (secs (2 ^ length (takeWhile Not (rev rounds)))) (secs 30)"
proof (induction rounds rule: rev_induct)
  case Nil
  then show ?case by (simp add: backoff_after_def backoff_min_def secs_def)
next
  case (snoc r rs)
  have step: "backoff_after (rs @ [r]) = next_backoff r (backoff_after rs)" by (simp add: backoff_after_def)
  show ?case
    unfolding step snoc.IH by (cases r) (auto simp: next_backoff_def backoff_min_def backoff_max_def secs_def)
qed

section \<open>The session task\<close>

lemma rt_gauge_frame [simp]:
  "rt_phase (connected_gauge up rt) = rt_phase rt" "rt_registered (connected_gauge up rt) = rt_registered rt"
  "rt_changed (connected_gauge up rt) = rt_changed rt"
  "link_keys (rt_agent (connected_gauge up rt)) = link_keys (rt_agent rt)"
  by (simp_all add: connected_gauge_def link_keys_def link_key_of_def)

definition gauge :: "agent \<Rightarrow> nat" where
  "gauge a = cn_session_connected (me_counters (ag_metrics a))"

lemma gauge_frame [simp]:
  "gauge (snd (dial_each dial cs a)) = gauge a"
  "gauge (snd (connect dial cs lg a)) = gauge a"
proof -
  show *: "gauge (snd (dial_each dial cs a)) = gauge a" for cs
    by (induction cs arbitrary: a) (auto simp: gauge_def)
  show "gauge (snd (connect dial cs lg a)) = gauge a"
    by (simp add: connect_def *)
qed

lemma gauge_rediscover [simp]: "gauge (rediscover w a) = gauge a"
proof -
  have "gauge (fold (reapply replies) ds a) = gauge a" for replies ds a
    by (induction ds arbitrary: a) (auto simp: reapply_def gauge_def split: prod.split sum.split)
  then show ?thesis by (simp add: rediscover_def refresh_def Let_def) (simp add: gauge_def)
qed

lemma gauge_execute [simp]: "gauge (snd (execute w cmd a)) = gauge a"
  by (cases cmd)
    (simp_all add: execute_probe_def execute_apply_def execute_trace_def finish_probe_def throughput_probe_def
      always_probe_def util_since_last_def gauge_def bump_def Let_def split_beta split: option.split)

text \<open>Whether the task has an acknowledged session.\<close>

fun in_session :: "phase \<Rightarrow> bool" where
  "in_session Serving = True"
| "in_session (Updating _) = True"
| "in_session _ = False"

lemma gauge_step:
  "gauge (rt_agent rt) = (if in_session (rt_phase rt) then 1 else 0)
    \<Longrightarrow> gauge (rt_agent (session_step ev rt)) = (if in_session (rt_phase (session_step ev rt)) then 1 else 0)"
proof (cases ev)
  case (Dial dial cs w)
  assume g: "gauge (rt_agent rt) = (if in_session (rt_phase rt) then 1 else 0)"
  obtain remote a where c: "connect dial cs (rt_last_good rt) (rt_agent rt) = (remote, a)"
    by (cases "connect dial cs (rt_last_good rt) (rt_agent rt)")
  then have "gauge a = gauge (rt_agent rt)" using gauge_frame(2) by (metis snd_conv)
  with c g show ?thesis unfolding Dial by (cases remote) (auto simp: dial_round_def Let_def)
qed (auto simp: answered_def notified_def session_lost_def refresher_tick_def connected_gauge_def accepted_links_def
    gauge_def [of "bump _ _"] set_connected_def Let_def simp del: execute.simps split: phase.splits option.splits)

text \<open>The exported gauge tells the truth: it is one exactly while a controller has acknowledged this
  session's register, through every sequence of dials, answers, link changes, commands and losses.\<close>
theorem session_gauge_true:
  "cn_session_connected (me_counters (ag_metrics (rt_agent (fold session_step evs (runtime_new cfg pid)))))
   = (if in_session (rt_phase (fold session_step evs (runtime_new cfg pid))) then 1 else 0)"
proof -
  have "gauge (rt_agent (fold session_step evs rt)) = (if in_session (rt_phase (fold session_step evs rt)) then 1 else 0)"
    if "gauge (rt_agent rt) = (if in_session (rt_phase rt) then 1 else 0)" for rt :: "'a runtime"
    using that by (induction evs arbitrary: rt) (simp_all add: gauge_step)
  then show ?thesis
    by (simp add: gauge_def [symmetric]) (simp add: gauge_def runtime_new_def agent_new_def metrics_default_def counters_default_def)
qed

text \<open>C15: a changed link set reaches the controller: after a refresh of a serving session, one
  re-registration that is accepted leaves exactly the discovered links registered, and no further
  register pending.\<close>
theorem link_change_registered:
  assumes "rt_phase rt = Serving" "rs_ok resp" "rt' = fold session_step [Tick w, Notified, Answer (Some resp)] rt"
  shows "rt_registered rt' = link_keys (rt_agent rt') \<and> rt_phase rt' = Serving \<and> \<not> rt_changed rt'
    \<and> rt_agent rt' = rediscover w (rt_agent rt)"
  using assms
  by (auto simp: refresher_tick_def notified_def answered_def accepted_links_def Let_def)

text \<open>A node that knows its tunnel \<open>awg_0\<close> and finds it up, with a session that registered no link yet.\<close>

definition demo_cfg :: agent_cfg where
  "demo_cfg = (case from_uci (\<lambda>_. None :: nat option) (uci_minimal []) ''node-0'' of Inr c \<Rightarrow> c | Inl _ \<Rightarrow> undefined)"

definition demo_bus :: bus where
  "demo_bus obj m =
     (if obj = ''bird'' then Some (JObj [(''ospf'', JArr [JObj [(''protocol'', JStr ''mesh_v3''),
        (''interfaces'', JArr [JObj [(''interface'', JStr ''awg_0''), (''type'', JStr ''ptp''), (''cost'', JInt 40)]])]])])
      else if obj = ''network.interface.awg_0'' then Some (addr_status [(''fd00::40:0'', 127)]) else None)"

definition demo_world :: refresh_world where
  "demo_world = \<lparr>rw_ip_of = ip_table, rw_bus = demo_bus, rw_cost = (\<lambda>_ _ _. Inl ''no bus'')\<rparr>"

definition demo_runtime :: "nat runtime" where
  "demo_runtime = (let rt = runtime_new demo_cfg 7
     in rt\<lparr>rt_agent := (rt_agent rt)\<lparr>ag_links := [tun_link ''awg_0'' None]\<rparr>, rt_phase := Serving\<rparr>)"

lemma demo_links:
  "link_keys (rediscover demo_world (rt_agent demo_runtime)) = [new_link ''node-0'' ''node-1'' ''awg_0'']"
  by code_simp

theorem link_change_registered_witness:
  "rt_registered (fold session_step [Tick demo_world, Notified, Answer (Some \<lparr>rs_ok = True, rs_error = None\<rparr>)] demo_runtime)
   = [new_link ''node-0'' ''node-1'' ''awg_0'']"
proof -
  have "rt_phase demo_runtime = Serving" by (simp add: demo_runtime_def Let_def)
  from link_change_registered [OF this, of "\<lparr>rs_ok = True, rs_error = None\<rparr>", OF _ refl] demo_links
  show ?thesis by (simp del: fold_simps)
qed

end
