(* ===== verification/EndToEnd.thy ===== *)
theory EndToEnd
  imports AgentSession SessionLaws Scheduler
begin

text \<open>
  The controller's command on the agent and back: a task's command goes out on a stream
  (\<open>Transport\<close>), the agent executes it (\<open>Agent\<close>), and the controller ends the task with what came
  back (\<open>Session\<close>). The encoding of messages is an argument of which only losslessness is assumed;
  a stream that breaks at any point yields an error.
\<close>

type_synonym codec_q = "(work_cmd \<Rightarrow> byte list option) \<times> (byte list \<Rightarrow> work_cmd option)"
type_synonym codec_r = "(agent_reply \<Rightarrow> byte list option) \<times> (byte list \<Rightarrow> agent_reply option)"

definition lossless :: "('m \<Rightarrow> byte list option) \<times> (byte list \<Rightarrow> 'm option) \<Rightarrow> bool" where
  "lossless = (\<lambda>(enc, dec). \<forall>v b. enc v = Some b \<longrightarrow> dec b = Some v)"

text \<open>What the controller learns from the stream of a command: an answer, or that there was none.
  \<open>lost\<close>: the stream broke before the answer arrived.\<close>

definition stream_result ::
  "codec_q \<Rightarrow> codec_r \<Rightarrow> bool \<Rightarrow> exec_world \<Rightarrow> agent \<Rightarrow> work_cmd \<Rightarrow> string + agent_reply" where
  "stream_result cq cr lost w a cmd =
     (if lost then Inl ''stream reset''
      else case request (fst cq) (snd cr) (respond (snd cq) (fst cr) (\<lambda>c. fst (execute w c a))) cmd of
             Inl _ \<Rightarrow> Inl ''frame''
           | Inr reply \<Rightarrow> Inr reply)"

lemma stream_result_genuine:
  assumes "lossless cq" "lossless cr" "stream_result cq cr lost w a cmd = Inr reply"
  shows "fst (execute w cmd a) = Some reply"
  using assms request_answer_genuine [of "fst cq" "snd cq" "fst cr" "snd cr" "\<lambda>c. fst (execute w c a)" cmd reply]
  by (auto simp: stream_result_def lossless_def split_beta simp del: execute.simps split: if_split_asm sum.split_asm)


lemma applied_sent_end_task: "applied_sent (as_workers (end_task t st)) agent l = applied_sent (as_workers st) agent l"
  by (cases "wr_get (as_workers st) (tk_agent t)")
    (auto simp: end_task_def applied_sent_get end_cmd_def split: option.split)

lemma applied_sent_failed: "applied_sent (note_apply_failed agent l now r) agent l = None"
  by (cases "wr_get r agent") (simp_all add: applied_sent_get note_apply_failed_def)

lemma applied_sent_set: "applied_sent (set_applied_sent agent l cost r) agent l = Some c \<Longrightarrow> c = cost"
  by (cases "wr_get r agent") (simp_all add: applied_sent_get set_applied_sent_def)

text \<open>C13: a cost counts as applied on the controller only when BIRD accepted it: after the task of an
  apply ends, the registry holds a cost for the link only if it is the commanded one, the agent
  manages the interface, BIRD answered success, and the agent keeps that cost as the one to
  re-apply when BIRD drifts.\<close>
theorem cost_acknowledged_only_when_applied:
  assumes "lossless cq" "lossless cr" "tk_cmd t = ApplyCost i link cost tp" "tk_agent t = ac_agent (ag_cfg a)"
    "applied_sent (as_workers (finish_task t (stream_result cq cr lost w a (tk_cmd t)) now st)) (tk_agent t) link = Some c"
  shows "c = cost \<and> find_link (ag_links a) (lk_iface link) \<noteq> None \<and> fst (set_ospf_cost (ew_cost w)) = Inr ()
    \<and> hm_get (ag_desired (snd (execute w (tk_cmd t) a))) (lk_iface link) = Some cost"
proof (cases "stream_result cq cr lost w a (tk_cmd t)")
  case (Inl e)
  with assms(3,5) show ?thesis by (simp add: finish_task_def Let_def applied_sent_end_task applied_sent_failed)
next
  case (Inr reply)
  let ?note = "case find_link (ag_links a) (lk_iface link) of
      None \<Rightarrow> Some (unknown_interface (lk_iface link))
    | Some _ \<Rightarrow> (case fst (set_ospf_cost (ew_cost w)) of Inl e \<Rightarrow> Some e | Inr _ \<Rightarrow> None)"
  have r: "reply = RApplied (tk_agent t) i link cost ?note tp"
    using stream_result_genuine [OF assms(1,2) Inr] assms(3,4)
    by (auto simp: execute_apply_def Let_def split: option.split_asm sum.split_asm)
  with Inr assms(5) have n: "?note = None"
    by (cases ?note) (simp_all add: finish_task_def Let_def applied_sent_end_task applied_sent_failed)
  then have ok: "find_link (ag_links a) (lk_iface link) \<noteq> None" "fst (set_ospf_cost (ew_cost w)) = Inr ()"
    by (auto split: option.split_asm sum.split_asm)
  moreover have "hm_get (ag_desired (snd (execute w (tk_cmd t) a))) (lk_iface link) = Some cost"
    using n by (simp add: assms(3) execute_apply_def Let_def)
  moreover have "c = cost"
    using assms(5) Inr r n
    by (auto simp: finish_task_def Let_def applied_sent_end_task dest: applied_sent_set)
  ultimately show ?thesis by simp
qed

section \<open>Witnesses\<close>

text \<open>The node of \<open>demo_runtime\<close> whose iperf3 legs fail, and a BIRD that is busy once and then applies.\<close>

definition demo_exec :: exec_world where
  "demo_exec = \<lparr>ew_test = \<lparr>tw_lock_free = True, tw_util = Some (Fin 1), tw_begin = 10, tw_end = 20,
       tw_tcp = Inl ''refused'', tw_udp = Inl ''refused''\<rparr>,
     ew_unix = 0, ew_bytes = None, ew_now = 0,
     ew_cost = (\<lambda>k. Inr (JObj [(''code'', JInt (if k = 1 then 5 else 0))])),
     ew_route = (\<lambda>_. Inl ''none''), ew_route_of = (\<lambda>_. None)\<rparr>"

definition demo_agent :: agent where
  "demo_agent = rt_agent demo_runtime"

definition demo_link :: link_key where
  "demo_link = new_link ''node-0'' ''node-1'' ''awg_0''"

definition test_cmd :: work_cmd where
  "test_cmd = Probe ''7'' Throughput (Some ''tok'') demo_link None"

definition cost_cmd :: work_cmd where
  "cost_cmd = ApplyCost ''8'' demo_link 250 None"

text \<open>A codec of two messages.\<close>

definition pair_codec :: "'m \<Rightarrow> 'm \<Rightarrow> ('m \<Rightarrow> byte list option) \<times> (byte list \<Rightarrow> 'm option)" where
  "pair_codec x y = (\<lambda>m. if m = x then Some [1] else if m = y then Some [2] else None,
     \<lambda>b. if b = [1] then Some x else if b = [2] then Some y else None)"

lemma pair_codec_lossless: "lossless (pair_codec x y)"
  by (auto simp: lossless_def pair_codec_def split: if_splits)

definition demo_q :: codec_q where
  "demo_q = pair_codec test_cmd cost_cmd"

definition demo_r :: codec_r where
  "demo_r = pair_codec (the (fst (execute demo_exec test_cmd demo_agent))) (the (fst (execute demo_exec cost_cmd demo_agent)))"

definition demo_state :: app_state where
  "demo_state = (let st = snd (register 2 None \<lparr>rq_agent = ''node-0'', rq_router_id = None, rq_links = [demo_link],
       rq_peer_rids = [], rq_loopback = None\<rparr> 100 (\<lambda>_. ''c'') (app_state_new config_default))
     in st\<lparr>as_fence := snd (acquire ''node-0'' demo_link 120 100 ''tok'' (as_fence st))\<rparr>)"

definition demo_task :: "work_cmd \<Rightarrow> task" where
  "demo_task cmd = \<lparr>tk_agent = ''node-0'', tk_session = 2, tk_cmd = cmd\<rparr>"

lemma demo_lease: "hm_get (as_fence demo_state) (link_id demo_link) = Some (new_lease ''node-0'' demo_link 120 100 ''tok'')"
  by code_simp


lemma demo_cost_applied:
  "applied_sent (as_workers (finish_task (demo_task cost_cmd)
     (stream_result demo_q demo_r False demo_exec demo_agent cost_cmd) 130 demo_state)) ''node-0'' demo_link = Some 250"
  by code_simp

theorem cost_acknowledged_only_when_applied_witness:
  "hm_get (ag_desired (snd (execute demo_exec cost_cmd demo_agent))) ''awg_0'' = Some 250"
proof -
  have "lossless demo_q" "lossless demo_r" by (simp_all add: demo_q_def demo_r_def pair_codec_lossless)
  moreover have "tk_cmd (demo_task cost_cmd) = ApplyCost ''8'' demo_link 250 None" by (simp add: demo_task_def cost_cmd_def)
  moreover have "tk_agent (demo_task cost_cmd) = ac_agent (ag_cfg demo_agent)" by code_simp
  ultimately show ?thesis
    using cost_acknowledged_only_when_applied [of demo_q demo_r "demo_task cost_cmd" "''8''" demo_link 250 None demo_agent False
        demo_exec 130 demo_state 250] demo_cost_applied
    by (simp add: demo_task_def demo_link_def new_link_def cost_cmd_def del: execute.simps)
qed

end
