(* ===== verification/Assets.thy ===== *)
theory Assets
  imports Api Json
begin

text \<open>
  The dashboard files of the admin listener (\<open>crates/controller/src/assets.rs\<close>, \<open>frontend\<close> of
  \<open>api.rs\<close>): a request path is joined to the root directory and refused when it could leave it.
  Paths are Unix paths; the file system is a function from a path to the file's bytes. Symbolic
  links below the root are the administrator's business and not modelled.
\<close>

section \<open>Paths\<close>

text \<open>\<open>Path::components\<close>: empty parts and inner dots vanish, a leading dot stays.\<close>

datatype component = Root_dir | Cur_dir | Parent_dir | Normal string

definition part_of :: "string \<Rightarrow> component option" where
  "part_of s = (if s = [] \<or> s = ''.'' then None else if s = ''..'' then Some Parent_dir else Some (Normal s))"

definition lead_of :: "string \<Rightarrow> component list" where
  "lead_of p = (if strip_prefix ''/'' p \<noteq> None then [Root_dir]
     else if hd (split_char CHR ''/'' p) = ''.'' then [Cur_dir] else [])"

definition components :: "string \<Rightarrow> component list" where
  "components p = lead_of p @ List.map_filter part_of (split_char CHR ''/'' p)"

text \<open>\<open>Path::join\<close>.\<close>

definition join_path :: "string \<Rightarrow> string \<Rightarrow> string" where
  "join_path dir rel =
     (if strip_prefix ''/'' rel \<noteq> None \<or> dir = [] then rel
      else if last dir = CHR ''/'' then dir @ rel else dir @ ''/'' @ rel)"

definition request_path :: "string \<Rightarrow> string" where
  "request_path rel = (let rel = dropWhile (\<lambda>c. c = CHR ''/'') rel
     in if rel = [] \<or> rel = ''.'' then ''index.html'' else rel)"

definition resolve_asset :: "string \<Rightarrow> string \<Rightarrow> string option" where
  "resolve_asset root_dir rel =
     (let candidate = join_path root_dir (request_path rel)
      in if Parent_dir \<in> set (components candidate) then None else Some candidate)"

definition mime :: "string \<Rightarrow> string" where
  "mime path =
     (if strip_suffix ''.js'' path \<noteq> None then ''application/javascript; charset=utf-8''
      else if strip_suffix ''.css'' path \<noteq> None then ''text/css; charset=utf-8''
      else if strip_suffix ''.svg'' path \<noteq> None then ''image/svg+xml''
      else if strip_suffix ''.json'' path \<noteq> None then ''application/json''
      else ''text/html; charset=utf-8'')"

definition file_name :: "string \<Rightarrow> string option" where
  "file_name path = (case components path of
     [] \<Rightarrow> None
   | cs \<Rightarrow> (case last cs of Normal s \<Rightarrow> Some s | _ \<Rightarrow> None))"

definition asset :: "(string \<Rightarrow> 'b option) \<Rightarrow> string \<Rightarrow> string \<Rightarrow> (string \<times> 'b) option" where
  "asset read root_dir rel =
     (case resolve_asset root_dir rel of None \<Rightarrow> None | Some path \<Rightarrow>
      case read path of None \<Rightarrow> None | Some body \<Rightarrow>
      case file_name path of None \<Rightarrow> None | Some name \<Rightarrow> Some (mime name, body))"

definition frontend :: "(string \<Rightarrow> 'b option) \<Rightarrow> string \<Rightarrow> string option \<Rightarrow> (string \<times> 'b) response" where
  "frontend read root_dir path =
     (case asset read root_dir (case path of Some p \<Rightarrow> p | None \<Rightarrow> []) of
        Some r \<Rightarrow> Http_ok r
      | None \<Rightarrow> Not_found ''not found'')"

section \<open>Confinement\<close>

lemma split_where_nonempty [simp]: "split_where P s \<noteq> []"
  by (induction s) (auto split: list.split)

lemma split_char_sep: "split_char c (a @ c # b) = split_char c a @ split_char c b"
  unfolding split_char_def
proof (induction a)
  case (Cons x a)
  then show ?case by (cases "split_where (\<lambda>x. x = c) a") auto
qed simp

lemma no_slash_start: "strip_prefix ''/'' (request_path rel) = None"
proof -
  have "strip_prefix ''/'' (dropWhile (\<lambda>c. c = CHR ''/'') rel) = None"
    by (induction rel) auto
  then show ?thesis by (simp add: request_path_def Let_def)
qed

lemma strip_slash: "a \<noteq> [] \<Longrightarrow> (strip_prefix ''/'' (a @ b) \<noteq> None) = (hd a = CHR ''/'')"
  by (cases a) (auto simp: strip_prefix_iff)

lemma lead_of_sep: "a \<noteq> [] \<Longrightarrow> lead_of (a @ CHR ''/'' # b) = lead_of a"
  using strip_slash [of a "CHR ''/'' # b"] strip_slash [of a "[]"]
  by (simp add: lead_of_def split_char_sep hd_append, simp add: split_char_def)

text \<open>The directory a path starts from: the root directory, with or without its final slash.\<close>

lemma components_below:
  assumes "dir \<noteq> []" "strip_prefix ''/'' rel = None"
  shows "components (join_path dir rel) = components dir @ List.map_filter part_of (split_char CHR ''/'' rel)"
proof -
  have split: "dir @ CHR ''/'' # rel = (dir @ ''/'') @ rel" by simp
  have lead: "lead_of (a @ CHR ''/'' # b) = lead_of (a @ ''/'')" for a b :: string
    using lead_of_sep [of a b] lead_of_sep [of a "[]"] by (cases a) (simp_all add: lead_of_def)
  show ?thesis
  proof (cases "last dir = CHR ''/''")
    case True
    then obtain a where a: "dir = a @ ''/''" using assms(1) by (metis append_butlast_last_id)
    have "components (join_path dir rel) = components (a @ CHR ''/'' # rel)"
      using a assms(2) by (simp add: join_path_def)
    then show ?thesis
      unfolding components_def lead [of a rel]
      by (simp add: a split_char_sep List.map_filter_def) (simp add: split_char_def part_of_def)
  next
    case False
    have "lead_of (dir @ CHR ''/'' # rel) = lead_of dir" by (rule lead_of_sep [OF assms(1)])
    with False assms show ?thesis
      by (simp add: join_path_def components_def split_char_sep List.map_filter_def)
  qed
qed

lemma part_of_cases: "part_of s \<in> {None, Some Parent_dir} \<union> range (Some \<circ> Normal)"
  by (auto simp: part_of_def)

text \<open>C38: the file a request names lies below the root directory: its path is the root's path followed by
  ordinary names only, whatever the request contains; a request that could climb is not served.\<close>
theorem assets_confined:
  assumes "resolve_asset root_dir rel = Some path" "root_dir \<noteq> []"
  shows "\<exists>names. components path = components root_dir @ map Normal names"
proof -
  let ?rel = "request_path rel"
  let ?cs = "List.map_filter part_of (split_char CHR ''/'' ?rel)"
  have path: "path = join_path root_dir ?rel" "Parent_dir \<notin> set (components path)"
    using assms(1) by (auto simp: resolve_asset_def Let_def split: if_split_asm)
  then have c: "components path = components root_dir @ ?cs"
    using components_below [OF assms(2) no_slash_start] by simp
  have "\<exists>names. ?cs = map Normal names"
  proof (rule ex_map_conv [THEN iffD2], intro ballI)
    fix x assume x: "x \<in> set ?cs"
    then obtain s where "part_of s = Some x" by (auto simp: List.map_filter_def)
    moreover have "x \<noteq> Parent_dir" using path(2) x by (auto simp: c)
    ultimately show "\<exists>y. x = Normal y" using part_of_cases [of s] by auto
  qed
  with c show ?thesis by auto
qed

theorem assets_confined_witness:
  "resolve_asset ''/srv/www'' ''//assets/./x.js'' = Some ''/srv/www/assets/./x.js''
   \<and> resolve_asset ''/srv/www'' ''assets/../../ca.pem'' = None
   \<and> (\<exists>names. components ''/srv/www/assets/./x.js'' = components ''/srv/www'' @ map Normal names)"
proof -
  have r: "resolve_asset ''/srv/www'' ''//assets/./x.js'' = Some ''/srv/www/assets/./x.js''" by code_simp
  moreover have "resolve_asset ''/srv/www'' ''assets/../../ca.pem'' = None" by code_simp
  ultimately show ?thesis using assets_confined [OF r] by simp
qed

end
