(* ===== verification/Telemetry.thy ===== *)
theory Telemetry
  imports AgentSession
begin

text \<open>
  Telemetry settings (\<open>crates/mielofon-otel\<close>): which signals are exported, to which endpoint and at
  which level, and how the agent derives them from its configuration (\<open>init_telemetry\<close> of the
  agent's \<open>main.rs\<close>). The exporters and the subscriber are library objects; the plan they are built
  from is what is modelled.
\<close>

section \<open>Settings\<close>

record signal_cfg =
  sg_endpoint :: "string option"
  sg_enabled :: "bool option"
  sg_level :: "string option"

definition signal_default :: signal_cfg where
  "signal_default = \<lparr>sg_endpoint = None, sg_enabled = None, sg_level = None\<rparr>"

definition or_default :: "'a \<Rightarrow> 'a option \<Rightarrow> 'a" where
  "or_default d x = (case x of Some v \<Rightarrow> v | None \<Rightarrow> d)"

definition effective_endpoint :: "string \<Rightarrow> signal_cfg \<Rightarrow> string" where
  "effective_endpoint global s = or_default global (sg_endpoint s)"

definition signal_enabled :: "bool \<Rightarrow> signal_cfg \<Rightarrow> bool" where
  "signal_enabled global s = or_default global (sg_enabled s)"

definition effective_level :: "string \<Rightarrow> signal_cfg \<Rightarrow> string" where
  "effective_level fallback s = or_default fallback (sg_level s)"

record otel_cfg =
  ot_enabled :: "bool option"
  ot_endpoint :: string
  ot_service_name :: "string option"
  ot_traces :: signal_cfg
  ot_metrics :: signal_cfg
  ot_logs :: signal_cfg

definition otel_default :: otel_cfg where
  "otel_default = \<lparr>ot_enabled = None, ot_endpoint = [], ot_service_name = None, ot_traces = signal_default,
     ot_metrics = signal_default, ot_logs = signal_default\<rparr>"

definition otel_enabled :: "otel_cfg \<Rightarrow> bool" where
  "otel_enabled c \<longleftrightarrow> or_default True (ot_enabled c) \<and> ot_endpoint c \<noteq> []"

definition starts_with :: "string \<Rightarrow> string \<Rightarrow> bool" where
  "starts_with p s \<longleftrightarrow> strip_prefix p s \<noteq> None"

text \<open>The only protocol is HTTP; any other scheme is an error carrying the endpoint.\<close>

definition parse_otlp :: "string \<Rightarrow> string + unit" where
  "parse_otlp raw =
     (if starts_with ''grpc://'' raw \<or> starts_with ''grpcs://'' raw then Inl raw
      else if starts_with ''http://'' raw \<or> starts_with ''https://'' raw then Inr () else Inl raw)"

fun after_scheme :: "string \<Rightarrow> string option" where
  "after_scheme [] = None"
| "after_scheme (c # s) = (case strip_prefix ''://'' (c # s) of Some r \<Rightarrow> Some r | None \<Rightarrow> after_scheme s)"

definition trim_slashes :: "string \<Rightarrow> string" where
  "trim_slashes s = rev (dropWhile (\<lambda>c. c = CHR ''/'') (rev s))"

definition signal_endpoint :: "string \<Rightarrow> string \<Rightarrow> string" where
  "signal_endpoint endpoint path =
     (let has_path = (case after_scheme endpoint of Some rest \<Rightarrow> CHR ''/'' \<in> set rest | None \<Rightarrow> True)
      in if has_path then trim_slashes endpoint else trim_slashes endpoint @ path)"

definition sig_endpoint :: "signal_cfg \<Rightarrow> string \<Rightarrow> string \<Rightarrow> string + string option" where
  "sig_endpoint s global path =
     (let ep = effective_endpoint global s
      in if ep = [] then Inr None
         else case parse_otlp ep of Inl e \<Rightarrow> Inl e | Inr _ \<Rightarrow> Inr (Some (signal_endpoint ep path)))"

datatype level = LTrace | LDebug | LInfo | LWarn | LError

definition parse_level :: "string \<Rightarrow> level" where
  "parse_level s = (let l = to_ascii_lowercase s
     in if l = ''trace'' then LTrace else if l = ''debug'' then LDebug else if l = ''warn'' then LWarn
        else if l = ''error'' then LError else LInfo)"

datatype console_format = Fmt_json | Fmt_logfmt | Fmt_syslog

definition parse_format :: "string \<Rightarrow> string + console_format" where
  "parse_format s = (let f = to_ascii_lowercase (trim s)
     in if f = ''json'' then Inr Fmt_json else if f = ''logfmt'' then Inr Fmt_logfmt
        else if f = ''syslog'' then Inr Fmt_syslog else Inl f)"

section \<open>The plan\<close>

text \<open>What \<open>install\<close> builds: the exporters (with their endpoints), the service name, and the default
  level of the console and of the two bridged signals (the environment can override it).\<close>

record plan =
  pn_traces :: "string option"
  pn_metrics :: "string option"
  pn_logs :: "string option"
  pn_service :: string
  pn_console_level :: level
  pn_logs_level :: level
  pn_traces_level :: level

definition exporter :: "bool \<Rightarrow> signal_cfg \<Rightarrow> string option \<Rightarrow> string option" where
  "exporter global_on s ep = (if global_on \<and> signal_enabled True s then ep else None)"

definition install :: "otel_cfg \<Rightarrow> string \<Rightarrow> string \<Rightarrow> string + plan" where
  "install cfg log_level service_name =
     (let on = or_default True (ot_enabled cfg)
      in case sig_endpoint (ot_traces cfg) (ot_endpoint cfg) ''/v1/traces'' of Inl e \<Rightarrow> Inl e | Inr trace_ep \<Rightarrow>
         case sig_endpoint (ot_metrics cfg) (ot_endpoint cfg) ''/v1/metrics'' of Inl e \<Rightarrow> Inl e | Inr metric_ep \<Rightarrow>
         case sig_endpoint (ot_logs cfg) (ot_endpoint cfg) ''/v1/logs'' of Inl e \<Rightarrow> Inl e | Inr log_ep \<Rightarrow>
         Inr \<lparr>pn_traces = exporter on (ot_traces cfg) trace_ep, pn_metrics = exporter on (ot_metrics cfg) metric_ep,
           pn_logs = exporter on (ot_logs cfg) log_ep, pn_service = or_default service_name (ot_service_name cfg),
           pn_console_level = parse_level log_level, pn_logs_level = parse_level (effective_level log_level (ot_logs cfg)),
           pn_traces_level = parse_level (effective_level log_level (ot_traces cfg))\<rparr>)"

text \<open>The agent's settings; \<open>rust_log\<close> is the environment variable.\<close>

definition agent_otel :: "agent_cfg \<Rightarrow> otel_cfg" where
  "agent_otel cfg = (let signal = (\<lambda>on. signal_default\<lparr>sg_enabled := Some on\<rparr>)
     in \<lparr>ot_enabled = Some (ac_otel_endpoint cfg \<noteq> []), ot_endpoint = ac_otel_endpoint cfg, ot_service_name = None,
         ot_traces = signal (ac_otel_traces cfg), ot_metrics = signal False, ot_logs = signal (ac_otel_logs cfg)\<rparr>)"

definition init_telemetry :: "string option \<Rightarrow> agent_cfg \<Rightarrow> string + plan" where
  "init_telemetry rust_log cfg =
     install (agent_otel cfg) (or_default (log_filter (ac_log_level cfg)) rust_log) ''mielofon-agent''"

section \<open>Lemmas\<close>

lemma after_scheme_append:
  "CHR '':'' \<notin> set scheme \<Longrightarrow> after_scheme (scheme @ ''://'' @ host) = Some host"
  by (induction scheme) auto

lemma trim_slashes_id: "host \<noteq> [] \<Longrightarrow> CHR ''/'' \<notin> set host \<Longrightarrow> trim_slashes (s @ host) = s @ host"
  by (cases host rule: rev_cases) (auto simp: trim_slashes_def)

text \<open>A host without a path gets the path of the signal.\<close>
lemma signal_path_appended:
  assumes "CHR '':'' \<notin> set scheme" "host \<noteq> []" "CHR ''/'' \<notin> set host"
  shows "signal_endpoint (scheme @ ''://'' @ host) path = scheme @ ''://'' @ host @ path"
  using assms(3) trim_slashes_id [OF assms(2,3), of "scheme @ ''://''"] after_scheme_append [OF assms(1), of host]
  by (simp add: signal_endpoint_def)

text \<open>A trailing slash counts as a path: the signal's path is not appended, so the exporter posts to the
  root of the collector.\<close>
lemma trailing_slash_loses_path:
  "signal_endpoint ''http://collector:4318/'' ''/v1/traces'' = ''http://collector:4318''"
  by code_simp

text \<open>The agent never exports metrics, and exports nothing without an endpoint.\<close>
lemma agent_exports:
  assumes "init_telemetry rust_log cfg = Inr p"
  shows "pn_metrics p = None" "ac_otel_endpoint cfg = [] \<Longrightarrow> pn_traces p = None \<and> pn_logs p = None"
  using assms
  by (auto simp: init_telemetry_def install_def agent_otel_def exporter_def signal_enabled_def or_default_def Let_def
      split: sum.split_asm)

text \<open>The level of the UCI configuration reaches the subscriber as a filter directive, which is read as a
  level: \<open>debug\<close> is not one, so it means \<open>info\<close>.\<close>
lemma agent_debug_is_info:
  "init_telemetry None (cfg\<lparr>ac_log_level := ''debug''\<rparr>) = Inr p \<Longrightarrow> pn_console_level p = LInfo \<and> pn_logs_level p = LInfo"
proof -
  have "parse_level ''info,mielofon_agent=debug,mielofon_transport=debug'' = LInfo" by code_simp
  then show "init_telemetry None (cfg\<lparr>ac_log_level := ''debug''\<rparr>) = Inr p
      \<Longrightarrow> pn_console_level p = LInfo \<and> pn_logs_level p = LInfo"
    by (auto simp: init_telemetry_def install_def agent_otel_def or_default_def effective_level_def signal_default_def
        log_filter_def Let_def split: sum.split_asm)
qed

lemma log_filter_levels: "parse_level (log_filter s) \<in> {LInfo, LWarn, LError}"
proof -
  have "parse_level ''info,mielofon_agent=debug,mielofon_transport=debug'' = LInfo"
    "parse_level ''info'' = LInfo" "parse_level ''warn'' = LWarn" "parse_level ''error'' = LError" by code_simp+
  then show ?thesis by (simp add: log_filter_def)
qed

end
