(* ===== verification/Daemon.thy ===== *)
theory Daemon
  imports Telemetry Gossip Assets
begin

text \<open>
  The controller daemon around its components: the sections of the configuration no decision depends
  on (\<open>config.rs\<close>), the order of the start and of the stop (\<open>run_daemon\<close>, \<open>listener_exit\<close> of
  \<open>main.rs\<close>), and the link argument of the \<open>tool hello\<close> command (\<open>tool.rs\<close>). The TOML parser, the
  TLS files, sockets and signals are arguments.
\<close>

section \<open>The whole configuration\<close>

text \<open>Addresses are the parsed values; their text is up to the library.\<close>

record 'ip listeners =
  ln_cluster_addr :: 'ip
  ln_cluster_port :: nat
  ln_client_addr :: 'ip
  ln_client_port :: nat
  ln_admin_addr :: 'ip
  ln_admin_port :: nat

definition listeners_default :: "'ip \<Rightarrow> 'ip \<Rightarrow> 'ip listeners" where
  "listeners_default unspecified loopback_ip = \<lparr>ln_cluster_addr = unspecified, ln_cluster_port = 9551,
     ln_client_addr = unspecified, ln_client_port = 9552, ln_admin_addr = loopback_ip, ln_admin_port = 9553\<rparr>"

definition cluster_socket :: "'ip listeners \<Rightarrow> 'ip \<times> nat" where
  "cluster_socket l = (ln_cluster_addr l, ln_cluster_port l)"

definition client_socket :: "'ip listeners \<Rightarrow> 'ip \<times> nat" where
  "client_socket l = (ln_client_addr l, ln_client_port l)"

definition admin_socket :: "'ip listeners \<Rightarrow> 'ip \<times> nat" where
  "admin_socket l = (ln_admin_addr l, ln_admin_port l)"

record tls_cfg =
  tl_ca :: string
  tl_cert :: string
  tl_key :: string

definition tls_cfg_default :: tls_cfg where
  "tls_cfg_default = \<lparr>tl_ca = ''/etc/mielofon/ca.pem'', tl_cert = ''/etc/mielofon/node.pem'',
     tl_key = ''/etc/mielofon/node.key''\<rparr>"

record log_cfg =
  lg_level :: string
  lg_format :: string

definition log_cfg_default :: log_cfg where
  "log_cfg_default = \<lparr>lg_level = ''info'', lg_format = ''logfmt''\<rparr>"

record 'ip daemon_config = config +
  dc_listeners :: "'ip listeners"
  dc_tls :: tls_cfg
  dc_log :: log_cfg
  dc_otel :: otel_cfg
  dc_frontend_root :: string

definition daemon_config_default :: "'ip \<Rightarrow> 'ip \<Rightarrow> 'ip daemon_config" where
  "daemon_config_default unspecified loopback_ip = config.extend config_default
     (daemon_config.fields (listeners_default unspecified loopback_ip) tls_cfg_default log_cfg_default otel_default
        ''/usr/share/mielofon/dashboard'')"

section \<open>Start and stop\<close>

text \<open>What the outside answers during a start; an \<open>Inl\<close> is the text of the error. \<open>su_history\<close> loads the
  database into the empty store.\<close>

record 'ip startup =
  su_subscriber :: "plan \<Rightarrow> string + unit"
  su_server_tls :: "tls_cfg \<Rightarrow> string + unit"
  su_client_tls :: "tls_cfg \<Rightarrow> string + unit"
  su_fabric :: "string + unit"
  su_bind :: "string \<Rightarrow> 'ip \<times> nat \<Rightarrow> string + unit"
  su_admin_server :: "string + unit"
  su_history :: "tsdb \<Rightarrow> tsdb"

fun all_ok :: "(string + unit) list \<Rightarrow> string + unit" where
  "all_ok [] = Inr ()"
| "all_ok (Inl e # _) = Inl e"
| "all_ok (Inr () # rs) = all_ok rs"

definition start_steps :: "'ip startup \<Rightarrow> 'ip daemon_config \<Rightarrow> (string + unit) list" where
  "start_steps su cfg =
     [map_sum id (\<lambda>_. ()) (parse_format (lg_format (dc_log cfg))),
      (case install (dc_otel cfg) (lg_level (dc_log cfg)) ''mielofon-controller'' of Inl e \<Rightarrow> Inl e | Inr p \<Rightarrow> su_subscriber su p),
      su_server_tls su (dc_tls cfg), su_client_tls su (dc_tls cfg), su_fabric su,
      su_bind su ''admin'' (admin_socket (dc_listeners cfg)),
      su_bind su ''cluster'' (cluster_socket (dc_listeners cfg)),
      su_bind su ''client'' (client_socket (dc_listeners cfg)),
      su_admin_server su]"

text \<open>The state is built before the sockets are bound and becomes ready only after everything started.\<close>

definition run_daemon :: "'ip startup \<Rightarrow> 'ip daemon_config \<Rightarrow> string + app_state" where
  "run_daemon su cfg =
     (let st = app_state_new (config.truncate cfg);
          st = set_ready False (st\<lparr>as_tsdb := su_history su (as_tsdb st)\<rparr>)
      in case all_ok (start_steps su cfg) of
           Inl e \<Rightarrow> Inl e
         | Inr _ \<Rightarrow> Inr (set_ready True st))"

text \<open>Why the daemon stops: a listener's task ended (returned, failed or panicked) or a signal came.\<close>

datatype task_end = Returned | Failed string | Aborted string

fun listener_exit :: "string \<Rightarrow> task_end \<Rightarrow> string" where
  "listener_exit name Returned = name @ '' listener stopped unexpectedly''"
| "listener_exit name (Failed e) = name @ '' listener: '' @ e"
| "listener_exit name (Aborted e) = name @ '' listener task: '' @ e"

datatype stop_reason = Signal | Listener_ended string task_end

text \<open>The result, the rows handed to the last transaction, and the state left.\<close>

definition stop_daemon ::
  "bool \<Rightarrow> stop_reason \<Rightarrow> app_state
    \<Rightarrow> (string + unit) \<times> ((link_key \<times> raw_sample) list \<times> ((link_key \<times> nat) \<times> bucket) list) option \<times> app_state" where
  "stop_daemon begin_ok reason st =
     (let (rows, t) = flush_drain begin_ok (as_tsdb st)
      in (case reason of Signal \<Rightarrow> Inr () | Listener_ended name e \<Rightarrow> Inl (listener_exit name e),
          rows, (set_ready False st)\<lparr>as_tsdb := t\<rparr>))"

section \<open>The link argument of the tool\<close>

definition parse_link :: "string \<Rightarrow> string + link_key" where
  "parse_link s =
     (case map trim (split_char CHR '','' s) of
        [f, t, i] \<Rightarrow> if f \<noteq> [] \<and> t \<noteq> [] \<and> i \<noteq> [] then Inr (new_link f t i)
          else Inl (''link `'' @ s @ ''`: want from,to,interface'')
      | _ \<Rightarrow> Inl (''link `'' @ s @ ''`: want from,to,interface''))"

section \<open>Lemmas\<close>

lemma all_ok_iff: "all_ok rs = Inr () \<longleftrightarrow> list_all (\<lambda>r. r = Inr ()) rs"
  by (induction rs rule: all_ok.induct) auto

text \<open>A daemon that serves has bound its three listeners and reports itself ready; a clash on any socket,
  a bad log format or a telemetry endpoint of another scheme fails the start instead.\<close>
lemma ready_means_listening:
  "case run_daemon su cfg of
     Inr st \<Rightarrow> readyz st = Http_ok (''ready'' @ [CHR 0x0A])
       \<and> su_bind su ''admin'' (admin_socket (dc_listeners cfg)) = Inr ()
       \<and> su_bind su ''cluster'' (cluster_socket (dc_listeners cfg)) = Inr ()
       \<and> su_bind su ''client'' (client_socket (dc_listeners cfg)) = Inr ()
   | Inl e \<Rightarrow> Inl e \<in> set (start_steps su cfg)"
proof (cases "all_ok (start_steps su cfg)")
  case (Inl e)
  have "all_ok rs = Inl e \<Longrightarrow> Inl e \<in> set rs" for rs
    by (induction rs rule: all_ok.induct) auto
  with Inl show ?thesis by (simp add: run_daemon_def Let_def)
next
  case (Inr u)
  then have "list_all (\<lambda>r. r = Inr ()) (start_steps su cfg)" using all_ok_iff [of "start_steps su cfg"] by simp
  with Inr show ?thesis
    by (simp add: run_daemon_def Let_def start_steps_def readyz_def set_ready_def)
qed

text \<open>A stop takes the daemon out of service before it answers, and hands everything still queued to the
  last transaction when the database can be written; whatever is stored in memory stays as it was.\<close>
lemma stop_persists_queue:
  assumes "td_open (as_tsdb st)"
  shows "case stop_daemon True reason st of
      (res, rows, st') \<Rightarrow> rows = Some (td_pending (as_tsdb st), td_dirty (as_tsdb st)) \<and> \<not> as_ready st'
        \<and> td_pending (as_tsdb st') = [] \<and> td_dirty (as_tsdb st') = []
        \<and> td_by_link (as_tsdb st') = td_by_link (as_tsdb st) \<and> (res = Inr ()) = (reason = Signal)"
  using assms by (auto simp: stop_daemon_def flush_drain_def set_ready_def Let_def split: stop_reason.split)

end
