(* ===== verification/Subprocess.thy ===== *)
theory Subprocess
  imports AgentMark Bird Throughput
begin

text \<open>
  The programs the agent runs: \<open>ubus\<close> (\<open>crates/agent/src/bus.rs\<close>), \<open>nft\<close> (\<open>NftCli\<close> of \<open>nft.rs\<close>),
  \<open>iperf3\<close> (\<open>iperf_run\<close> of \<open>throughput.rs\<close>), and the byte counters read from \<open>/sys\<close>. How a process ended
  is an argument, with its output as text; so are the JSON reader and printer. An error is the text of the
  error chain as it is logged, causes after a colon; the cause a number parser names is left out.
\<close>

section \<open>Processes\<close>

text \<open>A child process within its deadline: it overran, could not be run, or exited (successfully or not)
  with the text of its status, its standard output and its standard error.\<close>

datatype proc_end = Overran | Not_run string | Exited bool string string string

definition chain :: "string \<Rightarrow> string \<Rightarrow> string" where
  "chain what cause = what @ '': '' @ cause"

lemma bind_sum_simps [simp]: "bind_sum (Inl e) f = Inl e" "bind_sum (Inr v) f = f v"
  by (simp_all add: bind_sum_def)

lemma bind_sum_Inr_iff: "bind_sum r f = Inr y \<longleftrightarrow> (\<exists>x. r = Inr x \<and> f x = Inr y)"
  by (cases r) auto

definition context_of :: "string \<Rightarrow> string + 'a \<Rightarrow> string + 'a" where
  "context_of what r = map_sum (chain what) id r"

lemma context_of_simps [simp]: "context_of what (Inl e) = Inl (chain what e)" "context_of what (Inr v) = Inr v"
  by (simp_all add: context_of_def)

lemma context_of_Inr_iff [simp]: "context_of what r = Inr v \<longleftrightarrow> r = Inr v"
  by (cases r) auto

section \<open>The ubus command\<close>

definition ubus_timeout :: nat where
  "ubus_timeout = secs 30"

definition ubus_secs :: "nat \<Rightarrow> nat" where
  "ubus_secs timeout = max (timeout div 1000000000) 1"

definition ubus_args :: "(json \<Rightarrow> string) \<Rightarrow> nat \<Rightarrow> string \<Rightarrow> string \<Rightarrow> json \<Rightarrow> string list" where
  "ubus_args show_json timeout obj meth args =
     [''-S'', ''-t'', show_nat (ubus_secs timeout), ''call'', obj, meth, show_json args]"

definition ubus_what :: "string \<Rightarrow> string \<Rightarrow> string" where
  "ubus_what obj meth = ''ubus call '' @ obj @ '' '' @ meth"

definition ubus_reply :: "(string \<Rightarrow> string + json) \<Rightarrow> string \<Rightarrow> string \<Rightarrow> proc_end \<Rightarrow> string + json" where
  "ubus_reply parse obj meth p =
     (case p of
        Overran \<Rightarrow> Inl (ubus_what obj meth @ '': timed out'')
      | Not_run e \<Rightarrow> Inl (chain (ubus_what obj meth @ '': spawn'') e)
      | Exited success status out err \<Rightarrow>
          if \<not> success then Inl (ubus_what obj meth @ '': '' @ status @ '' '' @ trim err)
          else if trim out = [] then Inr JNull
          else context_of (ubus_what obj meth @ '': reply'') (parse out))"

text \<open>\<open>exec\<close> runs a command line within a deadline.\<close>

type_synonym runner = "nat \<Rightarrow> string list \<Rightarrow> proc_end"

definition ubus_call ::
  "(json \<Rightarrow> string) \<Rightarrow> (string \<Rightarrow> string + json) \<Rightarrow> runner \<Rightarrow> nat \<Rightarrow> string \<Rightarrow> string \<Rightarrow> json \<Rightarrow> string + json" where
  "ubus_call show_json parse exec timeout obj meth args =
     ubus_reply parse obj meth (exec (timeout + secs 5) (''ubus'' # ubus_args show_json timeout obj meth args))"

text \<open>The bus as discovery sees it: calls without arguments, errors logged and dropped.\<close>

definition cli_bus :: "(json \<Rightarrow> string) \<Rightarrow> (string \<Rightarrow> string + json) \<Rightarrow> runner \<Rightarrow> bus" where
  "cli_bus show_json parse exec obj meth =
     (case ubus_call show_json parse exec ubus_timeout obj meth (JObj []) of Inr v \<Rightarrow> Some v | Inl _ \<Rightarrow> None)"

definition cost_args :: "string \<Rightarrow> nat \<Rightarrow> json" where
  "cost_args iface cost = JObj [(''interface'', JStr iface), (''cost'', JInt (int cost))]"

definition route_args :: "string \<Rightarrow> json" where
  "route_args target = JObj [(''prefix'', JStr target)]"

text \<open>\<open>exec\<close> is given per attempt.\<close>

definition cli_set_ospf_cost ::
  "(json \<Rightarrow> string) \<Rightarrow> (string \<Rightarrow> string + json) \<Rightarrow> (nat \<Rightarrow> runner) \<Rightarrow> string \<Rightarrow> nat \<Rightarrow> (string + unit) \<times> nat" where
  "cli_set_ospf_cost show_json parse exec iface cost =
     set_ospf_cost (\<lambda>k. ubus_call show_json parse (exec k) ubus_timeout ''bird'' ''set_ospf_cost'' (cost_args iface cost))"

definition cli_bird_route ::
  "(json \<Rightarrow> route_rep option) \<Rightarrow> (json \<Rightarrow> string) \<Rightarrow> (string \<Rightarrow> string + json) \<Rightarrow> runner \<Rightarrow> string
    \<Rightarrow> int \<times> route_rep list" where
  "cli_bird_route route_of show_json parse exec target =
     bird_route route_of (\<lambda>t. ubus_call show_json parse exec ubus_timeout ''bird'' ''route'' (route_args t)) target"

section \<open>The nft command\<close>

definition nft_timeout :: nat where
  "nft_timeout = secs 10"

text \<open>What one run meets, in this order: the spawn, the write of the script to the child's input (when
  there is one), and the end of the child within the deadline.\<close>

record nft_world =
  nw_spawn :: "string + unit"
  nw_write :: "string \<Rightarrow> string + unit"
  nw_end :: "nat \<Rightarrow> proc_end"

definition nft_end :: "string \<Rightarrow> proc_end \<Rightarrow> string + string" where
  "nft_end what p =
     (case p of
        Overran \<Rightarrow> Inl (what @ '': timed out'')
      | Not_run e \<Rightarrow> Inl e
      | Exited success status out err \<Rightarrow>
          if success then Inr out else Inl (what @ '': '' @ status @ '' '' @ trim err))"

definition nft_run :: "nft_world \<Rightarrow> nat \<Rightarrow> string list \<Rightarrow> string option \<Rightarrow> string + string" where
  "nft_run w timeout args stdin =
     (let what = ''nft '' @ join '' '' args
      in bind_sum (context_of (what @ '': spawn'') (nw_spawn w)) (\<lambda>_.
         bind_sum (case stdin of
             Some text \<Rightarrow> context_of (what @ '': write script'') (nw_write w text)
           | None \<Rightarrow> Inr ()) (\<lambda>_.
         nft_end what (nw_end w timeout))))"

definition nft_apply :: "nft_world \<Rightarrow> string \<Rightarrow> string + unit" where
  "nft_apply w script = map_sum id (\<lambda>_. ()) (nft_run w nft_timeout [''-f'', ''-''] (Some script))"

definition nft_list_sets :: "(string \<Rightarrow> string + json) \<Rightarrow> nft_world \<Rightarrow> string \<Rightarrow> string + json" where
  "nft_list_sets parse w family =
     bind_sum (nft_run w nft_timeout [''-j'', ''list'', ''sets'', family] None)
       (\<lambda>out. context_of ''nft list sets: reply'' (parse out))"

text \<open>The marker over the command: the switch of the colour, and the read of a block.\<close>

definition cli_flip :: "nft_world \<Rightarrow> marker \<Rightarrow> string list \<Rightarrow> nat \<Rightarrow> string + unit" where
  "cli_flip w m ifaces n = nft_apply w (flip m ifaces n)"

definition cli_read_block ::
  "(string \<Rightarrow> string + json) \<Rightarrow> nft_world \<Rightarrow> string \<Rightarrow> string list \<Rightarrow> nat \<Rightarrow> bool \<Rightarrow> marker
    \<Rightarrow> (mark_error + read_outcome) \<times> marker" where
  "cli_read_block parse w family ifaces n under_test m =
     read_block ifaces n under_test (case nft_list_sets parse w family of Inr v \<Rightarrow> Some v | Inl _ \<Rightarrow> None) m"

section \<open>iperf3 and the interface counters\<close>

text \<open>The document is read whatever the exit status: \<open>iperf3 -J\<close> reports its own errors in it.\<close>

definition iperf_run ::
  "(ipv6 \<Rightarrow> string) \<Rightarrow> (f64 \<Rightarrow> string) \<Rightarrow> (string \<Rightarrow> string + json) \<Rightarrow> runner \<Rightarrow> throughput \<Rightarrow> link \<Rightarrow> leg
    \<Rightarrow> string + json" where
  "iperf_run show_ip show_rate parse exec t l leg =
     (case exec (tp_duration t + secs 20) (tp_iperf_bin t # iperf_args show_ip show_rate t l leg) of
        Overran \<Rightarrow> Inl ''iperf3 overran its deadline''
      | Not_run e \<Rightarrow> Inl (chain (''spawn '' @ tp_iperf_bin t) e)
      | Exited _ status out _ \<Rightarrow> context_of (''iperf3 output ('' @ status @ '')'') (parse out))"

definition counter_path :: "string \<Rightarrow> string \<Rightarrow> string" where
  "counter_path iface dir = ''/sys/class/net/'' @ iface @ ''/statistics/'' @ dir"

definition read_counter :: "(string \<Rightarrow> string + string) \<Rightarrow> string \<Rightarrow> string + nat" where
  "read_counter read_file p =
     bind_sum (context_of p (read_file p)) (\<lambda>s.
       case parse_unsigned 64 (trim s) of Some n \<Rightarrow> Inr n | None \<Rightarrow> Inl p)"

definition read_bytes :: "(string \<Rightarrow> string + string) \<Rightarrow> string \<Rightarrow> string + nat" where
  "read_bytes read_file iface =
     bind_sum (read_counter read_file (counter_path iface ''rx_bytes'')) (\<lambda>rx.
     bind_sum (read_counter read_file (counter_path iface ''tx_bytes'')) (\<lambda>tx. Inr (add64 rx tx)))"

text \<open>The counters are read before and after the span; the files then are arguments.\<close>

definition util_mbps ::
  "(string \<Rightarrow> string + string) \<Rightarrow> (string \<Rightarrow> string + string) \<Rightarrow> nat \<Rightarrow> string \<Rightarrow> string + f64" where
  "util_mbps before after elapsed iface =
     bind_sum (read_bytes before iface) (\<lambda>a. bind_sum (read_bytes after iface) (\<lambda>b. Inr (link_rate_mbps a b elapsed)))"

section \<open>Lemmas\<close>

text \<open>The deadline ubus is given ends at least four seconds before the agent kills the process, also for a
  timeout below a second: a slow method is reported by ubus itself.\<close>
lemma ubus_ends_first: "secs (ubus_secs timeout) + secs 4 \<le> timeout + secs 5"
proof -
  have "timeout div 1000000000 * 1000000000 \<le> timeout" by (rule div_times_less_eq_dividend)
  then show ?thesis by (auto simp: ubus_secs_def secs_def max_def)
qed

lemma ubus_reply_Inr_iff:
  "ubus_reply parse obj meth p = Inr v \<longleftrightarrow>
     (\<exists>status out err. p = Exited True status out err \<and> (if trim out = [] then v = JNull else parse out = Inr v))"
  by (auto simp: ubus_reply_def split: proc_end.split if_splits)

lemma nft_run_Inr_iff:
  "nft_run w timeout args stdin = Inr out \<longleftrightarrow> nw_spawn w = Inr ()
     \<and> (case stdin of Some text \<Rightarrow> nw_write w text = Inr () | None \<Rightarrow> True)
     \<and> (\<exists>status err. nw_end w timeout = Exited True status out err)"
  by (cases "nw_end w timeout"; cases stdin) (auto simp: nft_run_def Let_def bind_sum_Inr_iff nft_end_def)

lemma map_sum_unit_Inr [simp]: "map_sum id (\<lambda>_. ()) r = Inr () \<longleftrightarrow> (\<exists>x. r = Inr x)"
  by (cases r) auto

text \<open>A script is applied exactly when the program started, took the whole script and exited well.\<close>
lemma nft_apply_ok_iff:
  "nft_apply w script = Inr () \<longleftrightarrow> nw_spawn w = Inr () \<and> nw_write w script = Inr ()
     \<and> (\<exists>status out err. nw_end w nft_timeout = Exited True status out err)"
  by (auto simp: nft_apply_def nft_run_Inr_iff)

lemma nft_list_sets_Inr_iff:
  "nft_list_sets parse w family = Inr v \<longleftrightarrow> nw_spawn w = Inr ()
     \<and> (\<exists>status out err. nw_end w nft_timeout = Exited True status out err \<and> parse out = Inr v)"
  by (auto simp: nft_list_sets_def bind_sum_Inr_iff nft_run_Inr_iff)

text \<open>An empty answer is not an error of the bus, but no cost counts as applied on one.\<close>
lemma blank_reply_applies_nothing:
  assumes "\<And>n args. exec 1 n args = Exited True status [] err"
  shows "cli_set_ospf_cost show_json parse exec iface cost = (Inl ''bird returned code -1'', 1)"
proof -
  have "ubus_call show_json parse (exec 1) ubus_timeout obj m a = Inr JNull" for obj m a
    by (simp add: ubus_call_def ubus_reply_def assms [unfolded One_nat_def] trim_def)
  moreover have "show_int (- 1) = ''-1''" by code_simp
  ultimately show ?thesis
    by (simp add: cli_set_ospf_cost_def set_ospf_cost_def max_tries_def upt_conv_Cons reply_code_def j_index_def
        busy_code_def Let_def)
qed

text \<open>Without a working bus nothing is discovered, and nothing raises an error.\<close>
lemma dead_bus_discovers_nothing:
  assumes "\<And>n args. case exec n args of Exited True _ _ _ \<Rightarrow> False | _ \<Rightarrow> True"
  shows "discover ip_of (cli_bus show_json parse exec) cfg known = \<lparr>di_links = [], di_router_id = None\<rparr>
    \<and> discover_loopback ip_of (cli_bus show_json parse exec) cfg = None"
proof -
  have "cli_bus show_json parse exec obj meth = None" for obj meth
    using assms [of "ubus_timeout + secs 5" "''ubus'' # ubus_args show_json ubus_timeout obj meth (JObj [])"]
    by (auto simp: cli_bus_def ubus_call_def ubus_reply_Inr_iff split: sum.split)
  then show ?thesis by (simp add: discover_def discover_loopback_def)
qed

lemma add64_eq_sum: "a < 2 ^ 63 \<Longrightarrow> b < 2 ^ 63 \<Longrightarrow> add64 a b = a + b"
  by (rule add64_small) simp

lemma read_counter_Inr_iff:
  "read_counter read_file p = Inr n \<longleftrightarrow> (\<exists>s. read_file p = Inr s \<and> parse_unsigned 64 (trim s) = Some n)"
  by (auto simp: read_counter_def bind_sum_Inr_iff split: option.splits)

text \<open>The utilisation is measured exactly when all four reads give numbers.\<close>
lemma util_measured_iff:
  "(\<exists>u. util_mbps before after elapsed iface = Inr u) \<longleftrightarrow>
     (\<forall>read_file \<in> {before, after}. \<forall>dir \<in> {''rx_bytes'', ''tx_bytes''}.
        \<exists>s n. read_file (counter_path iface dir) = Inr s \<and> parse_unsigned 64 (trim s) = Some n)"
  by (auto simp: util_mbps_def bind_sum_Inr_iff read_bytes_def read_counter_Inr_iff)

end
