(* ===== verification/Certs.thy ===== *)
theory Certs
  imports Nft
begin

text \<open>
  The \<open>cert\<close> subcommand of the controller (\<open>crates/controller/src/cert.rs\<close>): the certificate authority and
  the leaves it signs, as the sequence of \<open>openssl\<close> command lines and of the files around them. What
  openssl does to the files, and how it ends, is an argument; so are the process id, the clock and the
  directory of temporary files. \<open>cw_ran\<close> records the command lines given to openssl and \<open>cw_out\<close> the
  lines printed.
\<close>

section \<open>Arguments\<close>

record ca_args =
  ca_name :: string
  ca_key_out :: "string option"
  ca_crt_out :: "string option"
  ca_days :: nat

record sign_args =
  sa_name :: string
  sa_ip :: "string list"
  sa_host :: "string list"
  sa_ca_key :: string
  sa_ca_crt :: string
  sa_key :: "string option"
  sa_crt :: "string option"
  sa_days :: nat

datatype cert_cli = Cert_ca ca_args | Cert_node sign_args | Cert_agent sign_args

definition default_days :: nat where
  "default_days = 825"

record cert_flags =
  fl_name :: string
  fl_ips :: "string list"
  fl_hosts :: "string list"
  fl_ca_key :: string
  fl_ca_crt :: string
  fl_key :: string
  fl_crt :: string
  fl_days :: nat

definition resolve_sign :: "sign_args \<Rightarrow> cert_flags" where
  "resolve_sign a = \<lparr>fl_name = sa_name a, fl_ips = sa_ip a, fl_hosts = sa_host a, fl_ca_key = sa_ca_key a,
     fl_ca_crt = sa_ca_crt a,
     fl_key = (case sa_key a of Some k \<Rightarrow> k | None \<Rightarrow> sa_name a @ ''.key''),
     fl_crt = (case sa_crt a of Some c \<Rightarrow> c | None \<Rightarrow> sa_name a @ ''.crt''), fl_days = sa_days a\<rparr>"

definition ca_flags :: "ca_args \<Rightarrow> cert_flags" where
  "ca_flags a = \<lparr>fl_name = ca_name a, fl_ips = [], fl_hosts = [], fl_ca_key = ''ca.key'', fl_ca_crt = ''ca.crt'',
     fl_key = (case ca_key_out a of Some k \<Rightarrow> k | None \<Rightarrow> ''ca.key''),
     fl_crt = (case ca_crt_out a of Some c \<Rightarrow> c | None \<Rightarrow> ''ca.crt''), fl_days = ca_days a\<rparr>"

section \<open>The world\<close>

text \<open>A child that could not be spawned, or exited with its success and its standard error.\<close>

datatype child_end = No_child string | Child bool string

type_synonym files = "(string, string) hmap"

record cert_world =
  cw_files :: files
  cw_ran :: "string list list"
  cw_out :: "string list"

record cert_env =
  en_openssl :: "string list \<Rightarrow> files \<Rightarrow> child_end \<times> files"
  en_write_error :: "string \<Rightarrow> string option"
  en_temp_dir :: string
  en_pid :: nat
  en_nanos :: "nat \<times> nat"

type_synonym cert_step = "cert_world \<Rightarrow> (string + unit) \<times> cert_world"

definition cert_then :: "cert_step \<Rightarrow> cert_step \<Rightarrow> cert_step" where
  "cert_then s t w = (case s w of (Inl e, w) \<Rightarrow> (Inl e, w) | (Inr _, w) \<Rightarrow> t w)"

fun cert_steps :: "cert_step list \<Rightarrow> cert_step" where
  "cert_steps [] w = (Inr (), w)"
| "cert_steps (s # ss) w = cert_then s (cert_steps ss) w"

definition file_exists :: "string \<Rightarrow> cert_world \<Rightarrow> bool" where
  "file_exists p w = hm_has (cw_files w) p"

definition write_file :: "cert_env \<Rightarrow> string \<Rightarrow> string \<Rightarrow> string \<Rightarrow> cert_step" where
  "write_file env what p text w =
     (case en_write_error env p of
        Some e \<Rightarrow> (Inl (what @ '': '' @ e), w)
      | None \<Rightarrow> (Inr (), w\<lparr>cw_files := hm_insert p text (cw_files w)\<rparr>))"

definition remove_file :: "string \<Rightarrow> cert_step" where
  "remove_file p w = (Inr (), w\<lparr>cw_files := hm_remove p (cw_files w)\<rparr>)"

definition println :: "string \<Rightarrow> cert_step" where
  "println s w = (Inr (), w\<lparr>cw_out := cw_out w @ [s]\<rparr>)"

section \<open>Running openssl\<close>

definition run_openssl :: "cert_env \<Rightarrow> string list \<Rightarrow> cert_step" where
  "run_openssl env args w =
     (let (e, fs) = en_openssl env args (cw_files w);
          w = w\<lparr>cw_files := fs, cw_ran := cw_ran w @ [args]\<rparr>
      in case e of
           No_child cause \<Rightarrow> (Inl (''spawn openssl: '' @ cause), w)
         | Child True _ \<Rightarrow> (Inr (), w)
         | Child False stderr \<Rightarrow> (Inl (''openssl '' @ join '' '' args @ '' failed: '' @ trim stderr), w))"

definition key_args :: "string \<Rightarrow> string list" where
  "key_args key = [''genpkey'', ''-algorithm'', ''EC'', ''-pkeyopt'', ''ec_paramgen_curve:P-256'', ''-out'', key]"

definition gen_ec_key :: "cert_env \<Rightarrow> string \<Rightarrow> cert_step" where
  "gen_ec_key env key = run_openssl env (key_args key)"

definition temp_path :: "cert_env \<Rightarrow> nat \<Rightarrow> string \<Rightarrow> string" where
  "temp_path env nanos suffix =
     (let dir = en_temp_dir env
      in dir @ (if dir \<noteq> [] \<and> last dir \<noteq> CHR ''/'' then ''/'' else [])
         @ ''mielofon-cert-'' @ show_nat (en_pid env) @ ''-'' @ show_nat nanos @ suffix)"

section \<open>The commands\<close>

definition ca_req_args :: "cert_flags \<Rightarrow> string list" where
  "ca_req_args f = [''req'', ''-x509'', ''-new'', ''-key'', fl_key f, ''-sha256'', ''-days'', show_nat (fl_days f),
     ''-subj'', ''/CN='' @ fl_name f, ''-out'', fl_crt f]"

definition cmd_ca :: "cert_env \<Rightarrow> cert_flags \<Rightarrow> cert_step" where
  "cmd_ca env f = cert_steps
     [gen_ec_key env (fl_key f), run_openssl env (ca_req_args f), println (''wrote '' @ fl_key f), println (''wrote '' @ fl_crt f)]"

definition sans :: "cert_flags \<Rightarrow> string list" where
  "sans f = map (\<lambda>ip. ''IP:'' @ ip) (fl_ips f) @ map (\<lambda>h. ''DNS:'' @ h) (fl_hosts f)"

definition ext_lines :: "cert_flags \<Rightarrow> bool \<Rightarrow> string list" where
  "ext_lines f agent =
     [''keyUsage = digitalSignature'',
      ''extendedKeyUsage = '' @ (if agent then ''clientAuth'' else ''serverAuth, clientAuth'')] @
     (if fl_ips f \<noteq> [] \<or> fl_hosts f \<noteq> [] then [''subjectAltName = '' @ join '','' (sans f)] else [])"

definition ext_text :: "cert_flags \<Rightarrow> bool \<Rightarrow> string" where
  "ext_text f agent = join [CHR 0x0A] (ext_lines f agent) @ [CHR 0x0A]"

definition csr_args :: "cert_flags \<Rightarrow> string \<Rightarrow> string list" where
  "csr_args f csr = [''req'', ''-new'', ''-key'', fl_key f, ''-subj'', ''/CN='' @ fl_name f, ''-out'', csr]"

definition x509_args :: "cert_flags \<Rightarrow> bool \<Rightarrow> string \<Rightarrow> string \<Rightarrow> string list" where
  "x509_args f agent csr extfile =
     [''x509'', ''-req'', ''-in'', csr, ''-CA'', fl_ca_crt f, ''-CAkey'', fl_ca_key f, ''-CAcreateserial'', ''-sha256'',
      ''-days'', show_nat (fl_days f)] @
     (if ext_lines f agent \<noteq> [] then [''-extfile'', extfile] else []) @ [''-out'', fl_crt f]"

definition csr_path :: "cert_env \<Rightarrow> string" where
  "csr_path env = temp_path env (fst (en_nanos env)) ''.csr''"

definition ext_path :: "cert_env \<Rightarrow> string" where
  "ext_path env = temp_path env (snd (en_nanos env)) ''.ext''"

definition sign_steps :: "cert_env \<Rightarrow> cert_flags \<Rightarrow> bool \<Rightarrow> cert_step list" where
  "sign_steps env f agent =
     (let csr = csr_path env; extfile = ext_path env
      in [gen_ec_key env (fl_key f), run_openssl env (csr_args f csr)] @
         (if ext_lines f agent \<noteq> [] then [write_file env ''write extfile'' extfile (ext_text f agent)] else []) @
         [run_openssl env (x509_args f agent csr extfile), remove_file csr, remove_file extfile,
          println (''wrote '' @ fl_key f), println (''wrote '' @ fl_crt f)])"

definition cmd_sign :: "cert_env \<Rightarrow> cert_flags \<Rightarrow> bool \<Rightarrow> cert_step" where
  "cmd_sign env f agent w =
     (if \<not> file_exists (fl_ca_key f) w
      then (Inl (''CA key not found: '' @ fl_ca_key f @ '' (run `cert ca` first)''), w)
      else if \<not> file_exists (fl_ca_crt f) w
      then (Inl (''CA cert not found: '' @ fl_ca_crt f @ '' (run `cert ca` first)''), w)
      else cert_steps (sign_steps env f agent) w)"

fun run_cert :: "cert_env \<Rightarrow> cert_cli \<Rightarrow> cert_step" where
  "run_cert env (Cert_ca a) = cmd_ca env (ca_flags a)"
| "run_cert env (Cert_node a) = cmd_sign env (resolve_sign a) False"
| "run_cert env (Cert_agent a) = cmd_sign env (resolve_sign a) True"

section \<open>Lemmas\<close>

lemma run_openssl_ran [simp]: "cw_ran (snd (run_openssl env args w)) = cw_ran w @ [args]"
  and run_openssl_out [simp]: "cw_out (snd (run_openssl env args w)) = cw_out w"
  by (auto simp: run_openssl_def Let_def split: prod.split child_end.split bool.split)

lemma cert_steps_Inr:
  "cert_steps (s # ss) w = (Inr (), w') \<longleftrightarrow> (\<exists>w1. s w = (Inr (), w1) \<and> cert_steps ss w1 = (Inr (), w'))"
  by (auto simp: cert_then_def split: prod.split sum.split)

lemma cert_steps_Inl:
  "cert_steps (s # ss) w = (Inl e, w') \<longleftrightarrow> s w = (Inl e, w') \<or> (\<exists>w1. s w = (Inr (), w1) \<and> cert_steps ss w1 = (Inl e, w'))"
  by (auto simp: cert_then_def split: prod.split sum.split)

lemma run_openssl_Pair:
  "run_openssl env args w = (r, w') \<Longrightarrow> cw_ran w' = cw_ran w @ [args] \<and> cw_out w' = cw_out w"
  using run_openssl_ran [of env args w] run_openssl_out [of env args w] by simp

lemma write_file_Pair:
  "write_file env what p text w = (r, w') \<Longrightarrow> cw_ran w' = cw_ran w \<and> cw_out w' = cw_out w"
  by (auto simp: write_file_def split: option.splits)

lemma ext_lines_nonempty [simp]: "ext_lines f agent \<noteq> []"
  by (simp add: ext_lines_def)

definition sign_commands :: "cert_env \<Rightarrow> cert_flags \<Rightarrow> bool \<Rightarrow> string list list" where
  "sign_commands env f agent = [key_args (fl_key f), csr_args f (csr_path env), x509_args f agent (csr_path env) (ext_path env)]"

lemma sign_steps_ok:
  assumes "cert_steps (sign_steps env f agent) w = (Inr (), w')"
  shows "cw_ran w' = cw_ran w @ sign_commands env f agent
    \<and> cw_out w' = cw_out w @ [''wrote '' @ fl_key f, ''wrote '' @ fl_crt f]
    \<and> \<not> file_exists (csr_path env) w' \<and> \<not> file_exists (ext_path env) w'"
  using assms
  by (auto simp: sign_steps_def Let_def cert_steps_Inr gen_ec_key_def sign_commands_def println_def remove_file_def
      file_exists_def hm_has_def simp del: cert_steps.simps(2)
      dest!: run_openssl_Pair write_file_Pair)

lemma sign_steps_failed:
  assumes "cert_steps (sign_steps env f agent) w = (Inl e, w')"
  shows "\<exists>k \<le> 3. cw_ran w' = cw_ran w @ take k (sign_commands env f agent) \<and> cw_out w' = cw_out w"
proof -
  have "\<exists>k \<in> {1, 2, 3}. cw_ran w' = cw_ran w @ take k (sign_commands env f agent) \<and> cw_out w' = cw_out w"
    using assms
    by (auto simp: sign_steps_def Let_def cert_steps_Inl gen_ec_key_def sign_commands_def println_def remove_file_def
        simp del: cert_steps.simps(2) dest!: run_openssl_Pair write_file_Pair)
  then obtain k where "k \<in> {1, 2, 3}" "cw_ran w' = cw_ran w @ take k (sign_commands env f agent) \<and> cw_out w' = cw_out w"
    by blast
  then show ?thesis by (intro exI [of _ k]) auto
qed

text \<open>Signing a leaf: it runs the three commands in order or a prefix of them, says that it wrote the two files
  only when all of them succeeded, and then has removed its temporary files; without the authority's key and
  certificate it runs nothing and changes nothing.\<close>
theorem leaf_signed_or_refused:
  "case cmd_sign env f agent w of
     (Inr _, w') \<Rightarrow> file_exists (fl_ca_key f) w \<and> file_exists (fl_ca_crt f) w
       \<and> cw_ran w' = cw_ran w @ sign_commands env f agent
       \<and> cw_out w' = cw_out w @ [''wrote '' @ fl_key f, ''wrote '' @ fl_crt f]
       \<and> \<not> file_exists (csr_path env) w' \<and> \<not> file_exists (ext_path env) w'
   | (Inl e, w') \<Rightarrow> cw_out w' = cw_out w
       \<and> (if file_exists (fl_ca_key f) w \<and> file_exists (fl_ca_crt f) w
          then \<exists>k \<le> 3. cw_ran w' = cw_ran w @ take k (sign_commands env f agent) else w' = w)"
proof (cases "file_exists (fl_ca_key f) w \<and> file_exists (fl_ca_crt f) w")
  case False
  then show ?thesis by (auto simp: cmd_sign_def)
next
  case True
  then have c: "cmd_sign env f agent w = cert_steps (sign_steps env f agent) w" by (simp add: cmd_sign_def)
  show ?thesis
  proof (cases "cert_steps (sign_steps env f agent) w")
    case (Pair r w')
    show ?thesis
    proof (cases r)
      case (Inl e)
      with Pair have *: "cert_steps (sign_steps env f agent) w = (Inl e, w')" by simp
      show ?thesis unfolding c * using sign_steps_failed [OF *] True by auto
    next
      case (Inr u)
      with Pair have *: "cert_steps (sign_steps env f agent) w = (Inr (), w')" by simp
      show ?thesis unfolding c * using sign_steps_ok [OF *] True by auto
    qed
  qed
qed

section \<open>The extensions of a leaf\<close>

lemma split_char_append: "c \<notin> set a \<Longrightarrow> split_char c (a @ c # b) = a # split_char c b"
  by (induction a) (auto simp: split_char_def)

lemma split_char_join:
  "list_all (\<lambda>x. c \<notin> set x) xs \<Longrightarrow> xs \<noteq> [] \<Longrightarrow> split_char c (join [c] xs @ c # rest) = xs @ split_char c rest"
  by (induction "[c]" xs rule: join.induct) (auto simp: split_char_append)

lemma newline_free_join: "list_all (\<lambda>x. c \<notin> set x) xs \<Longrightarrow> c \<notin> set sep \<Longrightarrow> c \<notin> set (join sep xs)"
  by (induction sep xs rule: join.induct) auto

definition plain_names :: "cert_flags \<Rightarrow> bool" where
  "plain_names f \<longleftrightarrow> list_all (\<lambda>n. CHR 0x0A \<notin> set n) (fl_ips f @ fl_hosts f)"

lemma ext_text_lines:
  assumes "plain_names f"
  shows "split_char (CHR 0x0A) (ext_text f agent) = ext_lines f agent @ [[]]"
proof -
  have "list_all (\<lambda>x. CHR 0x0A \<notin> set x) (sans f)"
    using assms by (auto simp: plain_names_def sans_def list_all_iff)
  then have "list_all (\<lambda>x. CHR 0x0A \<notin> set x) (ext_lines f agent)"
    using newline_free_join [of "CHR 0x0A" "sans f" "'',''"] by (simp add: ext_lines_def)
  then show ?thesis
    using split_char_join [of "CHR 0x0A" "ext_lines f agent" "[]"] by (simp add: ext_text_def split_char_def)
qed

definition usage_lines :: "string \<Rightarrow> string list" where
  "usage_lines text = filter (\<lambda>l. strip_prefix ''extendedKeyUsage'' l \<noteq> None) (split_char (CHR 0x0A) text)"

text \<open>The extension file says once what a leaf is for: an agent's leaf authenticates a client and nothing else, a
  node's leaf also a server.\<close>
theorem leaf_usage:
  assumes "plain_names f"
  shows "usage_lines (ext_text f agent)
    = [''extendedKeyUsage = '' @ (if agent then ''clientAuth'' else ''serverAuth, clientAuth'')]"
  by (simp add: usage_lines_def ext_text_lines [OF assms] ext_lines_def)

text \<open>A host name with a line break escapes its line: the argument is not checked.\<close>
definition demo_flags :: cert_flags where
  "demo_flags = \<lparr>fl_name = ''spoke-1'', fl_ips = [''192.0.2.1''], fl_hosts = [''spoke-1''], fl_ca_key = ''ca.key'', fl_ca_crt = ''ca.crt'',
     fl_key = ''spoke-1.key'', fl_crt = ''spoke-1.crt'', fl_days = default_days\<rparr>"

lemma line_break_adds_usage:
  "usage_lines (ext_text (demo_flags\<lparr>fl_hosts := [''x'' @ [CHR 0x0A] @ ''extendedKeyUsage = serverAuth'']\<rparr>) True)
    = [''extendedKeyUsage = clientAuth'', ''extendedKeyUsage = serverAuth'']"
  by code_simp

theorem leaf_usage_witness:
  "plain_names demo_flags \<and> usage_lines (ext_text demo_flags True) = [''extendedKeyUsage = clientAuth'']"
proof -
  have p: "plain_names demo_flags" by code_simp
  with leaf_usage [OF p, of True] show ?thesis by simp
qed

text \<open>An openssl that writes the file it is told to, and refuses to sign.\<close>
definition signing_refused :: cert_env where
  "signing_refused = \<lparr>en_openssl = (\<lambda>args fs. if hd args = ''x509'' then (Child False ''bad CA key'', fs)
       else (Child True [], hm_insert (last args) [] fs)),
     en_write_error = (\<lambda>_. None), en_temp_dir = ''/tmp'', en_pid = 7, en_nanos = (1, 2)\<rparr>"

definition ca_present :: cert_world where
  "ca_present = \<lparr>cw_files = [(''ca.key'', []), (''ca.crt'', [])], cw_ran = [], cw_out = []\<rparr>"

text \<open>The temporary files are removed on the way to success only.\<close>
lemma failed_sign_leaves_temporaries:
  "case cmd_sign signing_refused demo_flags True ca_present of
     (r, w) \<Rightarrow> r \<noteq> Inr () \<and> file_exists (csr_path signing_refused) w \<and> file_exists (ext_path signing_refused) w"
  by code_simp

end
