(* ===== verification/TlsFiles.thy ===== *)
theory TlsFiles
  imports Daemon Subprocess
begin

text \<open>
  The identities of both programs (\<open>crates/agent/src/tls.rs\<close>, \<open>crates/controller/src/tls.rs\<close>): which files
  are read in which order, and which of their errors refuse the start. Reading a file, the PEM reader, the
  parsing of an authority's certificate and the checks of the TLS library are arguments; a configuration is
  the authorities it trusts and the chain and key it presents. An error is its text.
\<close>

section \<open>The outside\<close>

text \<open>\<open>te_read\<close> yields the bytes; \<open>te_utf8\<close> is the check of \<open>read_to_string\<close>.\<close>

record ('b, 'c, 'k) tls_env =
  te_read :: "string \<Rightarrow> string + 'b"
  te_utf8 :: "'b \<Rightarrow> string + unit"
  te_certs :: "'b \<Rightarrow> string + 'c list"
  te_key :: "'b \<Rightarrow> string + 'k option"
  te_parsable :: "'c \<Rightarrow> bool"
  te_versions :: "string + unit"
  te_verifier :: "'c list \<Rightarrow> string + unit"
  te_identity :: "'c list \<Rightarrow> 'k \<Rightarrow> string + unit"

record ('c, 'k) tls_config =
  tc_roots :: "'c list"
  tc_chain :: "'c list"
  tc_key :: 'k
  tc_client_auth :: bool

text \<open>The root store keeps what parses and reports how many certificates it left out.\<close>

definition add_parsable :: "('c \<Rightarrow> bool) \<Rightarrow> 'c list \<Rightarrow> 'c list \<Rightarrow> 'c list \<times> nat" where
  "add_parsable ok certs roots = (roots @ filter ok certs, length (filter (\<lambda>c. \<not> ok c) certs))"

section \<open>The agent\<close>

definition agent_certs :: "('b, 'c, 'k) tls_env \<Rightarrow> string \<Rightarrow> string + 'c list" where
  "agent_certs env path =
     bind_sum (context_of (''read '' @ path) (te_read env path)) (\<lambda>pem.
     bind_sum (context_of (''parse '' @ path) (te_certs env pem)) (\<lambda>certs.
       if certs = [] then Inl (''no certificates in '' @ path) else Inr certs))"

definition agent_key :: "('b, 'c, 'k) tls_env \<Rightarrow> string \<Rightarrow> string + 'k" where
  "agent_key env path =
     bind_sum (context_of (''read '' @ path) (te_read env path)) (\<lambda>pem.
     bind_sum (context_of (''parse '' @ path) (te_key env pem)) (\<lambda>key.
       case key of Some k \<Rightarrow> Inr k | None \<Rightarrow> Inl (''no private key in '' @ path)))"

definition agent_client_config ::
  "('b, 'c, 'k) tls_env \<Rightarrow> string \<Rightarrow> string \<Rightarrow> string \<Rightarrow> string + ('c, 'k) tls_config" where
  "agent_client_config env cacert cert key =
     bind_sum (agent_certs env cacert) (\<lambda>ca.
       let (roots, bad) = add_parsable (te_parsable env) ca []
       in if 0 < bad then Inl (show_nat bad @ '' unparsable CA certificate(s) in '' @ cacert)
          else bind_sum (context_of ''TLS protocol versions'' (te_versions env)) (\<lambda>_.
            bind_sum (agent_certs env cert) (\<lambda>chain.
            bind_sum (agent_key env key) (\<lambda>k.
            bind_sum (context_of ''client identity'' (te_identity env chain k)) (\<lambda>_.
              Inr \<lparr>tc_roots = roots, tc_chain = chain, tc_key = k, tc_client_auth = False\<rparr>)))))"

section \<open>The controller\<close>

definition read_text :: "('b, 'c, 'k) tls_env \<Rightarrow> string \<Rightarrow> string + 'b" where
  "read_text env path = bind_sum (te_read env path) (\<lambda>b. bind_sum (te_utf8 env b) (\<lambda>_. Inr b))"

definition load_certs :: "('b, 'c, 'k) tls_env \<Rightarrow> string \<Rightarrow> string + 'c list" where
  "load_certs env path =
     bind_sum (context_of (''read cert '' @ path) (read_text env path)) (\<lambda>text.
     bind_sum (context_of (''parse cert '' @ path) (te_certs env text)) (\<lambda>certs.
       if certs = [] then Inl (''no X.509 certificates found in '' @ path) else Inr certs))"

definition load_key :: "('b, 'c, 'k) tls_env \<Rightarrow> string \<Rightarrow> string + 'k" where
  "load_key env path =
     bind_sum (context_of (''read key '' @ path) (read_text env path)) (\<lambda>text.
     bind_sum (context_of (''parse key '' @ path) (te_key env text)) (\<lambda>key.
       case key of Some k \<Rightarrow> Inr k | None \<Rightarrow> Inl (''no private key found in '' @ path)))"

fun root_store :: "('b, 'c, 'k) tls_env \<Rightarrow> string list \<Rightarrow> 'c list \<Rightarrow> string + 'c list" where
  "root_store env [] roots = Inr roots"
| "root_store env (path # paths) roots =
     bind_sum (load_certs env path) (\<lambda>certs.
       let (roots, invalid) = add_parsable (te_parsable env) certs roots
       in if 0 < invalid then Inl (''failed to parse '' @ show_nat invalid @ '' CA cert(s) in '' @ path)
          else root_store env paths roots)"

text \<open>A server asks every client for a certificate of the authorities.\<close>

definition server_config :: "('b, 'c, 'k) tls_env \<Rightarrow> tls_cfg \<Rightarrow> string list \<Rightarrow> string + ('c, 'k) tls_config" where
  "server_config env tls ca_paths =
     bind_sum (root_store env ca_paths []) (\<lambda>roots.
     bind_sum (context_of ''build client verifier'' (te_verifier env roots)) (\<lambda>_.
     bind_sum (load_certs env (tl_cert tls)) (\<lambda>certs.
     bind_sum (load_key env (tl_key tls)) (\<lambda>key.
     bind_sum (context_of ''load server identity'' (te_identity env certs key)) (\<lambda>_.
       Inr \<lparr>tc_roots = roots, tc_chain = certs, tc_key = key, tc_client_auth = True\<rparr>)))))"

definition client_config :: "('b, 'c, 'k) tls_env \<Rightarrow> tls_cfg \<Rightarrow> string list \<Rightarrow> string + ('c, 'k) tls_config" where
  "client_config env tls ca_paths =
     bind_sum (root_store env ca_paths []) (\<lambda>roots.
     bind_sum (load_certs env (tl_cert tls)) (\<lambda>certs.
     bind_sum (load_key env (tl_key tls)) (\<lambda>key.
     bind_sum (context_of ''load client identity'' (te_identity env certs key)) (\<lambda>_.
       Inr \<lparr>tc_roots = roots, tc_chain = certs, tc_key = key, tc_client_auth = False\<rparr>))))"

section \<open>Lemmas\<close>

lemma load_certs_Inr_iff:
  "load_certs env path = Inr certs \<longleftrightarrow> certs \<noteq> [] \<and>
     (\<exists>b. te_read env path = Inr b \<and> te_utf8 env b = Inr () \<and> te_certs env b = Inr certs)"
  by (auto simp: load_certs_def read_text_def bind_sum_Inr_iff)

lemma agent_certs_Inr_iff:
  "agent_certs env path = Inr certs \<longleftrightarrow> certs \<noteq> [] \<and> (\<exists>b. te_read env path = Inr b \<and> te_certs env b = Inr certs)"
  by (auto simp: agent_certs_def bind_sum_Inr_iff)

lemma load_key_Inr_iff:
  "load_key env path = Inr k \<longleftrightarrow>
     (\<exists>b. te_read env path = Inr b \<and> te_utf8 env b = Inr () \<and> te_key env b = Inr (Some k))"
  by (auto simp: load_key_def read_text_def bind_sum_Inr_iff split: option.split)

lemma agent_key_Inr_iff:
  "agent_key env path = Inr k \<longleftrightarrow> (\<exists>b. te_read env path = Inr b \<and> te_key env b = Inr (Some k))"
  by (auto simp: agent_key_def bind_sum_Inr_iff split: option.split)

lemma root_store_Cons_Inr:
  "root_store env (p # ps) roots = Inr out \<longleftrightarrow>
     (\<exists>certs. load_certs env p = Inr certs \<and> list_all (te_parsable env) certs \<and> root_store env ps (roots @ certs) = Inr out)"
  by (auto simp: bind_sum_Inr_iff add_parsable_def list_all_iff filter_id_conv filter_empty_conv)

lemma root_store_Inr:
  "root_store env ps roots = Inr out \<longleftrightarrow>
     (\<exists>css. list_all2 (\<lambda>p cs. load_certs env p = Inr cs \<and> list_all (te_parsable env) cs) ps css \<and> out = roots @ concat css)"
proof (induction ps arbitrary: roots)
  case Nil
  then show ?case by auto
next
  case (Cons p ps)
  have "root_store env (p # ps) roots = Inr out \<longleftrightarrow> (\<exists>cs css. (load_certs env p = Inr cs \<and> list_all (te_parsable env) cs)
      \<and> list_all2 (\<lambda>p cs. load_certs env p = Inr cs \<and> list_all (te_parsable env) cs) ps css \<and> out = roots @ concat (cs # css))"
    unfolding root_store_Cons_Inr Cons.IH by auto
  then show ?case unfolding list_all2_Cons1 by blast
qed

declare root_store.simps [simp del]

lemma root_store_single:
  "root_store env [p] [] = Inr out \<longleftrightarrow> load_certs env p = Inr out \<and> list_all (te_parsable env) out"
  by (auto simp: root_store_Inr list_all2_Cons1)

text \<open>A server that starts asks for client certificates, trusts exactly the certificates of the authority's
  files, all of which parse, and has a chain to present that fits its key.\<close>
theorem server_pins_authority:
  assumes "server_config env tls [ca] = Inr cfg"
  shows "tc_client_auth cfg \<and> load_certs env ca = Inr (tc_roots cfg) \<and> tc_roots cfg \<noteq> []
    \<and> list_all (te_parsable env) (tc_roots cfg) \<and> tc_chain cfg \<noteq> [] \<and> te_identity env (tc_chain cfg) (tc_key cfg) = Inr ()"
  using assms
  by (auto simp: server_config_def bind_sum_Inr_iff root_store_single load_certs_Inr_iff)

text \<open>Both programs accept the same files and derive the same client identity from them: the agent reads bytes, the
  controller text, and a PEM file is text.\<close>
theorem client_identities_agree:
  assumes "\<And>b. te_utf8 env b = Inr ()" "te_versions env = Inr ()"
  shows "agent_client_config env ca cert key = Inr cfg
    \<longleftrightarrow> client_config env \<lparr>tl_ca = ca, tl_cert = cert, tl_key = key\<rparr> [ca] = Inr cfg"
proof -
  have c: "agent_certs env p = Inr cs \<longleftrightarrow> load_certs env p = Inr cs" for p cs
    by (simp add: agent_certs_Inr_iff load_certs_Inr_iff assms)
  have k: "agent_key env p = Inr x \<longleftrightarrow> load_key env p = Inr x" for p x
    by (simp add: agent_key_Inr_iff load_key_Inr_iff assms)
  have roots: "(let (roots, bad) = add_parsable ok cs [] in if 0 < bad then Inl (e bad) else f roots) = Inr y
      \<longleftrightarrow> list_all ok cs \<and> f cs = Inr y" for ok :: "'b \<Rightarrow> bool" and cs e and f :: "'b list \<Rightarrow> string + ('b, 'c) tls_config" and y
  proof (cases "list_all ok cs")
    case True
    then have "filter ok cs = cs" "filter (\<lambda>c. \<not> ok c) cs = []" by (auto simp: list_all_iff filter_id_conv filter_empty_conv)
    with True show ?thesis by (simp add: add_parsable_def)
  next
    case False
    then have "filter (\<lambda>c. \<not> ok c) cs \<noteq> []" by (auto simp: list_all_iff filter_empty_conv)
    with False show ?thesis by (simp add: add_parsable_def)
  qed
  show ?thesis
    unfolding agent_client_config_def client_config_def bind_sum_Inr_iff roots root_store_single
    by (auto simp: bind_sum_Inr_iff assms c k)
qed

definition demo_tls :: "(string, string, string) tls_env" where
  "demo_tls = \<lparr>te_read = (\<lambda>p. if p = ''gone'' then Inl ''No such file'' else Inr p), te_utf8 = (\<lambda>_. Inr ()),
     te_certs = (\<lambda>b. Inr [b]), te_key = (\<lambda>b. Inr (Some b)), te_parsable = (\<lambda>_. True), te_versions = Inr (),
     te_verifier = (\<lambda>_. Inr ()), te_identity = (\<lambda>_ _. Inr ())\<rparr>"

theorem client_identities_agree_witness:
  "agent_client_config demo_tls ''ca'' ''crt'' ''key'' = client_config demo_tls \<lparr>tl_ca = ''ca'', tl_cert = ''crt'', tl_key = ''key''\<rparr> [''ca'']
    \<and> agent_client_config demo_tls ''ca'' ''crt'' ''key''
      = Inr \<lparr>tc_roots = [''ca''], tc_chain = [''crt''], tc_key = ''key'', tc_client_auth = False\<rparr>"
proof -
  have c: "client_config demo_tls \<lparr>tl_ca = ''ca'', tl_cert = ''crt'', tl_key = ''key''\<rparr> [''ca'']
      = Inr \<lparr>tc_roots = [''ca''], tc_chain = [''crt''], tc_key = ''key'', tc_client_auth = False\<rparr>" by code_simp
  have "te_utf8 demo_tls b = Inr ()" "te_versions demo_tls = Inr ()" for b by (simp_all add: demo_tls_def)
  with c client_identities_agree [of demo_tls "''ca''" "''crt''" "''key''"] show ?thesis by simp
qed

theorem server_pins_authority_witness:
  "\<exists>cfg. server_config demo_tls \<lparr>tl_ca = ''ca'', tl_cert = ''crt'', tl_key = ''key''\<rparr> [''ca''] = Inr cfg
    \<and> tc_client_auth cfg \<and> tc_roots cfg \<noteq> []"
proof -
  have "server_config demo_tls \<lparr>tl_ca = ''ca'', tl_cert = ''crt'', tl_key = ''key''\<rparr> [''ca'']
    = Inr \<lparr>tc_roots = [''ca''], tc_chain = [''crt''], tc_key = ''key'', tc_client_auth = True\<rparr>" by code_simp
  from this server_pins_authority [OF this] show ?thesis by blast
qed

text \<open>The daemon's start with its identity read from the files.\<close>
definition tls_startup :: "('b, 'c, 'k) tls_env \<Rightarrow> 'ip startup \<Rightarrow> 'ip startup" where
  "tls_startup env su = su\<lparr>
     su_server_tls := (\<lambda>t. map_sum id (\<lambda>_. ()) (server_config env t [tl_ca t])),
     su_client_tls := (\<lambda>t. map_sum id (\<lambda>_. ()) (client_config env t [tl_ca t]))\<rparr>"

text \<open>A daemon that became ready has both identities, and they trust the same authority.\<close>
lemma ready_has_identities:
  assumes "run_daemon (tls_startup env su) cfg = Inr st"
  shows "\<exists>sc cc. server_config env (dc_tls cfg) [tl_ca (dc_tls cfg)] = Inr sc
    \<and> client_config env (dc_tls cfg) [tl_ca (dc_tls cfg)] = Inr cc \<and> tc_roots sc = tc_roots cc \<and> tc_chain sc = tc_chain cc"
proof -
  have "all_ok (start_steps (tls_startup env su) cfg) = Inr ()"
    using assms by (auto simp: run_daemon_def Let_def split: sum.split_asm)
  then have "list_all (\<lambda>r. r = Inr ()) (start_steps (tls_startup env su) cfg)" by (simp add: all_ok_iff)
  then obtain sc cc where "server_config env (dc_tls cfg) [tl_ca (dc_tls cfg)] = Inr sc"
    "client_config env (dc_tls cfg) [tl_ca (dc_tls cfg)] = Inr cc"
    by (auto simp: start_steps_def tls_startup_def Let_def)
  moreover from this have "tc_roots sc = tc_roots cc \<and> tc_chain sc = tc_chain cc"
    by (auto simp: server_config_def client_config_def bind_sum_Inr_iff)
  ultimately show ?thesis by blast
qed

end
