(* ===== verification/Carrier.thy ===== *)
theory Carrier
  imports TlsFiles
begin

text \<open>
  The QUIC carrier (\<open>crates/mielofon-transport/src/quic.rs\<close>) around the quinn library: what a listener and a
  dialer configure, which socket a dial uses, how its failures are told apart, and the accept loops of the
  two listeners (\<open>serve\<close> in \<open>session.rs\<close> and \<open>gossip.rs\<close> of the controller). What the library answers is an
  argument; a connection is a handle of the library.
\<close>

section \<open>Configuration\<close>

definition alpn :: string where
  "alpn = ''mielofon/1''"

definition keep_alive :: nat where
  "keep_alive = secs 15"

definition idle :: nat where
  "idle = secs 60"

record transport_cfg =
  tr_keep_alive :: "nat option"
  tr_max_idle :: "nat option"

text \<open>\<open>to_idle\<close> is the library's conversion of a duration, which can fail; the code expects it not to.\<close>

definition quic_transport :: "(nat \<Rightarrow> nat option) \<Rightarrow> transport_cfg option" where
  "quic_transport to_idle = map_option (\<lambda>t. \<lparr>tr_keep_alive = Some keep_alive, tr_max_idle = Some t\<rparr>) (to_idle idle)"

record ('c, 'k) quic_cfg =
  qc_tls :: "('c, 'k) tls_config"
  qc_alpn :: "string list"
  qc_transport :: transport_cfg

text \<open>\<open>crypto\<close> is the library's check of the TLS settings (TLS 1.3 must be possible). The whole is nothing when
  the conversion of the idle time panics.\<close>

definition quic_cfg_of ::
  "string \<Rightarrow> (nat \<Rightarrow> nat option) \<Rightarrow> (('c, 'k) tls_config \<Rightarrow> string list \<Rightarrow> string + unit) \<Rightarrow> ('c, 'k) tls_config
    \<Rightarrow> (string + ('c, 'k) quic_cfg) option" where
  "quic_cfg_of what to_idle crypto tls =
     (case context_of what (crypto tls [alpn]) of
        Inl e \<Rightarrow> Some (Inl e)
      | Inr _ \<Rightarrow> map_option (\<lambda>t. Inr \<lparr>qc_tls = tls, qc_alpn = [alpn], qc_transport = t\<rparr>) (quic_transport to_idle))"

section \<open>The listener\<close>

definition listener_bind ::
  "(nat \<Rightarrow> nat option) \<Rightarrow> (('c, 'k) tls_config \<Rightarrow> string list \<Rightarrow> string + unit)
    \<Rightarrow> (('c, 'k) quic_cfg \<Rightarrow> 'a \<Rightarrow> string + 'e) \<Rightarrow> ('a \<Rightarrow> string) \<Rightarrow> ('c, 'k) tls_config \<Rightarrow> 'a \<Rightarrow> (string + 'e) option" where
  "listener_bind to_idle crypto server show_addr tls addr =
     map_option (\<lambda>cfg. bind_sum cfg (\<lambda>cfg. context_of (''bind '' @ show_addr addr) (server cfg addr)))
       (quic_cfg_of ''QUIC server TLS config (TLS 1.3 required)'' to_idle crypto tls)"

text \<open>An accept of the endpoint: closed, or an attempt from an address with the result of its handshake.\<close>

datatype ('a, 's) incoming = Endpoint_closed | Attempt 'a "string + 's"

definition listener_accept :: "('a \<Rightarrow> string) \<Rightarrow> ('a, 's) incoming \<Rightarrow> (string + 's) option" where
  "listener_accept show_addr i =
     (case i of
        Endpoint_closed \<Rightarrow> None
      | Attempt remote handshake \<Rightarrow> Some (context_of (''handshake with '' @ show_addr remote) handshake))"

section \<open>The dialer\<close>

datatype ip_family = V4 | V6

text \<open>One socket per address family, made on first use.\<close>

record ('c, 'k, 'e) dialer =
  dl_cfg :: "('c, 'k) quic_cfg"
  dl_v4 :: "'e option"
  dl_v6 :: "'e option"

definition dialer_new ::
  "(nat \<Rightarrow> nat option) \<Rightarrow> (('c, 'k) tls_config \<Rightarrow> string list \<Rightarrow> string + unit) \<Rightarrow> ('c, 'k) tls_config
    \<Rightarrow> (string + ('c, 'k, 'e) dialer) option" where
  "dialer_new to_idle crypto tls =
     map_option (\<lambda>cfg. map_sum id (\<lambda>c. \<lparr>dl_cfg = c, dl_v4 = None, dl_v6 = None\<rparr>) cfg)
       (quic_cfg_of ''QUIC client TLS config (TLS 1.3 required)'' to_idle crypto tls)"

fun bind_addr :: "ip_family \<Rightarrow> string" where
  "bind_addr V4 = ''0.0.0.0:0''"
| "bind_addr V6 = ''[::]:0''"

fun dl_cell :: "ip_family \<Rightarrow> ('c, 'k, 'e) dialer \<Rightarrow> 'e option" where
  "dl_cell V4 d = dl_v4 d"
| "dl_cell V6 d = dl_v6 d"

fun set_cell :: "ip_family \<Rightarrow> 'e \<Rightarrow> ('c, 'k, 'e) dialer \<Rightarrow> ('c, 'k, 'e) dialer" where
  "set_cell V4 e d = d\<lparr>dl_v4 := Some e\<rparr>"
| "set_cell V6 e d = d\<lparr>dl_v6 := Some e\<rparr>"

definition dial_endpoint ::
  "(string \<Rightarrow> string + 'e) \<Rightarrow> ip_family \<Rightarrow> ('c, 'k, 'e) dialer \<Rightarrow> (string + 'e) \<times> ('c, 'k, 'e) dialer" where
  "dial_endpoint client fam d =
     (case dl_cell fam d of
        Some e \<Rightarrow> (Inr e, d)
      | None \<Rightarrow>
          (case context_of (''bind '' @ bind_addr fam) (client (bind_addr fam)) of
             Inr e \<Rightarrow> (Inr e, set_cell fam e d)
           | Inl err \<Rightarrow> (Inl err, d)))"

text \<open>What a dial meets: the start of the connection, and its handshake within the timeout (\<open>None\<close>: the
  timeout passed).\<close>

record ('c, 'k, 'e, 'a, 's) dial_world =
  dw_client :: "string \<Rightarrow> string + 'e"
  dw_connect :: "'e \<Rightarrow> ('c, 'k) quic_cfg \<Rightarrow> 'a \<Rightarrow> string \<Rightarrow> string + unit"
  dw_handshake :: "nat \<Rightarrow> (string + 's) option"

definition quic_dial ::
  "('c, 'k, 'e, 'a, 's) dial_world \<Rightarrow> ('a \<Rightarrow> ip_family) \<Rightarrow> ('a \<Rightarrow> string) \<Rightarrow> (nat \<Rightarrow> string) \<Rightarrow> 'a \<Rightarrow> string \<Rightarrow> nat
    \<Rightarrow> ('c, 'k, 'e) dialer \<Rightarrow> (string + 's) \<times> ('c, 'k, 'e) dialer" where
  "quic_dial w family show_addr show_dur addr host timeout d =
     (let what = ''dial '' @ show_addr addr; (ep, d') = dial_endpoint (dw_client w) (family addr) d
      in (bind_sum ep (\<lambda>e.
          bind_sum (context_of what (dw_connect w e (dl_cfg d') addr host)) (\<lambda>_.
            case dw_handshake w timeout of
              None \<Rightarrow> Inl (what @ '': timed out after '' @ show_dur timeout)
            | Some r \<Rightarrow> context_of what r)), d'))"

section \<open>A connection as a session\<close>

text \<open>The certificates of the peer: what the TLS library kept, when it is a certificate chain.\<close>

datatype 'c peer_identity = Cert_chain "'c list" | Other_identity

definition peer_certs :: "'c peer_identity option \<Rightarrow> 'c list" where
  "peer_certs i = (case i of Some (Cert_chain cs) \<Rightarrow> cs | _ \<Rightarrow> [])"

datatype io_kind = Connection_aborted | Timed_out | Other_io

text \<open>Opening and accepting a stream: any error of the connection is an aborted connection.\<close>

definition conn_err :: "string \<Rightarrow> io_kind \<times> string" where
  "conn_err e = (Connection_aborted, e)"

definition session_stream :: "string + 'stream \<Rightarrow> (io_kind \<times> string) + 'stream" where
  "session_stream r = map_sum conn_err id r"

section \<open>The accept loops\<close>

text \<open>The tasks spawned for sessions, and the error the loop ends with (it has none while it still waits).\<close>

fun serve_loop :: "string \<Rightarrow> (string + 's) option list \<Rightarrow> 's list \<times> string option" where
  "serve_loop msg [] = ([], None)"
| "serve_loop msg (None # _) = ([], Some msg)"
| "serve_loop msg (Some (Inl _) # rest) = serve_loop msg rest"
| "serve_loop msg (Some (Inr s) # rest) = (let (ss, e) = serve_loop msg rest in (s # ss, e))"

definition client_serve :: "('a \<Rightarrow> string) \<Rightarrow> ('a, 's) incoming list \<Rightarrow> 's list \<times> string option" where
  "client_serve show_addr ats = serve_loop ''client listener closed'' (map (listener_accept show_addr) ats)"

definition cluster_serve :: "('a \<Rightarrow> string) \<Rightarrow> ('a, 's) incoming list \<Rightarrow> 's list \<times> string option" where
  "cluster_serve show_addr ats = serve_loop ''cluster listener closed'' (map (listener_accept show_addr) ats)"

section \<open>Lemmas\<close>

lemma serve_loop_spec:
  "serve_loop msg rs =
     (List.map_filter (\<lambda>r. case r of Some (Inr s) \<Rightarrow> Some s | _ \<Rightarrow> None) (takeWhile (\<lambda>r. r \<noteq> None) rs),
      if None \<in> set rs then Some msg else None)"
  by (induction msg rs rule: serve_loop.induct) (auto simp: map_filter_simps)

text \<open>A listener serves every session whose handshake succeeded before its endpoint closed; a failed handshake
  ends nothing, and only the closed endpoint ends the loop.\<close>
theorem refused_handshake_stops_nothing:
  "case client_serve show_addr ats of (ss, ended) \<Rightarrow>
     ss = List.map_filter (\<lambda>i. case i of Attempt _ (Inr s) \<Rightarrow> Some s | _ \<Rightarrow> None) (takeWhile (\<lambda>i. i \<noteq> Endpoint_closed) ats)
     \<and> ended = (if Endpoint_closed \<in> set ats then Some ''client listener closed'' else None)
     \<and> cluster_serve show_addr ats = (ss, map_option (\<lambda>_. ''cluster listener closed'') ended)"
proof -
  have n: "listener_accept show_addr i = None \<longleftrightarrow> i = Endpoint_closed" for i
    by (auto simp: listener_accept_def split: incoming.split)
  have m: "(None \<in> set (map (listener_accept show_addr) ats)) = (Endpoint_closed \<in> set ats)"
    by (induction ats) (auto simp: n eq_commute [of None])
  have s: "List.map_filter (\<lambda>r. case r of Some (Inr s) \<Rightarrow> Some s | _ \<Rightarrow> None)
        (takeWhile (\<lambda>r. r \<noteq> None) (map (listener_accept show_addr) ats))
      = List.map_filter (\<lambda>i. case i of Attempt _ (Inr s) \<Rightarrow> Some s | _ \<Rightarrow> None) (takeWhile (\<lambda>i. i \<noteq> Endpoint_closed) ats)"
    by (induction ats) (auto simp: map_filter_simps n listener_accept_def context_of_def split: incoming.split sum.split option.split)
  show ?thesis
    unfolding client_serve_def cluster_serve_def serve_loop_spec m s by simp
qed

text \<open>A family's socket is made once and then used by every later dial; a failed bind is tried again.\<close>
lemma socket_made_once:
  assumes "dial_endpoint client fam d = (Inr e, d')"
  shows "dl_cell fam d' = Some e \<and> dial_endpoint client' fam d' = (Inr e, d')
    \<and> (fam' \<noteq> fam \<longrightarrow> dl_cell fam' d' = dl_cell fam' d)"
proof -
  have "dl_cell fam (set_cell fam e d) = Some e" "fam' \<noteq> fam \<longrightarrow> dl_cell fam' (set_cell fam e d) = dl_cell fam' d"
    by (cases fam; cases fam'; simp)+
  with assms show ?thesis by (auto simp: dial_endpoint_def split: option.splits sum.splits)
qed

lemma dial_keeps_cfg: "dl_cfg (snd (quic_dial w family show_addr show_dur addr host t d)) = dl_cfg d"
proof -
  have "dl_cfg (set_cell f e d) = dl_cfg d" for f e by (cases f) auto
  then show ?thesis by (simp add: quic_dial_def Let_def dial_endpoint_def split_beta split: option.split sum.split)
qed

text \<open>Both ends offer and accept the one protocol of this version, and both keep the connection alive four times
  within the time after which it counts as dead.\<close>
theorem peers_speak_the_same_protocol:
  assumes "quic_cfg_of ''server'' to_idle crypto server_tls = Some (Inr sc)"
    and "dialer_new to_idle crypto client_tls = Some (Inr d)" "to_idle idle = Some idle"
  shows "qc_alpn sc = qc_alpn (dl_cfg d) \<and> qc_alpn sc = [alpn] \<and> qc_transport sc = qc_transport (dl_cfg d)
    \<and> (\<exists>k i. tr_keep_alive (qc_transport sc) = Some k \<and> tr_max_idle (qc_transport sc) = Some i \<and> 4 * k \<le> i)"
  using assms
  by (auto simp: quic_cfg_of_def dialer_new_def quic_transport_def keep_alive_def idle_def secs_def context_of_def
      split: sum.splits)

end
