(* ===== verification/MemberLink.thy ===== *)
theory MemberLink
  imports Carrier
begin

text \<open>
  The cluster sessions of the members (\<open>crates/controller/src/gossip.rs\<close>): the handler of a member's
  session, one push over a stream, and the rounds of \<open>gossip_loop\<close>, whose pushes run concurrently. The JSON
  codec, the dials, the clock and the loss of a stream are arguments.
\<close>

section \<open>Messages\<close>

datatype member_request = Exchange exchange_req
datatype member_reply = Exchanged exchange_resp

definition push_timeout :: nat where
  "push_timeout = secs 10"

definition member_dial_timeout :: nat where
  "member_dial_timeout = secs 3"

section \<open>The serving side\<close>

text \<open>One stream of a member: the request is merged before the answer is written, so an answer that cannot be
  written does not undo the merge.\<close>

definition serve_member ::
  "(byte list \<Rightarrow> member_request option) \<Rightarrow> (member_reply \<Rightarrow> byte list option) \<Rightarrow> nat \<Rightarrow> byte list \<Rightarrow> app_state
    \<Rightarrow> (frame_error + byte list) \<times> app_state" where
  "serve_member dec enc now stream st =
     (case read_frame dec stream of
        Inl e \<Rightarrow> (Inl e, st)
      | Inr (Exchange req, _) \<Rightarrow>
          let (resp, st) = exchange now req st in (write_frame enc (Exchanged resp) [], st))"

text \<open>The session's loop ends with a reason when no stream can be accepted or the session is closed; until then
  every stream is a task of its own.\<close>

datatype member_event = Stream_in "byte list" | Accept_failed string | Session_closed string

fun handle_member :: "member_event list \<Rightarrow> byte list list \<times> string option" where
  "handle_member [] = ([], None)"
| "handle_member (Stream_in b # es) = (let (bs, r) = handle_member es in (b # bs, r))"
| "handle_member (Accept_failed e # es) = ([], Some e)"
| "handle_member (Session_closed r # es) = ([], Some r)"

section \<open>One push\<close>

text \<open>The request over a stream of a session; \<open>peer\<close> is what the member does with the bytes.\<close>

definition member_request_over ::
  "(member_request \<Rightarrow> byte list option) \<Rightarrow> (byte list \<Rightarrow> member_reply option) \<Rightarrow> (byte list \<Rightarrow> frame_error + byte list)
    \<Rightarrow> (frame_error \<Rightarrow> string) \<Rightarrow> member_request \<Rightarrow> string + member_reply" where
  "member_request_over enc dec peer show_err req = map_sum show_err id (request enc dec peer req)"

definition timed_out :: string where
  "timed_out = ''timed out after '' @ show_nat (push_timeout div 1000000000) @ ''s''"

text \<open>An exchange that overruns its bound counts as failed, whether it was dialling or waiting, and a session it
  had or made is dropped.\<close>

definition bounded_exchange ::
  "string \<Rightarrow> bool \<Rightarrow> string + session_handle \<Rightarrow> (session_handle \<Rightarrow> string + exchange_resp) \<Rightarrow> fabric
    \<Rightarrow> (string + exchange_resp) \<times> fabric" where
  "bounded_exchange name in_time dialled ask f =
     (if in_time then fabric_exchange name dialled ask f
      else (Inl timed_out, snd (drop_session name f)))"

section \<open>The rounds\<close>

text \<open>A push in flight: the member, the watermark its samples reach, and the request.\<close>

record push =
  pu_name :: string
  pu_ack :: nat
  pu_req :: exchange_req

record gossip_state =
  gs_st :: app_state
  gs_fabric :: fabric
  gs_records :: "(link_key \<times> quality_record) list"
  gs_todo :: "string list"
  gs_flying :: "push list"

definition gossip_interval :: "app_state \<Rightarrow> nat" where
  "gossip_interval st = max (cl_gossip_interval_secs (cf_cluster (as_cfg st))) 1"

text \<open>A tick takes the records once and spawns a push per member; the loop waits for all of them before the
  next tick.\<close>

definition gossip_tick :: "gossip_state \<Rightarrow> gossip_state" where
  "gossip_tick g =
     (if gs_todo g = [] \<and> gs_flying g = []
      then g\<lparr>gs_records := kv_all (as_kv (gs_st g)), gs_todo := gossip_targets (gs_st g)\<rparr> else g)"

definition push_begin :: "string \<Rightarrow> gossip_state \<Rightarrow> gossip_state" where
  "push_begin name g =
     (if name \<in> set (gs_todo g)
      then let (req, ack) = push_request name (gs_records g) (gs_st g)
           in g\<lparr>gs_todo := remove1 name (gs_todo g),
                gs_flying := \<lparr>pu_name = name, pu_ack = ack, pu_req = req\<rparr> # gs_flying g\<rparr>
      else g)"

definition push_end ::
  "push \<Rightarrow> nat \<Rightarrow> nat \<Rightarrow> bool \<Rightarrow> string + session_handle \<Rightarrow> (session_handle \<Rightarrow> string + exchange_resp) \<Rightarrow> gossip_state
    \<Rightarrow> gossip_state" where
  "push_end p elapsed now in_time dialled ask g =
     (if p \<in> set (gs_flying g)
      then let (res, f) = bounded_exchange (pu_name p) in_time dialled ask (gs_fabric g)
           in g\<lparr>gs_fabric := f, gs_flying := remove1 p (gs_flying g),
                gs_st := push_outcome (pu_name p) (pu_ack p) elapsed now res (gs_st g)\<rparr>
      else g)"

text \<open>Everything else of the daemon changes the state between the steps, but not its configuration.\<close>

inductive gossip_step :: "gossip_state \<Rightarrow> gossip_state \<Rightarrow> bool" where
  tick: "gossip_step g (gossip_tick g)"
| started: "gossip_step g (push_begin name g)"
| ended: "gossip_step g (push_end p elapsed now in_time dialled ask g)"
| elsewhere: "as_cfg st' = as_cfg (gs_st g) \<Longrightarrow> gossip_step g (g\<lparr>gs_st := st'\<rparr>)"

inductive_cases gossip_stepE: "gossip_step g g'"

section \<open>A push on the wire\<close>

text \<open>One push of a member and its outcome, with the bytes in between.\<close>

definition answer_of :: "string + member_reply \<Rightarrow> string + exchange_resp" where
  "answer_of r = map_sum id (\<lambda>m. case m of Exchanged v \<Rightarrow> v) r"

definition wire_round ::
  "(member_request \<Rightarrow> byte list option) \<Rightarrow> (byte list \<Rightarrow> member_request option)
    \<Rightarrow> (member_reply \<Rightarrow> byte list option) \<Rightarrow> (byte list \<Rightarrow> member_reply option) \<Rightarrow> (frame_error \<Rightarrow> string)
    \<Rightarrow> string \<Rightarrow> nat \<Rightarrow> nat \<Rightarrow> app_state \<times> app_state \<Rightarrow> app_state \<times> app_state" where
  "wire_round encq decq encr decr show_err name el now = (\<lambda>(a, b).
     let (req, ack) = push_request name (kv_all (as_kv a)) a;
         res = member_request_over encq decr (\<lambda>bytes. fst (serve_member decq encr now bytes b)) show_err (Exchange req);
         b' = (case write_frame encq (Exchange req) [] of
                 Inr bytes \<Rightarrow> snd (serve_member decq encr now bytes b)
               | Inl _ \<Rightarrow> b)
     in (push_outcome name ack el now (answer_of res) a, b'))"

definition fits :: "('m \<Rightarrow> byte list option) \<Rightarrow> 'm \<Rightarrow> bool" where
  "fits enc m = (case enc m of Some b \<Rightarrow> length b \<le> max_frame | None \<Rightarrow> False)"

lemma write_frame_fits: "fits enc m \<longleftrightarrow> (\<exists>w. write_frame enc m [] = Inr w)"
  by (auto simp: fits_def write_frame_def split: option.split)

lemma read_written_frame:
  assumes "\<And>v b. enc v = Some b \<Longrightarrow> dec b = Some v" "write_frame enc m [] = Inr w"
  shows "read_frame dec w = Inr (m, [])"
proof -
  obtain body where b: "enc m = Some body" "length body \<le> max_frame" "w = be32 (length body mod 2 ^ 32) @ body"
    using write_frame_SomeD [OF assms(2)] by auto
  show ?thesis
    unfolding b(3) using read_frame_append [of dec body m "[]"] assms(1) [OF b(1)] b(2) by simp
qed


section \<open>The rounds of a member\<close>

definition push_names :: "gossip_state \<Rightarrow> string list" where
  "push_names g = gs_todo g @ map pu_name (gs_flying g)"

definition rounds_ok :: "gossip_state \<Rightarrow> bool" where
  "rounds_ok g \<longleftrightarrow> distinct (push_names g) \<and> set (push_names g) \<subseteq> set (gossip_targets (gs_st g))
     \<and> distinct (cf_members (as_cfg (gs_st g)))"

lemma cfg_learn_nodes [simp]: "as_cfg (learn_nodes now nodes st) = as_cfg st"
  by (simp add: learn_nodes_def sync_directory_def split_beta Let_def)

lemma cfg_push_outcome [simp]: "as_cfg (push_outcome name ack el now res st) = as_cfg st"
  by (simp add: push_outcome_def Let_def split: sum.split)

lemma targets_cfg: "as_cfg st = as_cfg st' \<Longrightarrow> gossip_targets st = gossip_targets st'"
  by (simp add: gossip_targets_def)

lemma distinct_map_remove1: "distinct (map f xs) \<Longrightarrow> distinct (map f (remove1 x xs))"
  by (induction xs) (auto dest: notin_set_remove1 in_set_remove1 [THEN iffD1, rotated] set_remove1_subset [THEN subsetD])

lemma rounds_ok_step:
  assumes "rounds_ok g" "gossip_step g g'"
  shows "rounds_ok g'"
  using assms(2)
proof cases
  case tick
  with assms(1) show ?thesis
    by (auto simp: rounds_ok_def gossip_tick_def push_names_def gossip_targets_def)
next
  case (started name)
  have "name \<in> set (gs_todo g) \<Longrightarrow> mset (push_names (push_begin name g)) = mset (push_names g)"
    by (simp add: push_names_def push_begin_def split_beta Let_def)
  moreover have "gs_st (push_begin name g) = gs_st g" by (simp add: push_begin_def split_beta Let_def)
  ultimately show ?thesis using assms(1) started
    by (cases "name \<in> set (gs_todo g)") (auto simp: rounds_ok_def push_begin_def dest: mset_eq_imp_distinct_iff mset_eq_setD)
next
  case (ended p elapsed now in_time dialled ask)
  show ?thesis
  proof (cases "p \<in> set (gs_flying g)")
    case True
    let ?g = "push_end p elapsed now in_time dialled ask g"
    have names: "push_names ?g = gs_todo g @ map pu_name (remove1 p (gs_flying g))"
      and cfg: "as_cfg (gs_st ?g) = as_cfg (gs_st g)"
      using True by (simp_all add: push_end_def push_names_def split_beta Let_def)
    have sub: "set (map pu_name (remove1 p (gs_flying g))) \<subseteq> set (map pu_name (gs_flying g))"
      using set_remove1_subset by fastforce
    have ok: "distinct (gs_todo g @ map pu_name (gs_flying g))"
      "set (gs_todo g @ map pu_name (gs_flying g)) \<subseteq> set (gossip_targets (gs_st g))"
      "distinct (cf_members (as_cfg (gs_st g)))"
      using assms(1) by (simp_all add: rounds_ok_def push_names_def)
    have "distinct (push_names ?g)" unfolding names using ok(1) sub by (auto simp: distinct_map_remove1)
    moreover have "set (push_names ?g) \<subseteq> set (gossip_targets (gs_st ?g))"
      unfolding names targets_cfg [OF cfg] using ok(2) sub by auto
    ultimately show ?thesis using ok(3) ended by (simp add: rounds_ok_def cfg)
  next
    case False
    with assms(1) ended show ?thesis by (simp add: push_end_def)
  qed
next
  case (elsewhere st')
  with assms(1) show ?thesis
    by (simp add: rounds_ok_def push_names_def gossip_targets_def)
qed

text \<open>C23: however the pushes of a round interleave, at most one exchange per member is on the way, and none with
  the member itself.\<close>
theorem one_push_per_member:
  assumes "distinct (cf_members (as_cfg (gs_st g)))" "gs_todo g = []" "gs_flying g = []" "gossip_step\<^sup>*\<^sup>* g g'"
  shows "distinct (map pu_name (gs_flying g')) \<and> cf_node (as_cfg (gs_st g')) \<notin> pu_name ` set (gs_flying g')"
proof -
  have "rounds_ok g" using assms(1-3) by (simp add: rounds_ok_def push_names_def)
  with assms(4) have "rounds_ok g'" by (rule run_invariant) (rule rounds_ok_step)
  then show ?thesis by (auto simp: rounds_ok_def push_names_def gossip_targets_def)
qed

section \<open>Witnesses\<close>

text \<open>A codec that knows one message.\<close>

definition enc_one :: "'m \<Rightarrow> 'm \<Rightarrow> byte list option" where
  "enc_one m v = (if v = m then Some [1] else None)"

definition dec_one :: "'m \<Rightarrow> byte list \<Rightarrow> 'm option" where
  "dec_one m b = (if b = [1] then Some m else None)"

definition demo_request :: exchange_req where
  "demo_request = fst (push_request ''hub-b'' (kv_all (as_kv new_state)) new_state)"

definition demo_answer :: exchange_resp where
  "demo_answer = fst (exchange 100 demo_request member_state)"


definition idle_rounds :: gossip_state where
  "idle_rounds = \<lparr>gs_st = new_state\<lparr>as_cfg := (as_cfg new_state)\<lparr>cf_members := [''hub-a'', ''hub-b'', ''hub-c'']\<rparr>\<rparr>,
     gs_fabric = [], gs_records = [], gs_todo = [], gs_flying = []\<rparr>"

theorem one_push_per_member_witness:
  "map pu_name (gs_flying (push_begin ''hub-b'' (push_begin ''hub-c'' (push_begin ''hub-b'' (gossip_tick idle_rounds)))))
     = [''hub-c'', ''hub-b'']
   \<and> distinct (map pu_name (gs_flying (push_begin ''hub-b'' (push_begin ''hub-c'' (push_begin ''hub-b'' (gossip_tick idle_rounds))))))"
proof
  let ?g = "push_begin ''hub-b'' (push_begin ''hub-c'' (push_begin ''hub-b'' (gossip_tick idle_rounds)))"
  show "map pu_name (gs_flying ?g) = [''hub-c'', ''hub-b'']" by code_simp
  have "gossip_step\<^sup>*\<^sup>* idle_rounds ?g"
    by (meson gossip_step.tick gossip_step.started rtranclp.rtrancl_into_rtrancl rtranclp.rtrancl_refl)
  from one_push_per_member [OF _ _ _ this] show "distinct (map pu_name (gs_flying ?g))"
    by (simp add: idle_rounds_def)
qed

end
