(* ===== verification/AgentDaemon.thy ===== *)
theory AgentDaemon
  imports Carrier
begin

text \<open>
  The agent as a program (\<open>crates/agent/src/main.rs\<close>): its start and exit, the metrics file
  (\<open>write_textfile\<close> of \<open>metrics.rs\<close>), the marking task with its log (\<open>marker_loop\<close>), and the labels of a
  command stream and the refusals of a hello (\<open>session.rs\<close>). Files, processes, signals and libraries are
  arguments.
\<close>

section \<open>The metrics file\<close>

text \<open>A write that fails may leave any text behind (\<open>Inl\<close> carries the error and that text); a rename
  replaces the target or fails without effect.\<close>

record file_world =
  fw_write :: "string \<Rightarrow> (string \<times> string) + unit"
  fw_rename :: "string + unit"

definition tmp_path :: "string \<Rightarrow> string" where
  "tmp_path path = path @ ''.tmp''"

definition write_textfile :: "file_world \<Rightarrow> string \<Rightarrow> string \<Rightarrow> (string, string) hmap \<Rightarrow> (string + unit) \<times> (string, string) hmap" where
  "write_textfile w path body fs =
     (case fw_write w body of
        Inl (e, left) \<Rightarrow> (Inl e, hm_insert (tmp_path path) left fs)
      | Inr _ \<Rightarrow>
          let fs = hm_insert (tmp_path path) body fs
          in (case fw_rename w of
                Inl e \<Rightarrow> (Inl e, fs)
              | Inr _ \<Rightarrow> (Inr (), hm_insert path body (hm_remove (tmp_path path) fs))))"

text \<open>A failure is a line of the log and nothing else.\<close>

definition write_metrics ::
  "file_world \<Rightarrow> (f64 \<Rightarrow> string) \<Rightarrow> agent \<Rightarrow> (string, string) hmap \<Rightarrow> string list \<times> (string, string) hmap" where
  "write_metrics w show a fs =
     (case ac_prometheus_textfile (ag_cfg a) of
        None \<Rightarrow> ([], fs)
      | Some path \<Rightarrow>
          (case write_textfile w path (concat (map script_line (render_metrics show a))) fs of
             (Inl e, fs) \<Rightarrow> ([''metrics textfile '' @ path @ '': '' @ e], fs)
           | (Inr _, fs) \<Rightarrow> ([], fs)))"

section \<open>The marking task\<close>

record marker_log =
  ml_last :: "string option"
  ml_errors :: nat
  ml_warned :: "string list"

definition report_error :: "string \<Rightarrow> marker_log \<Rightarrow> marker_log" where
  "report_error msg l =
     (let errors = add32 (ml_errors l) 1
      in l\<lparr>ml_errors := errors, ml_last := Some msg,
           ml_warned := (if ml_last l \<noteq> Some msg \<or> errors mod 60 = 1 then ml_warned l @ [msg] else ml_warned l)\<rparr>)"

definition flip_error :: "nat \<Rightarrow> string \<Rightarrow> string" where
  "flip_error n e = chain (''marking: assert block '' @ show_nat n) e"

text \<open>Why a read fails: no listing, or a set of the colour is not in it.\<close>

definition read_error :: "string + json \<Rightarrow> marker \<Rightarrow> mark_error + read_outcome \<Rightarrow> string option" where
  "read_error listing m res =
     (case listing of
        Inl e \<Rightarrow> Some (chain ''marking: list sets'' e)
      | Inr _ \<Rightarrow> (case res of
          Inl (Missing_set name) \<Rightarrow>
            Some (''marking: set '' @ name @ '' missing from '' @ mk_table m @ '' (include not loaded?)'')
        | _ \<Rightarrow> None))"

text \<open>One turn of the loop: the clock at its start, the instant the block ended, and the two runs of nft.\<close>

record mark_world =
  mw_now :: f64
  mw_ended :: nat
  mw_flip :: nft_world
  mw_read :: nft_world

definition mark_flip :: "mark_world \<Rightarrow> marker \<Rightarrow> agent \<Rightarrow> string + unit" where
  "mark_flip w m a = cli_flip (mw_flip w) m (agent_interfaces a) (block_of m (mw_now w) + 1)"

definition mark_turn ::
  "(string \<Rightarrow> string + json) \<Rightarrow> mark_world \<Rightarrow> (marker \<times> agent) \<times> marker_log \<Rightarrow> (marker \<times> agent) \<times> marker_log" where
  "mark_turn parse w = (\<lambda>((m, a), l).
     let flipped = mark_flip w m a;
         (e, a1) = block_boundary (mw_now w) (mw_ended w) (flipped = Inr ()) m a;
         l1 = (case flipped of Inl err \<Rightarrow> report_error (flip_error (eb_n e + 1) err) l | Inr _ \<Rightarrow> l);
         listing = nft_list_sets parse (mw_read w) (mk_family m);
         reply = (case listing of Inr v \<Rightarrow> Some v | Inl _ \<Rightarrow> None);
         res = fst (read_block (eb_ifaces e) (eb_n e) (overlapped (ag_gate a1) (eb_started e) (eb_ended e)) reply
                      (m\<lparr>mk_queue := ag_blocks a1\<rparr>));
         st = block_readout e reply (m, a1)
     in (st, case read_error listing m res of
               Some err \<Rightarrow> report_error err l1
             | None \<Rightarrow> l1\<lparr>ml_last := None\<rparr>))"

section \<open>The session's labels and refusals\<close>

fun command_id :: "work_cmd \<Rightarrow> string" where
  "command_id (Probe i _ _ _ _) = i"
| "command_id (ApplyCost i _ _ _) = i"
| "command_id (Trace i _ _) = i"

fun cmd_traceparent :: "work_cmd \<Rightarrow> string option" where
  "cmd_traceparent (Probe _ _ _ _ tp) = tp"
| "cmd_traceparent (ApplyCost _ _ _ tp) = tp"
| "cmd_traceparent (Trace _ _ tp) = tp"

fun tier_debug :: "tier \<Rightarrow> string" where
  "tier_debug Always = ''Always''"
| "tier_debug Throughput = ''Throughput''"

fun agent_cmd_kind :: "work_cmd \<Rightarrow> string" where
  "agent_cmd_kind (Probe _ t _ link _) = ''probe/'' @ tier_debug t @ '' '' @ lk_iface link"
| "agent_cmd_kind (ApplyCost _ link cost _) = ''apply_cost '' @ lk_iface link @ '' '' @ show_nat cost"
| "agent_cmd_kind (Trace _ target _) = ''trace '' @ target"

text \<open>The controller's labels of the same commands.\<close>

fun cmd_kind :: "work_cmd \<Rightarrow> string" where
  "cmd_kind (Probe _ Always _ _ _) = ''probe/always''"
| "cmd_kind (Probe _ Throughput _ _ _) = ''probe/throughput''"
| "cmd_kind (ApplyCost _ _ _ _) = ''apply_cost''"
| "cmd_kind (Trace _ _ _) = ''trace''"

definition hello_timeout :: nat where
  "hello_timeout = secs 10"

definition dial_timeout :: nat where
  "dial_timeout = secs 3"

text \<open>A hello: the error it ends with, or the links the controller acknowledged.\<close>

definition hello_result :: "string + register_resp \<Rightarrow> link_key list \<Rightarrow> string + link_key list" where
  "hello_result answer links =
     bind_sum (context_of ''register'' answer) (\<lambda>resp.
       if rs_ok resp then Inr links
       else Inl (''controller refused: '' @ (case rs_error resp of Some e \<Rightarrow> e | None \<Rightarrow> [])))"

section \<open>Start and exit\<close>

datatype agent_task = Refresher_task | Metrics_task | Marker_task nat string | Session_task

text \<open>What the start meets: the configuration of ubus, the subscriber, the identity, the dialer and the signal
  handlers.\<close>

record agent_world =
  aw_config :: "string + agent_cfg"
  aw_rust_log :: "string option"
  aw_subscriber :: "plan \<Rightarrow> string + unit"
  aw_identity :: "agent_cfg \<Rightarrow> string + unit"
  aw_dialer :: "string + unit"
  aw_sigterm :: "string + unit"
  aw_sigint :: "string + unit"

definition spawned_tasks :: "agent_cfg \<Rightarrow> agent_task list" where
  "spawned_tasks cfg = [Refresher_task] @ (if ac_prometheus_textfile cfg \<noteq> None then [Metrics_task] else [])
     @ (if ac_mark_enabled cfg then [Marker_task (ac_mark_block cfg) (ac_mark_table cfg)] else []) @ [Session_task]"

definition agent_start :: "agent_world \<Rightarrow> string + agent_cfg \<times> agent_task list" where
  "agent_start w =
     bind_sum (aw_config w) (\<lambda>cfg.
     bind_sum (context_of ''telemetry'' (bind_sum (init_telemetry (aw_rust_log w) cfg) (aw_subscriber w))) (\<lambda>_.
     bind_sum (aw_identity w cfg) (\<lambda>_.
     bind_sum (context_of ''QUIC dialer'' (aw_dialer w)) (\<lambda>_.
     bind_sum (context_of ''SIGTERM handler'' (aw_sigterm w)) (\<lambda>_.
     bind_sum (context_of ''SIGINT handler'' (aw_sigint w)) (\<lambda>_.
       Inr (cfg, spawned_tasks cfg)))))))"

text \<open>What the process prints on each stream, and its exit status; a running agent ends by a signal.\<close>

record process_end =
  pe_stdout :: "string list"
  pe_stderr :: "string list"
  pe_status :: nat

definition agent_main :: "string \<Rightarrow> string list \<Rightarrow> agent_world \<Rightarrow> process_end" where
  "agent_main version args w =
     (if seq_get args 1 = Some ''--version''
      then \<lparr>pe_stdout = [''mielofon-agent '' @ version], pe_stderr = [], pe_status = 0\<rparr>
      else case agent_start w of
             Inr _ \<Rightarrow> \<lparr>pe_stdout = [], pe_stderr = [], pe_status = 0\<rparr>
           | Inl e \<Rightarrow> \<lparr>pe_stdout = [], pe_stderr = [''mielofon-agent: '' @ e], pe_status = 1\<rparr>)"

section \<open>Lemmas\<close>

text \<open>Whoever reads the metrics file sees a whole page, the old one or the new one: no failure leaves a part of
  a page under its name.\<close>
theorem textfile_atomic:
  "case write_textfile w path body fs of (r, fs') \<Rightarrow>
     hm_get fs' path = (if r = Inr () then Some body else hm_get fs path)
     \<and> (\<forall>p. p \<noteq> path \<and> p \<noteq> tmp_path path \<longrightarrow> hm_get fs' p = hm_get fs p)
     \<and> (r = Inr () \<longrightarrow> hm_get fs' (tmp_path path) = None)"
proof -
  have "tmp_path path \<noteq> path" by (simp add: tmp_path_def)
  then show ?thesis
    by (auto simp: write_textfile_def Let_def split: sum.split prod.split)
qed

text \<open>Reports of one error alone: the first is logged and then one in sixty.\<close>

definition fresh_log :: marker_log where
  "fresh_log = \<lparr>ml_last = None, ml_errors = 0, ml_warned = []\<rparr>"

lemma report_same:
  assumes "k < 2 ^ 32" "0 < k"
  shows "(report_error msg ^^ k) fresh_log
    = \<lparr>ml_last = Some msg, ml_errors = k, ml_warned = replicate ((k + 59) div 60) msg\<rparr>"
  using assms
proof (induction k)
  case (Suc k)
  show ?case
  proof (cases "k = 0")
    case True
    then show ?thesis by (simp add: report_error_def fresh_log_def add32_def)
  next
    case False
    with Suc have IH: "(report_error msg ^^ k) fresh_log
      = \<lparr>ml_last = Some msg, ml_errors = k, ml_warned = replicate ((k + 59) div 60) msg\<rparr>" by simp
    have a: "add32 k 1 = Suc k" using Suc.prems by (simp add: add32_def)
    have "Suc k mod 60 = 1 \<longleftrightarrow> k mod 60 = 0" by presburger
    moreover have "(Suc k + 59) div 60 = (if k mod 60 = 0 then Suc ((k + 59) div 60) else (k + 59) div 60)"
    proof -
      define q r where "q = k div 60" and "r = k mod 60"
      have k: "k = 60 * q + r" "r < 60" by (simp_all add: q_def r_def)
      have "(60 * q + r + 59) div 60 = (if r = 0 then q else Suc q)"
        by (rule div_nat_eqI) (use k(2) in auto)
      moreover have "(k + 60) div 60 = Suc q" by (simp add: q_def)
      ultimately show ?thesis unfolding r_def [symmetric] by (simp add: k(1) [symmetric])
    qed
    ultimately show ?thesis
      unfolding funpow.simps comp_apply IH by (auto simp: report_error_def Let_def a [unfolded One_nat_def] replicate_append_same)
  qed
qed simp

theorem repeated_error_logged_rarely:
  assumes "k < 2 ^ 32" "0 < k"
  shows "length (ml_warned ((report_error msg ^^ k) fresh_log)) = (k + 59) div 60"
  by (simp add: report_same [OF assms])

text \<open>The error of a switch names its block, and the two errors of a turn differ, so when both fail none is held
  back: a node without nft logs twice per block for ever.\<close>

definition calm :: "marker_log \<Rightarrow> bool" where
  "calm l \<longleftrightarrow> (case ml_last l of None \<Rightarrow> True | Some msg \<Rightarrow> take 10 msg \<noteq> ''marking: a'')"

definition no_nft :: "mark_world \<Rightarrow> bool" where
  "no_nft w \<longleftrightarrow> (\<exists>e. nw_spawn (mw_flip w) = Inl e) \<and> (\<exists>e. nw_spawn (mw_read w) = Inl e)"

lemma mark_turn_without_nft:
  assumes "no_nft w" "calm l"
  shows "length (ml_warned (snd (mark_turn parse w ((m, a), l)))) = length (ml_warned l) + 2
    \<and> calm (snd (mark_turn parse w ((m, a), l)))"
proof -
  obtain e1 e2 where e: "nw_spawn (mw_flip w) = Inl e1" "nw_spawn (mw_read w) = Inl e2"
    using assms(1) by (auto simp: no_nft_def)
  obtain f where f: "mark_flip w m a = Inl f"
    by (simp add: mark_flip_def cli_flip_def nft_apply_def nft_run_def Let_def e)
  obtain r where r: "nft_list_sets parse (mw_read w) (mk_family m) = Inl r"
    by (simp add: nft_list_sets_def nft_run_def Let_def e)
  have t: "take 10 (flip_error n x) = ''marking: a''" "take 10 (chain ''marking: list sets'' x) = ''marking: l''" for n x
    by (simp_all add: flip_error_def chain_def)
  have d: "flip_error n x \<noteq> chain ''marking: list sets'' y" for n x y using t(1) [of n x] t(2) [of y] by auto
  have n: "ml_last l \<noteq> Some (flip_error n x)" for n x
    using assms(2) t(1) [of n x] by (auto simp: calm_def)
  show ?thesis
    using n d by (auto simp: mark_turn_def f r split_beta Let_def read_error_def report_error_def calm_def t)
qed

theorem missing_nft_floods_log:
  assumes "list_all no_nft ws"
  shows "length (ml_warned (snd (fold (mark_turn parse) ws (st, fresh_log)))) = 2 * length ws"
proof -
  have "calm l \<Longrightarrow> length (ml_warned (snd (fold (mark_turn parse) ws (st, l)))) = length (ml_warned l) + 2 * length ws" for st l
    using assms
  proof (induction ws arbitrary: st l)
    case (Cons w ws)
    obtain m a where st: "st = (m, a)" by (cases st)
    from Cons.prems have "no_nft w" by simp
    from mark_turn_without_nft [OF this Cons.prems(1), of parse m a] Cons.prems(2) show ?case
      using Cons.IH [of "snd (mark_turn parse w ((m, a), l))" "fst (mark_turn parse w ((m, a), l))"] by (simp add: st)
  qed simp
  moreover have "calm fresh_log" "ml_warned fresh_log = []" by (simp_all add: fresh_log_def calm_def)
  ultimately show ?thesis by simp
qed

text \<open>The marking state does not depend on the log, and a turn is the two halves of a block over the nft command.\<close>
lemma mark_turn_state:
  "fst (mark_turn parse w ((m, a), l)) =
     (let (e, a1) = block_boundary (mw_now w) (mw_ended w) (mark_flip w m a = Inr ()) m a
      in block_readout e (case nft_list_sets parse (mw_read w) (mk_family m) of Inr v \<Rightarrow> Some v | Inl _ \<Rightarrow> None) (m, a1))"
  by (simp add: mark_turn_def split_beta Let_def)

text \<open>A hello registers exactly when the session model accepts its links.\<close>
lemma hello_result_accepted:
  "accepted_links (case answer of Inr r \<Rightarrow> Some r | Inl _ \<Rightarrow> None) links rt =
     (case hello_result answer links of Inr ls \<Rightarrow> Some (rt\<lparr>rt_registered := ls\<rparr>) | Inl _ \<Rightarrow> None)"
  by (simp add: accepted_links_def hello_result_def split: sum.split)

text \<open>The exit status tells a failed start from a stop, and an agent that could not start says why.\<close>
lemma exit_status:
  assumes "seq_get args 1 \<noteq> Some ''--version''"
  shows "pe_status (agent_main version args w) = (case agent_start w of Inl _ \<Rightarrow> 1 | Inr _ \<Rightarrow> 0)
    \<and> (pe_stderr (agent_main version args w) = [] \<longleftrightarrow> (\<exists>r. agent_start w = Inr r))"
  using assms by (simp add: agent_main_def split: sum.split)

text \<open>A started agent runs with a configuration within its bounds, has an identity and a dialer, and marks
  exactly when it is configured to.\<close>
lemma started_tasks:
  assumes "agent_start w = Inr (cfg, tasks)"
  shows "aw_config w = Inr cfg \<and> aw_identity w cfg = Inr () \<and> Session_task \<in> set tasks \<and> Refresher_task \<in> set tasks
    \<and> (Metrics_task \<in> set tasks \<longleftrightarrow> ac_prometheus_textfile cfg \<noteq> None)
    \<and> ((\<exists>b t. Marker_task b t \<in> set tasks) \<longleftrightarrow> ac_mark_enabled cfg)"
  using assms by (auto simp: agent_start_def bind_sum_Inr_iff spawned_tasks_def)

section \<open>Witnesses\<close>

theorem repeated_error_logged_rarely_witness:
  "length (ml_warned ((report_error ''nft: gone'' ^^ 61) fresh_log)) = 2"
  using repeated_error_logged_rarely [of 61 "''nft: gone''"] by simp

definition nft_absent :: nft_world where
  "nft_absent = \<lparr>nw_spawn = Inl ''No such file or directory'', nw_write = (\<lambda>_. Inr ()), nw_end = (\<lambda>_. Overran)\<rparr>"

definition absent_turn :: mark_world where
  "absent_turn = \<lparr>mw_now = Fin 5, mw_ended = 0, mw_flip = nft_absent, mw_read = nft_absent\<rparr>"

theorem missing_nft_floods_log_witness:
  "length (ml_warned (snd (fold (mark_turn (\<lambda>_. Inl ''json'')) (replicate 360 absent_turn) (st, fresh_log)))) = 720"
proof -
  have "list_all no_nft (replicate 360 absent_turn)"
    by (simp add: list_all_iff no_nft_def absent_turn_def nft_absent_def)
  from missing_nft_floods_log [OF this] show ?thesis by simp
qed

end
