(* ===== verification/PingSocket.thy ===== *)
theory PingSocket
  imports Window Discover
begin

text \<open>
  The raw socket of a probed link (\<open>open_socket\<close>, \<open>recv_stamped\<close>, \<open>if_index\<close> of \<open>crates/agent/src/icmp.rs\<close>) and
  the whole ping loop around the rounds of theory Window: a socket that cannot be opened is tried again, one that
  fails is reopened, and the sequence number and the window go on. What the kernel answers is an argument.
\<close>

section \<open>Opening\<close>

text \<open>The system calls of an open, in their order, and what they are called with.\<close>

datatype sock_op =
    New_raw_icmpv6
  | Set_nonblocking
  | Bind_device string
  | Connect ipv6 nat
  | Bind ipv6
  | Set_timestamps
  | Set_filter "32 word list"
  | Register

datatype sock_result = Sock_ok | Sock_error string

text \<open>\<open>if_index\<close>: a name with a zero byte is refused before the kernel is asked; index 0 is an error.\<close>

definition if_index :: "(string \<Rightarrow> string + nat) \<Rightarrow> string \<Rightarrow> string + nat" where
  "if_index sys name = (if CHR 0x00 \<in> set name then Inl ''interface name'' else sys name)"

text \<open>An operation in the sequence either must succeed or may fail with no consequence but a log line; the
  operations done so far are kept.\<close>

definition must :: "(sock_op \<Rightarrow> sock_result) \<Rightarrow> sock_op \<Rightarrow> sock_op list \<Rightarrow> string + sock_op list" where
  "must sys op ops = (case sys op of Sock_ok \<Rightarrow> Inr (ops @ [op]) | Sock_error e \<Rightarrow> Inl e)"

definition may :: "(sock_op \<Rightarrow> sock_result) \<Rightarrow> sock_op \<Rightarrow> sock_op list \<Rightarrow> sock_op list" where
  "may sys op ops = (case sys op of Sock_ok \<Rightarrow> ops @ [op] | Sock_error _ \<Rightarrow> ops)"

definition and_then :: "string + 'a \<Rightarrow> ('a \<Rightarrow> string + 'b) \<Rightarrow> string + 'b" where
  "and_then r f = (case r of Inl e \<Rightarrow> Inl e | Inr v \<Rightarrow> f v)"

definition address_socket ::
  "(sock_op \<Rightarrow> sock_result) \<Rightarrow> (string \<Rightarrow> string + nat) \<Rightarrow> link \<Rightarrow> sock_op list \<Rightarrow> string + sock_op list" where
  "address_socket sys indexes l ops =
     (case li_peer_ll l of
        Some ll \<Rightarrow> and_then (if_index indexes (li_interface l)) (\<lambda>scope. must sys (Connect ll scope) ops)
      | None \<Rightarrow> and_then (must sys (Bind (li_source l)) ops) (must sys (Connect (li_target l) 0)))"

text \<open>The result is the list of what took effect on the socket.\<close>

definition open_socket :: "(sock_op \<Rightarrow> sock_result) \<Rightarrow> (string \<Rightarrow> string + nat) \<Rightarrow> link \<Rightarrow> string + sock_op list" where
  "open_socket sys indexes l =
     and_then (must sys New_raw_icmpv6 []) (\<lambda>ops.
     and_then (must sys Set_nonblocking ops) (\<lambda>ops.
     and_then (must sys (Bind_device (li_interface l)) ops) (\<lambda>ops.
     and_then (address_socket sys indexes l ops) (\<lambda>ops.
       must sys Register (may sys (Set_filter icmp_filter) (may sys Set_timestamps ops))))))"

section \<open>Receiving\<close>

text \<open>The control messages of a datagram: level, type, length and, for a time stamp, seconds and nanoseconds.\<close>

record cmsg =
  cm_level :: int
  cm_type :: int
  cm_len :: nat
  cm_secs :: int
  cm_nanos :: int

record cmsg_consts =
  cc_sol_socket :: int
  cc_timestampns :: int
  cc_timespec_len :: nat

definition is_stamp :: "cmsg_consts \<Rightarrow> cmsg \<Rightarrow> bool" where
  "is_stamp k c \<longleftrightarrow> cm_level c = cc_sol_socket k \<and> cm_type c = cc_timestampns k \<and> cc_timespec_len k \<le> cm_len c"

definition stamp_ns :: "cmsg \<Rightarrow> int" where
  "stamp_ns c = cm_secs c * 1000000000 + cm_nanos c"

definition recv_stamped :: "cmsg_consts \<Rightarrow> string + 8 word list \<times> cmsg list \<Rightarrow> string + 8 word list \<times> int option" where
  "recv_stamped k r = map_sum id (\<lambda>(buf, cs).
     (buf, fold (\<lambda>c stamp. if is_stamp k c then Some (stamp_ns c) else stamp) cs None)) r"

section \<open>The loop\<close>

text \<open>Opening (nothing to send on) or running; \<open>pl_wait\<close> is the sleep before the next attempt or round.\<close>

record ping_loop =
  pl_open :: bool
  pl_pinger :: pinger
  pl_wait :: nat

datatype loop_event = Opened | Open_failed string | Round round

definition ping_loop_new :: "nat \<Rightarrow> ping_loop" where
  "ping_loop_new n = \<lparr>pl_open = False, pl_pinger = \<lparr>pg_seq = 0, pg_window = window_new n, pg_reopen = False\<rparr>, pl_wait = 0\<rparr>"

definition retry_wait :: nat where
  "retry_wait = secs 10"

fun ping_loop_step :: "nat \<Rightarrow> 16 word \<Rightarrow> loop_event \<Rightarrow> ping_loop \<Rightarrow> ping_loop" where
  "ping_loop_step interval i Opened s = (if pl_open s then s else s\<lparr>pl_open := True, pl_wait := 0\<rparr>)"
| "ping_loop_step interval i (Open_failed e) s = (if pl_open s then s else s\<lparr>pl_wait := retry_wait\<rparr>)"
| "ping_loop_step interval i (Round r) s =
     (if pl_open s
      then let p = ping_round i r (pl_pinger s)
           in if pg_reopen p then s\<lparr>pl_open := False, pl_pinger := p\<lparr>pg_reopen := False\<rparr>, pl_wait := interval\<rparr>
              else s\<lparr>pl_pinger := p\<rparr>
      else s)"

section \<open>Lemmas\<close>

lemma and_then_Inr: "and_then r f = Inr y \<longleftrightarrow> (\<exists>x. r = Inr x \<and> f x = Inr y)"
  by (auto simp: and_then_def split: sum.split)

lemma must_Inr: "must sys op ops = Inr out \<longleftrightarrow> sys op = Sock_ok \<and> out = ops @ [op]"
  by (auto simp: must_def split: sock_result.split)

lemma set_may: "set (may sys op ops) = set ops \<union> (if sys op = Sock_ok then {op} else {})"
  by (simp add: may_def split: sock_result.split)

text \<open>An opened socket is bound to its tunnel and connected to exactly one peer: the neighbour's link-local address
  in the scope of the interface, or the other end of the tunnel from this end's address. A kernel without time
  stamps or without the filter does not prevent the probe.\<close>
theorem socket_stays_on_link:
  assumes "open_socket sys indexes l = Inr ops"
  shows "Bind_device (li_interface l) \<in> set ops
    \<and> {op \<in> set ops. case op of Connect _ _ \<Rightarrow> True | _ \<Rightarrow> False}
      = (case li_peer_ll l of
           Some ll \<Rightarrow> (case indexes (li_interface l) of Inr scope \<Rightarrow> {Connect ll scope} | Inl _ \<Rightarrow> {})
         | None \<Rightarrow> {Connect (li_target l) 0})
    \<and> (li_peer_ll l = None \<longrightarrow> Bind (li_source l) \<in> set ops)
    \<and> (Set_filter icmp_filter \<in> set ops \<longleftrightarrow> sys (Set_filter icmp_filter) = Sock_ok)"
  using assms
  by (cases "li_peer_ll l")
     (auto simp: open_socket_def address_socket_def and_then_Inr must_Inr set_may if_index_def split: if_split_asm)

lemma open_without_extras:
  assumes "sys Set_timestamps = Sock_error a" "sys (Set_filter icmp_filter) = Sock_error b"
    "\<And>op. op \<noteq> Set_timestamps \<Longrightarrow> op \<noteq> Set_filter icmp_filter \<Longrightarrow> sys op = Sock_ok" "li_peer_ll l = None"
  shows "open_socket sys indexes l
    = Inr [New_raw_icmpv6, Set_nonblocking, Bind_device (li_interface l), Bind (li_source l), Connect (li_target l) 0, Register]"
  using assms by (simp add: open_socket_def address_socket_def and_then_def must_def may_def)

text \<open>The stamp of a datagram is that of its last time-stamp message.\<close>
lemma recv_stamp_last:
  "recv_stamped k (Inr (buf, cs)) = Inr (buf, case filter (is_stamp k) cs of [] \<Rightarrow> None | _ \<Rightarrow> Some (stamp_ns (last (filter (is_stamp k) cs))))"
proof -
  have "fold (\<lambda>c stamp. if is_stamp k c then Some (stamp_ns c) else stamp) cs s
    = (case filter (is_stamp k) cs of [] \<Rightarrow> s | _ \<Rightarrow> Some (stamp_ns (last (filter (is_stamp k) cs))))" for s
    by (induction cs arbitrary: s) (auto split: list.split)
  then show ?thesis by (simp add: recv_stamped_def)
qed

lemma reopen_cleared: "\<not> pg_reopen (pl_pinger s) \<Longrightarrow> \<not> pg_reopen (pl_pinger (ping_loop_step interval i e s))"
  by (cases e) (auto simp: Let_def)

definition sends :: "loop_event \<Rightarrow> ping_loop \<Rightarrow> bool" where
  "sends e s \<longleftrightarrow> pl_open s \<and> (case e of Round r \<Rightarrow> \<not> rd_paused r | _ \<Rightarrow> False)"

lemma step_seq: "pg_seq (pl_pinger (ping_loop_step interval i e s)) = pg_seq (pl_pinger s) + (if sends e s then 1 else 0)"
  by (cases e) (auto simp: sends_def ping_round_def Let_def split: received.split option.split)

lemma step_sent: "wn_sent (pg_window (pl_pinger (ping_loop_step interval i e s)))
    = (if sends e s then add64 (wn_sent (pg_window (pl_pinger s))) 1 else wn_sent (pg_window (pl_pinger s)))"
  by (cases e) (auto simp: sends_def ping_round_def Let_def record_reply_def record_timeout_def window_push_def
      split: received.split option.split)

text \<open>How often a run sent, counted along it.\<close>

fun sent_count :: "nat \<Rightarrow> 16 word \<Rightarrow> loop_event list \<Rightarrow> ping_loop \<Rightarrow> nat" where
  "sent_count interval i [] s = 0"
| "sent_count interval i (e # es) s = (if sends e s then 1 else 0) + sent_count interval i es (ping_loop_step interval i e s)"

text \<open>The sequence number counts the pings sent over every reopening of the socket, so a reply that is late by
  fewer than \<open>65536\<close> pings never matches another one; and so does the window's counter.\<close>
theorem pings_numbered_across_reopens:
  "pg_seq (pl_pinger (fold (ping_loop_step interval i) es s)) = pg_seq (pl_pinger s) + of_nat (sent_count interval i es s)
   \<and> wn_sent (pg_window (pl_pinger (fold (ping_loop_step interval i) es s))) mod 2 ^ 64
     = (wn_sent (pg_window (pl_pinger s)) + sent_count interval i es s) mod 2 ^ 64"
proof (induction es arbitrary: s)
  case (Cons e es)
  show ?case
    using Cons.IH [of "ping_loop_step interval i e s"]
    by (simp del: ping_loop_step.simps add: step_seq step_sent add64_def mod_simps add.assoc)
qed simp

lemma seq_distinct:
  assumes "0 < d" "d < 2 ^ 16"
  shows "(q :: 16 word) + of_nat d \<noteq> q"
proof -
  have "(of_nat d :: 16 word) \<noteq> 0"
    using assms by (simp add: word_of_nat_eq_0_iff nat_dvd_not_less)
  then show ?thesis by simp
qed

text \<open>An address that comes late is found: after any failed attempts the next open starts the rounds, with
  nothing lost from the window.\<close>
lemma late_address_found:
  "fold (ping_loop_step interval i) (map Open_failed errs @ [Opened]) (ping_loop_new n)
    = (ping_loop_new n)\<lparr>pl_open := True\<rparr>"
proof -
  have "\<exists>w. fold (ping_loop_step interval i) (map Open_failed errs) (ping_loop_new n) = (ping_loop_new n)\<lparr>pl_wait := w\<rparr>"
  proof (induction errs rule: rev_induct)
    case Nil
    then show ?case by (auto simp: ping_loop_new_def)
  next
    case (snoc e errs)
    then show ?case by (auto simp: ping_loop_new_def)
  qed
  then show ?thesis by (auto simp: ping_loop_new_def)
qed

end
