(* ===== verification/Tracing.thy ===== *)
theory Tracing
  imports AgentDaemon
begin

text \<open>
  Trace correlation (\<open>crates/mielofon-otel/src/tracectx.rs\<close>): the controller puts the context of its dispatch
  span into a command, the agent opens its span under it and returns the text with its reply, and the
  controller opens the ingest span under that. A context is a trace id and a span id, valid when neither is
  zero. The text format is the library's propagator, an argument; a span's ids are those the library
  assigns: the trace of its parent, or a fresh one.
\<close>

type_synonym span_context = "nat \<times> nat"

definition valid_context :: "span_context \<Rightarrow> bool" where
  "valid_context c \<longleftrightarrow> fst c \<noteq> 0 \<and> snd c \<noteq> 0"

text \<open>The propagator writes and reads the entries of a carrier, a map from keys to texts.\<close>

type_synonym carrier = "(string, string) hmap"

definition carrier_set :: "string \<Rightarrow> string \<Rightarrow> carrier \<Rightarrow> carrier" where
  "carrier_set k v c = hm_insert k v c"

definition carrier_get :: "carrier \<Rightarrow> string \<Rightarrow> string option" where
  "carrier_get c k = hm_get c k"

definition carrier_keys :: "carrier \<Rightarrow> string list" where
  "carrier_keys c = map fst c"

record propagator =
  pp_inject :: "span_context \<Rightarrow> carrier \<Rightarrow> carrier"
  pp_extract :: "carrier \<Rightarrow> span_context"

definition current_traceparent :: "propagator \<Rightarrow> span_context \<Rightarrow> string option" where
  "current_traceparent pp current =
     (if \<not> valid_context current then None else carrier_get (pp_inject pp current []) ''traceparent'')"

definition parent_context :: "propagator \<Rightarrow> string option \<Rightarrow> span_context option" where
  "parent_context pp traceparent =
     (case traceparent of
        None \<Rightarrow> None
      | Some tp \<Rightarrow>
          let cx = pp_extract pp (carrier_set ''traceparent'' tp [])
          in if valid_context cx then Some cx else None)"

text \<open>A span that is opened: its fresh ids, and its parent when it has one.\<close>

definition span_ids :: "span_context option \<Rightarrow> span_context \<Rightarrow> span_context" where
  "span_ids parent fresh = (case parent of Some p \<Rightarrow> (fst p, snd fresh) | None \<Rightarrow> fresh)"

definition set_parent :: "propagator \<Rightarrow> string option \<Rightarrow> span_context \<Rightarrow> span_context" where
  "set_parent pp traceparent fresh = span_ids (parent_context pp traceparent) fresh"

text \<open>The controller's ingest runs in such a span.\<close>

definition with_traceparent :: "propagator \<Rightarrow> string option \<Rightarrow> span_context \<Rightarrow> (span_context \<Rightarrow> 'a) \<Rightarrow> 'a" where
  "with_traceparent pp traceparent fresh f = f (span_ids (parent_context pp traceparent) fresh)"

section \<open>A command as one trace\<close>

fun reply_traceparent :: "agent_reply \<Rightarrow> string option" where
  "reply_traceparent (RProbe p) = pr_traceparent p"
| "reply_traceparent (RApplied _ _ _ _ _ tp) = tp"
| "reply_traceparent (RTrace _ _ tp _ _ _) = tp"

text \<open>Whatever a command does, its reply returns the command's context.\<close>
lemma reply_echoes_traceparent:
  "fst (execute w cmd a) = Some r \<Longrightarrow> reply_traceparent r = cmd_traceparent cmd"
  by (cases cmd)
     (auto simp: execute_probe_def execute_apply_def execute_trace_def busy_reply_def finish_probe_def split_beta Let_def
       split: option.split_asm if_split_asm)

definition propagates :: "propagator \<Rightarrow> bool" where
  "propagates pp \<longleftrightarrow> (\<forall>c. valid_context c \<longrightarrow>
     (case carrier_get (pp_inject pp c []) ''traceparent'' of
        Some tp \<Rightarrow> pp_extract pp (carrier_set ''traceparent'' tp []) = c
      | None \<Rightarrow> False))"

lemma parent_of_current:
  assumes "propagates pp"
  shows "parent_context pp (current_traceparent pp c) = (if valid_context c then Some c else None)"
  using assms [unfolded propagates_def, rule_format, of c]
  by (auto simp: parent_context_def current_traceparent_def Let_def split: option.splits)

text \<open>One trace spans the dispatch, the command on the agent and the ingest of its reply, whatever the command
  is; with telemetry off on the controller both are roots of their own.\<close>
theorem command_is_one_trace:
  assumes "propagates pp" "cmd_traceparent cmd = current_traceparent pp sent" "fst (execute w cmd a) = Some r"
  shows "set_parent pp (cmd_traceparent cmd) fresh_cmd
      = (if valid_context sent then (fst sent, snd fresh_cmd) else fresh_cmd)
    \<and> with_traceparent pp (reply_traceparent r) fresh_ingest (\<lambda>span. span)
      = (if valid_context sent then (fst sent, snd fresh_ingest) else fresh_ingest)"
  using reply_echoes_traceparent [OF assms(3)] assms(2) parent_of_current [OF assms(1), of sent]
  by (simp add: set_parent_def with_traceparent_def span_ids_def)

text \<open>A propagator for the witness: the ids in unary.\<close>

definition unary_propagator :: propagator where
  "unary_propagator = \<lparr>
     pp_inject = (\<lambda>c m. carrier_set ''traceparent'' (replicate (fst c) CHR ''t'' @ replicate (snd c) CHR ''s'') m),
     pp_extract = (\<lambda>m. case carrier_get m ''traceparent'' of
        Some s \<Rightarrow> (length (filter (\<lambda>x. x = CHR ''t'') s), length (filter (\<lambda>x. x = CHR ''s'') s)) | None \<Rightarrow> (0, 0))\<rparr>"

lemma unary_propagates: "propagates unary_propagator"
  by (simp add: propagates_def unary_propagator_def carrier_get_def carrier_set_def hm_insert_def)

theorem command_is_one_trace_witness:
  "\<exists>r. fst (execute w (Trace ''c1'' ''192.0.2.1'' (Some ''ttts'')) a) = Some r
    \<and> set_parent unary_propagator (Some ''ttts'') (8, 9) = (3, 9)
    \<and> with_traceparent unary_propagator (reply_traceparent r) (7, 6) (\<lambda>span. span) = (3, 6)"
proof -
  obtain r where r: "fst (execute w (Trace ''c1'' ''192.0.2.1'' (Some ''ttts'')) a) = Some r"
    by (simp add: execute_trace_def split_beta)
  have t: "cmd_traceparent (Trace ''c1'' ''192.0.2.1'' (Some ''ttts'')) = current_traceparent unary_propagator (3, 1)"
    by code_simp
  from command_is_one_trace [OF unary_propagates t r, of "(8, 9)" "(7, 6)"] r show ?thesis
    by (simp add: valid_context_def)
qed

end
