(* ===== verification/Operator.thy ===== *)
theory Operator
  imports Tracing Certs MemberLink Classifier
begin

text \<open>
  The controller's command line and its long-running tasks: the \<open>tool hello\<close> command
  (\<open>crates/controller/src/tool.rs\<close>), the choice of the subcommand, the signals and sockets of \<open>main.rs\<close>, the
  routes and the access log of the admin server (\<open>api.rs\<close>), and one turn of each periodic task. Resolution,
  dials, answers, signals and the command-line parser are arguments.
\<close>

section \<open>The tool\<close>

record hello_args =
  ha_endpoint :: string
  ha_ca :: string
  ha_cert :: string
  ha_key :: string
  ha_agent :: string
  ha_links :: "string list"
  ha_loopback :: "string option"
  ha_hold_secs :: nat

datatype tool_cli = Hello hello_args

fun parse_links :: "string list \<Rightarrow> string + link_key list" where
  "parse_links [] = Inr []"
| "parse_links (s # ss) = bind_sum (parse_link s) (\<lambda>l. bind_sum (parse_links ss) (\<lambda>ls. Inr (l # ls)))"

definition hello_request :: "hello_args \<Rightarrow> link_key list \<Rightarrow> register_req" where
  "hello_request args links = \<lparr>rq_agent = ha_agent args, rq_router_id = None, rq_links = links, rq_peer_rids = [],
     rq_loopback = ha_loopback args\<rparr>"

text \<open>What the tool meets; while it holds the session, streams come, the session ends or the time is up.\<close>

datatype hold_event = Command_stream "byte list" | Session_gone string | Deadline

record ('a, 's) tool_world =
  tw_identity :: "tls_cfg \<Rightarrow> string + unit"
  tw_dialer :: "string + unit"
  tw_candidates :: "endpoint \<Rightarrow> ('a \<times> string) list"
  tw_dial :: "'a \<Rightarrow> string \<Rightarrow> nat \<Rightarrow> string + 's"
  tw_register :: "'s \<Rightarrow> register_req \<Rightarrow> nat \<Rightarrow> string + register_resp"

text \<open>Every command stream is closed without an answer.\<close>

definition tool_answer :: "(byte list \<Rightarrow> work_cmd option) \<Rightarrow> (register_resp \<Rightarrow> byte list option) \<Rightarrow> byte list \<Rightarrow> frame_error + byte list" where
  "tool_answer dec enc = respond dec enc (\<lambda>_. None)"

fun hold :: "hold_event list \<Rightarrow> (string + unit) option" where
  "hold [] = None"
| "hold (Command_stream b # es) = hold es"
| "hold (Session_gone e # es) = Some (Inl (''session ended: '' @ e))"
| "hold (Deadline # es) = Some (Inr ())"

definition hello_connect ::
  "(string \<Rightarrow> 'ip option) \<Rightarrow> ('a, 's) tool_world \<Rightarrow> hello_args \<Rightarrow> string + link_key list \<times> 'a \<times> 's" where
  "hello_connect ip_of w args =
     bind_sum (parse_links (ha_links args)) (\<lambda>links.
     bind_sum (tw_identity w \<lparr>tl_ca = ha_ca args, tl_cert = ha_cert args, tl_key = ha_key args\<rparr>) (\<lambda>_.
     bind_sum (tw_dialer w) (\<lambda>_.
     bind_sum (parse_endpoint ip_of (ha_endpoint args) 9552) (\<lambda>ep.
       case tw_candidates w ep of
         [] \<Rightarrow> Inl (ha_endpoint args @ '' did not resolve'')
       | (addr, host) # _ \<Rightarrow>
           bind_sum (context_of ''dial'' (tw_dial w addr host (secs 5))) (\<lambda>s. Inr (links, addr, s))))))"

text \<open>The result so far, and the line printed once the controller accepted; the result of the hold is nothing
  while it lasts.\<close>

definition hello ::
  "(string \<Rightarrow> 'ip option) \<Rightarrow> ('a \<Rightarrow> string) \<Rightarrow> ('a, 's) tool_world \<Rightarrow> hello_args \<Rightarrow> hold_event list
    \<Rightarrow> string list \<times> (string + unit) option" where
  "hello ip_of show_addr w args events =
     (case hello_connect ip_of w args of
        Inl e \<Rightarrow> ([], Some (Inl e))
      | Inr (links, addr, s) \<Rightarrow>
          (case context_of ''register'' (tw_register w s (hello_request args links) (secs 10)) of
             Inl e \<Rightarrow> ([], Some (Inl e))
           | Inr resp \<Rightarrow>
               if rs_ok resp then ([''registered '' @ ha_agent args @ '' at '' @ show_addr addr], hold events)
               else ([], Some (Inl (''controller refused: '' @ (case rs_error resp of Some e \<Rightarrow> e | None \<Rightarrow> []))))))"

section \<open>The subcommands\<close>

datatype controller_cli = Daemon_cmd string | Cert_cmd cert_cli | Tool_cmd tool_cli

definition default_config :: string where
  "default_config = ''/etc/mielofon/mielofon-controller.toml''"

definition run_command :: "(string \<Rightarrow> 'r) \<Rightarrow> (cert_cli \<Rightarrow> 'r) \<Rightarrow> (tool_cli \<Rightarrow> 'r) \<Rightarrow> controller_cli \<Rightarrow> 'r" where
  "run_command daemon cert tool c =
     (case c of Daemon_cmd path \<Rightarrow> daemon path | Cert_cmd a \<Rightarrow> cert a | Tool_cmd a \<Rightarrow> tool a)"

text \<open>A stop: SIGTERM counts only when its handler could be installed.\<close>

datatype signal = Sigterm | Sigint

definition stops :: "bool \<Rightarrow> signal \<Rightarrow> bool" where
  "stops term_handler s = (case s of Sigint \<Rightarrow> True | Sigterm \<Rightarrow> term_handler)"

text \<open>The admin socket.\<close>

definition bind_tcp :: "('a \<Rightarrow> string + unit) \<Rightarrow> (string + unit) \<Rightarrow> ('a \<Rightarrow> string) \<Rightarrow> 'a \<Rightarrow> string \<Rightarrow> string + unit" where
  "bind_tcp tcp nonblocking show_addr addr name =
     bind_sum (context_of (''bind '' @ name @ '' '' @ show_addr addr) (tcp addr))
       (\<lambda>_. context_of (''set '' @ name @ '' listener nonblocking'') nonblocking)"

section \<open>The admin routes\<close>

datatype handler =
    H_graph | H_trace | H_ts | H_metrics | H_healthz | H_readyz | H_quality_all | H_quality | H_post_quality
  | H_policy | H_status | H_frontend "string option"

datatype http_method = Get | Post

definition static_routes :: "(string \<times> (http_method \<times> handler) list) list" where
  "static_routes =
     [(''/v1/graph'', [(Get, H_graph)]), (''/v1/trace'', [(Get, H_trace)]), (''/v1/ts'', [(Get, H_ts)]),
      (''/metrics'', [(Get, H_metrics)]), (''/healthz'', [(Get, H_healthz)]), (''/readyz'', [(Get, H_readyz)]),
      (''/v1/quality/all'', [(Get, H_quality_all)]), (''/v1/quality'', [(Get, H_quality), (Post, H_post_quality)]),
      (''/v1/policy'', [(Get, H_policy)]), (''/v1/status'', [(Get, H_status)]), (''/'', [(Get, H_frontend None)])]"

text \<open>The router prefers a literal path to the wildcard, whose match is the path without its slash and not empty;
  a path that is routed but not for the method is refused.\<close>

datatype routed = To handler | Method_not_allowed | No_route

definition pick_method :: "(http_method \<times> handler) list \<Rightarrow> http_method \<Rightarrow> routed" where
  "pick_method hs m = (case map_of hs m of Some h \<Rightarrow> To h | None \<Rightarrow> Method_not_allowed)"

definition admin_route :: "http_method \<Rightarrow> string \<Rightarrow> routed" where
  "admin_route m path =
     (case map_of static_routes path of
        Some hs \<Rightarrow> pick_method hs m
      | None \<Rightarrow> (case path of
          c # rest \<Rightarrow> if c = CHR ''/'' \<and> rest \<noteq> [] then pick_method [(Get, H_frontend (Some rest))] m else No_route
        | [] \<Rightarrow> No_route))"

text \<open>The level of a request's line in the access log.\<close>

definition access_level :: "string \<Rightarrow> level" where
  "access_level path = (if path = ''/healthz'' \<or> path = ''/readyz'' then LDebug else LInfo)"

section \<open>The periodic tasks\<close>

definition scheduler_interval :: nat where
  "scheduler_interval = 2"

definition flush_interval :: nat where
  "flush_interval = 30"

definition classifier_interval :: "app_state \<Rightarrow> nat" where
  "classifier_interval st = max (cc_interval_secs (cf_classifier (as_cfg st))) 1"

definition prune_interval :: "app_state \<Rightarrow> nat" where
  "prune_interval st = max 10 (cl_grace_ttl_secs (cf_cluster (as_cfg st))) div 2"

text \<open>The clock: whole seconds since the epoch, zero before it.\<close>

definition now_secs :: "int \<Rightarrow> nat" where
  "now_secs unix_nanos = nat unix_nanos div 1000000000"

definition classifier_turn :: "int \<Rightarrow> app_state \<Rightarrow> app_state" where
  "classifier_turn clock st = classify_once (now_secs clock) st"

definition flush_turn ::
  "int \<Rightarrow> bool \<Rightarrow> app_state \<Rightarrow> ((link_key \<times> raw_sample) list \<times> ((link_key \<times> nat) \<times> bucket) list) option \<times> app_state" where
  "flush_turn clock begin_ok st =
     (let (rows, t) = flush_drain begin_ok (tsdb_prune (now_secs clock) (as_tsdb st)) in (rows, st\<lparr>as_tsdb := t\<rparr>))"

section \<open>Lemmas\<close>

text \<open>The tool's links are all parsed or the first bad one is named.\<close>
lemma parse_links_Inr: "parse_links ss = Inr ls \<longleftrightarrow> list_all2 (\<lambda>s l. parse_link s = Inr l) ss ls"
proof (induction ss arbitrary: ls)
  case (Cons s ss)
  then show ?case by (cases ls) (auto simp: bind_sum_Inr_iff)
qed auto

text \<open>An agent of the tool gives no measurement: whatever command is sent on its session, the request ends without
  an answer, so the controller's task ends as a failure.\<close>
theorem tool_gives_no_measurement:
  assumes "\<And>v b. encq v = Some b \<Longrightarrow> decq b = Some v"
  shows "request encq decr (tool_answer decq encr) (cmd :: work_cmd) = Inl Closed \<or> \<not> fits encq cmd"
proof (cases "write_frame encq cmd []")
  case (Inl e)
  then show ?thesis by (auto simp: write_frame_fits)
next
  case (Inr w)
  have "read_frame decq w = Inr (cmd, [])" by (rule read_written_frame [OF assms Inr])
  then show ?thesis using Inr by (simp add: request_def tool_answer_def respond_def read_frame_def [of decr])
qed

text \<open>The dashboard's wildcard takes no API path: a literal route always wins, and only GET reaches the
  dashboard.\<close>
lemma literal_routes_win:
  "list_all (\<lambda>(path, hs). list_all (\<lambda>(m, h). admin_route m path = To h) hs) static_routes"
  by code_simp

lemma wildcard_is_get: "admin_route m path = To (H_frontend f) \<Longrightarrow> m = Get \<and> (f = None \<longleftrightarrow> path = ''/'')"
proof -
  assume a: "admin_route m path = To (H_frontend f)"
  show ?thesis
  proof (cases "map_of static_routes path")
    case None
    then have "path \<noteq> ''/''" by (auto simp: static_routes_def)
    with a None show ?thesis
      by (auto simp: admin_route_def pick_method_def split: list.splits if_split_asm option.splits)
  next
    case (Some hs)
    then have "(path, hs) \<in> set static_routes" by (rule map_of_SomeD)
    moreover have "map_of hs m = Some (H_frontend f)"
      using a Some by (simp add: admin_route_def pick_method_def split: option.splits)
    then have "(m, H_frontend f) \<in> set hs" by (rule map_of_SomeD)
    ultimately have "m = Get \<and> f = None \<and> path = ''/''" by (auto simp: static_routes_def)
    then show ?thesis by simp
  qed
qed

text \<open>A turn of the flush task keeps the store well formed and, when the database takes the rows, leaves no sample
  queued.\<close>
lemma flush_turn_queue:
  assumes "td_open (as_tsdb st)"
  shows "td_pending (as_tsdb (snd (flush_turn clock True st))) = []"
  using assms by (simp add: flush_turn_def flush_drain_def tsdb_prune_def Let_def)

lemma clock_before_epoch: "t < 0 \<Longrightarrow> now_secs t = 0"
  by (simp add: now_secs_def)

text \<open>No interval is zero, so no task spins.\<close>
lemma intervals_positive: "0 < classifier_interval st" "0 < prune_interval st" "0 < gossip_interval st"
  by (simp_all add: classifier_interval_def prune_interval_def gossip_interval_def max_def)

end
