(* ===== verification/StoreScenarios.thy ===== *)
theory StoreScenarios
  imports Fence Kv Worker Quality
begin

text \<open>
  The unit tests of the controller's stores (\<open>quality.rs\<close>, \<open>kv.rs\<close>, \<open>fence.rs\<close>, \<open>worker.rs\<close>) as
  executable statements of the model: every assertion of a test holds of the definitions, so the model
  behaves on these inputs as the code does. Clock readings and fresh tokens, which the tests leave to the
  system, are fixed here.
\<close>

section \<open>Classes (\<open>quality.rs\<close>)\<close>

definition t_view :: "f64 option \<Rightarrow> f64 option \<Rightarrow> f64 option \<Rightarrow> f64 option \<Rightarrow> window_view" where
  "t_view rtt loss jitter tcp = window_view_default\<lparr>wv_rtt_ms := rtt, wv_loss_pct := loss, wv_jitter_ms := jitter, wv_tcp_mbps := tcp\<rparr>"

definition t_class :: "rat \<Rightarrow> rat \<Rightarrow> rat \<Rightarrow> rat \<Rightarrow> quality" where
  "t_class rtt loss jitter tcp =
     classify_window quality_cfg_default (t_view (Some (Fin rtt)) (Some (Fin loss)) (Some (Fin jitter)) (Some (Fin tcp)))"

definition good_link_classifies_good :: bool where
  "good_link_classifies_good \<longleftrightarrow> t_class 15 0 2 80 = Good"

definition low_rtt_but_throttled_still_penalised :: bool where
  "low_rtt_but_throttled_still_penalised \<longleftrightarrow> t_class 15 0 2 (3 / 2) = Bad"

definition worse_rtt_escalates_class :: bool where
  "worse_rtt_escalates_class \<longleftrightarrow> t_class 60 0 2 80 = Acceptable \<and> t_class 120 0 2 80 = Poor \<and> t_class 400 0 2 80 = Bad"

definition unset_dimension_does_not_penalise :: bool where
  "unset_dimension_does_not_penalise \<longleftrightarrow>
     (let cfg = \<lparr>qf_good = quality_class_default\<lparr>qc_rtt_ms := Some (Fin 123)\<rparr>, qf_acceptable = quality_class_default,
            qf_poor = quality_class_default, qf_bad = quality_class_default\<lparr>qc_rtt_ms := Some (Fin 321)\<rparr>\<rparr>
      in classify_window cfg (t_view (Some (Fin 200)) (Some (Fin 99)) (Some (Fin 500)) (Some (Fin (1 / 10)))) = Acceptable
       \<and> classify_window cfg (t_view (Some (Fin 400)) (Some (Fin 0)) (Some (Fin 2)) (Some (Fin 80))) = Bad
       \<and> classify_window cfg (t_view (Some (Fin 100)) (Some (Fin 0)) (Some (Fin 2)) (Some (Fin (1 / 10)))) = Good)"

definition low_jitter_does_not_punish_medium_rtt :: bool where
  "low_jitter_does_not_punish_medium_rtt \<longleftrightarrow> t_class 50 0 2 80 = Acceptable \<and> t_class 125 0 4 80 = Poor"

definition high_jitter_escalates_class :: bool where
  "high_jitter_escalates_class \<longleftrightarrow> t_class 50 0 60 80 = Bad \<and> t_class 50 0 8 80 = Acceptable"

definition udp_leg_constrains_only_when_configured :: bool where
  "udp_leg_constrains_only_when_configured \<longleftrightarrow>
     (let cfg = quality_cfg_default;
          v = (t_view (Some (Fin 15)) (Some (Fin 0)) (Some (Fin 2)) (Some (Fin 80)))
            \<lparr>wv_udp_mbps := Some (Fin 2), wv_udp_loss_pct := Some (Fin 30), wv_udp_jitter_ms := Some (Fin 50)\<rparr>
      in classify_window cfg v = Good
       \<and> classify_window (cfg\<lparr>qf_poor := (qf_poor cfg)\<lparr>qc_udp_loss_pct := Some (Fin 5)\<rparr>\<rparr>) v = Bad
       \<and> classify_window (cfg\<lparr>qf_good := (qf_good cfg)\<lparr>qc_udp_mbps := Some (Fin 10)\<rparr>\<rparr>) v = Acceptable)"

definition cost_is_conservative :: bool where
  "cost_is_conservative \<longleftrightarrow> cost_for_quality quality_cfg_default Good = 10 \<and> cost_for_quality quality_cfg_default Bad = 100"

definition window_classify_uses_carried_throughput :: bool where
  "window_classify_uses_carried_throughput \<longleftrightarrow> t_class 15 0 2 (3 / 2) = Bad \<and> t_class 15 0 2 80 = Good"

definition window_classify_unset_dims_do_not_constrain :: bool where
  "window_classify_unset_dims_do_not_constrain \<longleftrightarrow>
     classify_window quality_cfg_default (t_view (Some (Fin 400)) None None None) = Bad
     \<and> classify_window quality_cfg_default (t_view (Some (Fin 15)) None None None) = Good"

lemma quality_scenarios:
  "good_link_classifies_good" "low_rtt_but_throttled_still_penalised" "worse_rtt_escalates_class"
  "unset_dimension_does_not_penalise" "low_jitter_does_not_punish_medium_rtt" "high_jitter_escalates_class"
  "udp_leg_constrains_only_when_configured" "cost_is_conservative" "window_classify_uses_carried_throughput"
  "window_classify_unset_dims_do_not_constrain"
  by code_simp+

section \<open>The replicated store (\<open>kv.rs\<close>)\<close>

definition lww_keeps_latest_ts :: bool where
  "lww_keeps_latest_ts \<longleftrightarrow>
     (let key = new_link ''hub-a'' ''hub-b'' ''awg0'';
          old = new_quality_record 100 (Some (Fin 10)) (Some (Fin 0)) (Some (Fin 80)) (Some (Fin 70)) None (Fin 0) Quiet;
          new = new_quality_record 200 (Some (Fin 200)) (Some (Fin 90)) (Some (Fin 5)) None None (Fin 0) Conflict;
          store = snd (kv_put key new (snd (kv_put key old lww_new)))
      in map_option qr_ts (kv_get store key) = Some 200 \<and> kv_len store = 1)"

definition older_does_not_override :: bool where
  "older_does_not_override \<longleftrightarrow>
     (let key = new_link ''a'' ''p'' ''if0'';
          fresh = new_quality_record 500 (Some (Fin 1)) (Some (Fin 0)) (Some (Fin 1)) None None (Fin 0) Quiet;
          stale = new_quality_record 400 (Some (Fin 2)) (Some (Fin 0)) (Some (Fin 1)) None None (Fin 0) Quiet;
          (ok, store) = kv_put key stale (snd (kv_put key fresh lww_new))
      in \<not> ok \<and> map_option qr_ts (kv_get store key) = Some 500)"

definition node_directory_is_lww_and_never_expires :: bool where
  "node_directory_is_lww_and_never_expires \<longleftrightarrow>
     (let l = [new_link ''node-0.example'' ''hub-a'' ''awg_hub_a''];
          (a1, s) = set_node ''192.0.2.1'' ''node-0.example'' l 100 lww_new;
          (a2, s) = set_node ''192.0.2.1'' ''node-0.example'' l 100 s;
          (a3, s) = set_node ''192.0.2.1'' ''node-0.example'' [] 100 s;
          (a4, s) = set_node ''192.0.2.1'' ''old.example'' [] 50 s;
          (a5, s) = set_node ''192.0.2.1'' ''renamed.example'' l 200 s;
          name = node_name s ''192.0.2.1''; links = map_option ne_links (kv_node s ''192.0.2.1'');
          (a6, s) = merge_nodes [(''192.0.2.2'', \<lparr>ne_name = ''hub-a'', ne_ts = 1, ne_links = []\<rparr>)] s;
          (a7, s) = merge_nodes [(''192.0.2.1'', \<lparr>ne_name = ''stale.example'', ne_ts = 150, ne_links = []\<rparr>)] s
      in a1 \<and> \<not> a2 \<and> a3 \<and> \<not> a4 \<and> a5 \<and> name = Some ''renamed.example'' \<and> links = Some l \<and> a6 \<and> \<not> a7
       \<and> length (kv_nodes (kv_prune 10000 10 s)) = 2)"

lemma kv_scenarios:
  "lww_keeps_latest_ts" "older_does_not_override" "node_directory_is_lww_and_never_expires"
  by code_simp+

section \<open>Leases (\<open>fence.rs\<close>)\<close>

definition t_fence_link :: "string \<Rightarrow> string \<Rightarrow> link_key" where
  "t_fence_link f t = new_link f t (''awg_'' @ t)"

definition t_acquire :: "string \<Rightarrow> string \<Rightarrow> nat \<Rightarrow> string \<Rightarrow> fence \<Rightarrow> (lease + lease) \<times> fence" where
  "t_acquire f t ttl token = acquire f (t_fence_link f t) ttl 100 token"

definition acquire_then_block_second :: bool where
  "acquire_then_block_second \<longleftrightarrow>
     (let (ok, f) = t_acquire ''node-0'' ''hub-a'' 30 ''t1'' fence_new; (err, f) = t_acquire ''node-0'' ''hub-a'' 30 ''t2'' f
      in case (ok, err) of (Inr l, Inl busy) \<Rightarrow> le_holder l = ''node-0'' \<and> le_holder busy = ''node-0'' | _ \<Rightarrow> False)"

definition a_node_is_in_one_test_at_a_time_in_either_role :: bool where
  "a_node_is_in_one_test_at_a_time_in_either_role \<longleftrightarrow>
     (case t_acquire ''node-0'' ''hub-b'' 30 ''t1'' fence_new of
        (Inr held, f) \<Rightarrow>
          (let (same_client, f) = t_acquire ''node-0'' ''hub-c'' 30 ''t2'' f;
               (same_server, f) = t_acquire ''hub-a'' ''hub-b'' 30 ''t3'' f;
               (server_as_client, f) = t_acquire ''hub-b'' ''hub-c'' 30 ''t4'' f;
               (reverse, f) = t_acquire ''hub-b'' ''node-0'' 30 ''t5'' f;
               (disjoint, f) = t_acquire ''hub-a'' ''hub-c'' 30 ''t6'' f;
               (released, g) = release (le_link held) (le_token held) f;
               (again, _) = t_acquire ''node-0'' ''hub-b'' 30 ''t7'' g
           in (case same_client of Inl busy \<Rightarrow> le_link busy = le_link held | Inr _ \<Rightarrow> False)
            \<and> isl same_server \<and> isl server_as_client \<and> isl reverse \<and> \<not> isl disjoint
            \<and> length (leases f) = 2 \<and> released \<and> \<not> isl again)
      | _ \<Rightarrow> False)"

definition expired_lease_can_be_taken_over :: bool where
  "expired_lease_can_be_taken_over \<longleftrightarrow>
     (let (l1, f) = t_acquire ''node-0'' ''hub-a'' 0 ''t1'' fence_new; (l2, f) = t_acquire ''hub-a'' ''node-0'' 30 ''t2'' f
      in \<not> isl l1 \<and> (case l2 of Inr l \<Rightarrow> le_holder l = ''hub-a'' | Inl _ \<Rightarrow> False) \<and> length (leases f) = 1)"

definition release_only_with_token :: bool where
  "release_only_with_token \<longleftrightarrow>
     (case t_acquire ''node-0'' ''hub-a'' 30 ''t1'' fence_new of
        (Inr l, f) \<Rightarrow>
          (let (a, f) = release (le_link l) ''nope'' f; (b, f) = release (le_link l) (le_token l) f
           in \<not> a \<and> b \<and> \<not> isl (fst (t_acquire ''hub-a'' ''node-0'' 30 ''t2'' f)))
      | _ \<Rightarrow> False)"

lemma fence_scenarios:
  "acquire_then_block_second" "a_node_is_in_one_test_at_a_time_in_either_role" "expired_lease_can_be_taken_over"
  "release_only_with_token"
  by code_simp+

section \<open>The registry of agents (\<open>worker.rs\<close>)\<close>

definition t_link :: link_key where
  "t_link = new_link ''spoke-1'' ''hub-a'' ''awg_hub_a''"

definition t_gone :: link_key where
  "t_gone = new_link ''spoke-1'' ''hub-b'' ''awg_hub_b''"

definition t_register :: "string \<Rightarrow> link_key list \<Rightarrow> registry \<Rightarrow> bool \<times> registry" where
  "t_register agent links = register_worker agent links None [] None"

definition register_adds_links_and_marks_owned :: bool where
  "register_adds_links_and_marks_owned \<longleftrightarrow>
     (let (fresh, r) = t_register ''spoke-1'' [t_link] registry_new
      in fresh \<and> wr_len r = 1 \<and> map fst (owned_links r) = [''spoke-1''])"

definition peer_names_settle_on_the_registered_spelling :: bool where
  "peer_names_settle_on_the_registered_spelling \<longleftrightarrow>
     (let hub = [new_link ''hub-a'' ''node.0.example'' ''awg_sp_node0''];
          node = [new_link ''node-0.example'' ''hub-a'' ''awg_hub_a''];
          r = snd (t_register ''node-0.example'' node (snd (t_register ''hub-a'' hub registry_new)));
          q = snd (t_register ''hub-a'' hub (snd (t_register ''node-0.example'' node registry_new)))
      in map lk_to (links_of r ''hub-a'') = [''node-0.example'']
       \<and> map lk_to (links_of q ''hub-a'') = [''node-0.example''] \<and> map lk_to (links_of q ''node-0.example'') = [''hub-a'']
       \<and> canonical_peer q ''node.0.example'' = ''node-0.example'' \<and> canonical_peer q ''hub-a'' = ''hub-a''
       \<and> canonical_peer q ''nobody.example'' = ''nobody.example'')"

definition peers_are_named_by_router_id_through_the_directory :: bool where
  "peers_are_named_by_router_id_through_the_directory \<longleftrightarrow>
     (let r = snd (register_worker ''hub-a'' [new_link ''hub-a'' ''node.0.example'' ''awg_sp_n0''] (Some ''192.0.2.1'')
            [(''awg_sp_n0'', ''192.0.2.9'')] None registry_new);
          dir = map_of [(''192.0.2.9'', ''node-0.example'')];
          (renamed, q) = resolve_peers dir r
      in router_id_of r ''hub-a'' = Some ''192.0.2.1''
       \<and> renamed = [(''hub-a'', Some ''192.0.2.1'', [new_link ''hub-a'' ''node-0.example'' ''awg_sp_n0''])]
       \<and> map lk_to (links_of q ''hub-a'') = [''node-0.example'']
       \<and> fst (resolve_peers dir q) = [] \<and> fst (resolve_peers (\<lambda>_. None) q) = [])"

definition register_replaces_the_link_set :: bool where
  "register_replaces_the_link_set \<longleftrightarrow>
     (let r = mark_issued ''spoke-1'' t_gone Always 1000 (snd (t_register ''spoke-1'' [t_link, t_gone] registry_new));
          (fresh, r) = t_register ''spoke-1'' [t_link] r; left = links_of r ''spoke-1'';
          (back, r) = t_register ''spoke-1'' [t_link, t_gone] r
      in \<not> fresh \<and> left = [t_link] \<and> back \<and> probe_due ''spoke-1'' t_gone Always 1001 15 r)"

definition register_forgets_sent_costs :: bool where
  "register_forgets_sent_costs \<longleftrightarrow>
     (let r = set_applied_sent ''spoke-1'' t_link 50 (snd (t_register ''spoke-1'' [t_link] registry_new));
          q = snd (t_register ''spoke-1'' [t_link] r)
      in \<not> apply_due ''spoke-1'' t_link 50 0 r \<and> applied_sent q ''spoke-1'' t_link = None \<and> apply_due ''spoke-1'' t_link 50 0 q)"

definition always_due_at_first_then_not_until_interval :: bool where
  "always_due_at_first_then_not_until_interval \<longleftrightarrow>
     (let r = snd (t_register ''spoke-1'' [t_link] registry_new); q = mark_issued ''spoke-1'' t_link Always 1000 r
      in probe_due ''spoke-1'' t_link Always 1000 15 r \<and> \<not> probe_due ''spoke-1'' t_link Always 1010 15 q
       \<and> probe_due ''spoke-1'' t_link Always 1015 15 q)"

definition failed_apply_is_retried_after_backoff :: bool where
  "failed_apply_is_retried_after_backoff \<longleftrightarrow>
     (let r = note_apply_failed ''spoke-1'' t_link 1000
            (set_applied_sent ''spoke-1'' t_link 50 (snd (t_register ''spoke-1'' [t_link] registry_new)));
          q = set_applied_sent ''spoke-1'' t_link 50 r
      in \<not> apply_due ''spoke-1'' t_link 50 (1000 + apply_retry_secs - 1) r \<and> apply_due ''spoke-1'' t_link 50 (1000 + apply_retry_secs) r
       \<and> \<not> apply_due ''spoke-1'' t_link 50 5000 q \<and> apply_due ''spoke-1'' t_link 20 5000 q)"

definition one_command_per_link_and_kind_in_flight :: bool where
  "one_command_per_link_and_kind_in_flight \<longleftrightarrow>
     (let (unknown, r) = begin_cmd ''spoke-1'' t_link KAlways registry_new;
          r = snd (t_register ''spoke-1'' [t_link] r);
          (first, r) = begin_cmd ''spoke-1'' t_link KAlways r; (second, r) = begin_cmd ''spoke-1'' t_link KAlways r;
          (other, r) = begin_cmd ''spoke-1'' t_link KThroughput r
      in \<not> unknown \<and> first \<and> \<not> second \<and> other \<and> fst (begin_cmd ''spoke-1'' t_link KAlways (end_cmd ''spoke-1'' t_link KAlways r)))"

definition sessions_supersede_and_detach_by_generation :: bool where
  "sessions_supersede_and_detach_by_generation \<longleftrightarrow>
     (let r = snd (t_register ''spoke-1'' [t_link] registry_new);
          ((g1, old1), r) = attach ''spoke-1'' 1 None r;
          ((g1b, old1b), r) = attach ''spoke-1'' 1 (Some g1) r;
          ((g2, old2), r) = attach ''spoke-1'' 2 None r;
          (closed1, r) = detach ''spoke-1'' g1 r; kept = has_agent r ''spoke-1'';
          (closed2, r) = detach ''spoke-1'' g2 r
      in old1 = None \<and> g1b = g1 \<and> old1b = None \<and> g2 \<noteq> g1 \<and> old2 = Some 1 \<and> \<not> closed1 \<and> kept \<and> closed2
       \<and> \<not> has_agent r ''spoke-1'' \<and> session_of r ''spoke-1'' = None)"

definition loopback_register_lookup :: bool where
  "loopback_register_lookup \<longleftrightarrow>
     (let r = snd (register_worker ''spoke-1'' [t_link] None [] (Some ''fd00:0:0:1::1'') registry_new);
          q = snd (t_register ''spoke-1'' [t_link] r)
      in loopback registry_new ''spoke-1'' = None \<and> \<not> has_agent registry_new ''spoke-1''
       \<and> loopback r ''spoke-1'' = Some ''fd00:0:0:1::1'' \<and> has_agent r ''spoke-1'' \<and> loopback q ''spoke-1'' = None)"

lemma worker_scenarios:
  "register_adds_links_and_marks_owned" "peer_names_settle_on_the_registered_spelling"
  "peers_are_named_by_router_id_through_the_directory" "register_replaces_the_link_set" "register_forgets_sent_costs"
  "always_due_at_first_then_not_until_interval" "failed_apply_is_retried_after_backoff"
  "one_command_per_link_and_kind_in_flight" "sessions_supersede_and_detach_by_generation" "loopback_register_lookup"
  by code_simp+

end
