(* ===== verification/Spec2Isabelle.thy ===== *)
theory Spec2Isabelle
  imports Prelude F64 Proto Config Quality Kv Fence Worker Sample Tsdb TsdbLaws Durability MarkJoin AppState
    Classifier Session SessionLaws Scheduler Gossip Trace TraceLaws MapGraph PromText Api Window
    Json Transport AgentConfig Discover Nft AgentMark Bird Throughput AgentMetrics Agent AgentSession EndToEnd Assets Telemetry Daemon Subprocess Certs TlsFiles Carrier
    MemberLink AgentDaemon PingSocket Tracing Operator StoreScenarios
begin

text \<open>
  A verification development for mielofon-qoed, the quality-of-experience daemons of a mesh network.
  An agent on every node (\<open>src/crates/agent\<close>) discovers the node's tunnels, pings over them, counts
  marked traffic and runs throughput tests; a controller (\<open>src/crates/controller\<close>) schedules the
  probes, stores what they measure, classifies every link and hands out OSPF costs, which the agent
  applies through BIRD. The controllers of the cluster members replicate links, nodes and samples by
  gossip. Both sides speak JSON frames on QUIC streams (\<open>src/crates/mielofon-transport\<close>,
  \<open>src/crates/mielofon-proto\<close>).

  How the parts interact. An agent registers its links on a session; the controller keeps the session
  and the links in its registry and publishes the node in the replicated store. Every scheduler tick
  dispatches probe commands on the sessions and, for a throughput test, takes a lease on both end
  nodes. The agent executes a command and answers on the same stream; the answer becomes a sample,
  ends the lease and frees the slot of the command. Every classifier pass reads a window of samples per
  link, derives a class with hysteresis and a cost, and writes it to the store of the owning member; the
  scheduler sends changed costs to the agents, and gossip carries records and samples to the members.

  \<^bold>\<open>Theories and the code they model.\<close> Definitions carry the names of the code; a suffix or prefix marks
  a clash with the library.

  \<^item> \<open>F64\<close>: binary64 and binary32 arithmetic with its rounding, as exact rationals rounded once.
  \<^item> \<open>Prelude\<close>: hash maps as association lists (\<open>hmap\<close>), ordered sequences, wrapping 64-bit sums, decimal
    text, and the invariant rule for step relations. \<open>PromText\<close>: the text of Prometheus samples. \<open>Json\<close>:
    JSON documents and the string functions of the standard library.
  \<^item> \<open>Proto\<close>: the wire types (\<open>mielofon-proto/src/lib.rs\<close>, \<open>model.rs\<close>). \<open>Config\<close>: the controller's
    configuration. \<open>Quality\<close>: thresholds to classes (\<open>quality.rs\<close>, \<open>store.rs\<close>).
  \<^item> \<open>Kv\<close>: the replicated store (\<open>kv.rs\<close>). \<open>Fence\<close>: leases (\<open>fence.rs\<close>). \<open>Worker\<close>: the agent registry
    (\<open>worker.rs\<close>). \<open>Sample\<close>, \<open>Tsdb\<close>, \<open>TsdbLaws\<close>: the time series (\<open>tsdb.rs\<close>); \<open>Durability\<close>: its database across flushes and restarts. \<open>MarkJoin\<close>: the passive tier
    joined (\<open>mark.rs\<close> of the controller).
  \<^item> \<open>AppState\<close>: the shared state (\<open>state.rs\<close>). \<open>Classifier\<close> (\<open>classifier.rs\<close>), \<open>Session\<close> and \<open>SessionLaws\<close>
    (\<open>session.rs\<close>, the ingest of \<open>api.rs\<close>), \<open>Scheduler\<close> (\<open>scheduler.rs\<close>), \<open>Gossip\<close> (\<open>gossip.rs\<close>, the expiry
    task of \<open>main.rs\<close>), \<open>Trace\<close> and \<open>TraceLaws\<close> (\<open>trace.rs\<close>), \<open>MapGraph\<close> (\<open>map.rs\<close>), \<open>Api\<close> (\<open>api.rs\<close>),
    \<open>Assets\<close> (\<open>assets.rs\<close>), \<open>Daemon\<close> (start and stop of \<open>main.rs\<close>), \<open>Operator\<close> (the tool of \<open>tool.rs\<close>, the
    command line, the routes and the access log of \<open>api.rs\<close>, the timers of the tasks): the controller.
    \<open>MemberLink\<close>: the gossip exchange over a session and the rounds that run side by side (\<open>gossip.rs\<close>).
  \<^item> \<open>Transport\<close>: frames, the request and its answer, endpoints (\<open>frame.rs\<close>, \<open>session.rs\<close>, \<open>resolve.rs\<close>).
    \<open>Carrier\<close>: listeners, dialers and sessions on QUIC (\<open>quic.rs\<close>, the accept loops of \<open>session.rs\<close> and
    \<open>gossip.rs\<close>). \<open>TlsFiles\<close>: the identities read at the start (both \<open>tls.rs\<close>). \<open>Certs\<close>: the command that makes
    them (\<open>cert.rs\<close>). \<open>Tracing\<close>: the trace context a command carries (\<open>tracectx.rs\<close>).
  \<^item> \<open>AgentConfig\<close> (\<open>config.rs\<close>), \<open>Discover\<close> (\<open>discover.rs\<close>), \<open>Window\<close> (\<open>window.rs\<close>, the gate and the ping loop of
    \<open>icmp.rs\<close>), \<open>Nft\<close> (\<open>nft.rs\<close>), \<open>AgentMark\<close> (\<open>mark.rs\<close>), \<open>Bird\<close> (\<open>bird.rs\<close>), \<open>Throughput\<close> (\<open>throughput.rs\<close>),
    \<open>AgentMetrics\<close> (\<open>metrics.rs\<close>), \<open>Agent\<close> (\<open>agent.rs\<close>, the prober of \<open>icmp.rs\<close>), \<open>AgentSession\<close> (\<open>session.rs\<close>, the
    tasks of \<open>main.rs\<close>), \<open>Subprocess\<close> (the \<open>ubus\<close>, \<open>nft\<close> and \<open>iperf3\<close> processes and the counters of \<open>/sys\<close>, in
    \<open>bus.rs\<close>, \<open>nft.rs\<close>, \<open>throughput.rs\<close>), \<open>PingSocket\<close> (the raw socket and the outer ping loop of \<open>icmp.rs\<close>),
    \<open>AgentDaemon\<close> (start, exit, marking task and metrics file of \<open>main.rs\<close>): the agent. \<open>Telemetry\<close>: which signals are exported (\<open>mielofon-otel\<close>).
  \<^item> \<open>EndToEnd\<close>: one command from the controller's task through the stream and the agent and back.
  \<^item> \<open>StoreScenarios\<close>: the unit tests of the controller's stores, evaluated on the model.

  \<^bold>\<open>State and steps.\<close> A struct behind a mutex is a record, a critical section one function on it. What runs
  concurrently is a step relation: \<open>work_step\<close> and \<open>conn_step\<close> (commands, registrations, disconnects),
  \<open>sched_step\<close> (with the scheduler's ticks), \<open>gossip_step\<close> (rounds and their pushes), \<open>tsdb_step\<close>, \<open>durable_step\<close> (with restarts), \<open>gate_run\<close>,
  the folds over \<open>session_step\<close>, \<open>agent_step\<close>, \<open>mark_step\<close>, \<open>mark_turn\<close> and \<open>ping_loop_step\<close>. Clock readings, uuids, fresh tokens, the results of dials, bus calls, sockets,
  processes and name lookups are arguments. Parsing an address, spelling a float in decimal and the JSON
  codec are parameters; of the codec only losslessness is assumed, and each hypothesis has a concrete
  instance in a witness.

  \<^bold>\<open>Interfaces.\<close> The locales state what a client relies on and are interpreted on the code's own operations:
  among them \<open>node_lock\<close> (a grant never overlaps what is held) on the fence, \<open>slot_table\<close> and
  \<open>in_flight\<close> (commands in flight hold their slots) on the registry, and the merge of timestamped
  records on the store. Their lemmas give the mutual exclusion of tests, the bound of one command per slot,
  and the convergence of merges.

  \<^bold>\<open>What the lemmas show.\<close> Controller: the classes of a window agree with a reference and are monotone;
  hysteresis, busy hold and pairing behave as documented; stored histories stay sorted, bounded and complete
  towards every peer, and a restart finds what was flushed; leases are node-disjoint and end with their tests; commands neither pile up nor leak
  their slots; sessions supersede one another cleanly; gossip makes two members agree; a trace is a walk of
  the graph; the metrics page has no duplicate series and no request leaves the dashboard directory. Agent:
  frames round-trip; discovery and configuration stay within their bounds; windows survive link changes and
  report their loss faithfully in binary64; every delivered marking block is exact or flagged; costs are
  applied within five calls or explained; a changed link set is registered. Together: a test gives its lease
  back whatever happens, and a cost counts as applied only when BIRD accepted it.

  \<^bold>\<open>Bounds and fuel.\<close> No definition runs on fuel that can be too small: the trace walk carries the code's hop
  cap (24) and its set of visited nodes and terminates by a multiset order; glob matching recurses on the
  pattern; the list of cost attempts is the code's five; the reader of several frames is given one step
  more than there are frames. The code's capacities (16 remembered pauses, 64 queued blocks, the ring and log sizes)
  are constants of the model. Counters of 64 bits wrap where a wrap is written (\<open>add64\<close>), and statements
  that need no wrap say so; the loss of a ping window is stated below \<open>2 ^ 46\<close> pings, the configuration
  allows 3600. The agent's command counters are as wide as a pointer and taken as numbers.

  \<^bold>\<open>What the modelling showed.\<close> Interleavings and inputs the code does not handle are stated as lemmas next
  to the definitions they concern, for instance: a late publication that is never gossiped, buckets lost when a
  flush fails and queued for ever without a database, a reply under a renamed peer that leaves its lease, a
  pruned record that comes back, \<open>ping_interval = nan\<close> which panics, the agent's log level \<open>debug\<close> which is
  read as \<open>info\<close>, a collector endpoint with a trailing slash which loses the signal's path, a node without nft
  whose marking task logs twice per block for ever, the temporary files a failed signature leaves behind, and a
  host name with a line break which adds a usage to the certificate.

  \<^bold>\<open>Not modelled.\<close> Outside are the libraries and processes the code calls: QUIC and TLS themselves, the
  database engine, the HTTP server, the OpenTelemetry exporters and the subscriber layers around them, and
  \<open>openssl\<close>, \<open>ubus\<close>, \<open>nft\<close>, \<open>iperf3\<close> and the kernel, whose results are arguments of the definitions that use
  them. Apart from those whose rate matters (the marking task, the access log), log lines and spans are left out:
  they have no effect on the state. The test helpers of the source (mock buses, certificates in memory), the
  dashboard and the packaging are other programs.
\<close>

end
